(* ===== verification/Prelude.thy ===== *)
theory Prelude
  imports Main "HOL-Library.Word" "HOL-Library.Multiset"
begin

text \<open>
  Shared ground of the development: the machine integers, the error values, the way a Go
  function with an effect is written (a state transformer that answers an error or a value),
  and the generic lemmas on lists and on that transformer which the components use.

  \<^item> A Go \<open>uint64\<close> is a \<open>64 word\<close>. A Go \<open>int\<close> or \<open>int64\<close> is an \<open>int\<close> that holds the
    two's complement value; where the source adds such values the wrap-around is written
    out with \<open>wrap64\<close>.
  \<^item> An error value of the source is a \<open>go_err\<close>; a panic is the constructor \<open>Panic\<close>.
  \<^item> \<open>('s, 'a) io\<close> is a computation over the state \<open>'s\<close> that ends in an error or a result.
    \<open>bind_io\<close> is the source's idiom \<open>x, err := f(); if err != nil { return err }\<close>.
\<close>

section \<open>Machine integers and error values\<close>

type_synonym u64 = "64 word"

definition wrap64 :: "int \<Rightarrow> int" where
  "wrap64 x = (x + 2 ^ 63) mod 2 ^ 64 - 2 ^ 63"

definition max_int :: int where
  "max_int = 2 ^ 63 - 1"

datatype num_err = ErrSyntax | ErrRange

datatype go_err =
    NumErr num_err
  | DbErr string
  | RecordNotFound
  | BizError int string
  | PlainErr string
  | ValidatorErr string
  | CronErr string
  | HttpErr string
  | JsonErr string
  | HandleErr int go_err
  | Panic string

section \<open>Computations that may end in an error\<close>

type_synonym ('s, 'a) io = "'s \<Rightarrow> (go_err + 'a) \<times> 's"

definition ret_io :: "'a \<Rightarrow> ('s, 'a) io" where
  "ret_io x = (\<lambda>s. (Inr x, s))"

definition throw_io :: "go_err \<Rightarrow> ('s, 'a) io" where
  "throw_io e = (\<lambda>s. (Inl e, s))"

definition lift_io :: "go_err + 'a \<Rightarrow> ('s, 'a) io" where
  "lift_io r = (\<lambda>s. (r, s))"

definition bind_io :: "('s, 'a) io \<Rightarrow> ('a \<Rightarrow> ('s, 'b) io) \<Rightarrow> ('s, 'b) io" where
  "bind_io m k = (\<lambda>s. case m s of (Inl e, s') \<Rightarrow> (Inl e, s') | (Inr x, s') \<Rightarrow> k x s')"

text \<open>\<open>pres_io P m\<close>: whatever \<open>m\<close> answers, it leaves a state with \<open>P\<close> when started in one.\<close>

definition pres_io :: "('s \<Rightarrow> bool) \<Rightarrow> ('s, 'a) io \<Rightarrow> bool" where
  "pres_io P m \<longleftrightarrow> (\<forall>s. P s \<longrightarrow> P (snd (m s)))"

named_theorems pres "rules that derive the preservation of a state predicate by a computation"
named_theorems io_simps "evaluation of computations"

lemma ret_io_apply [io_simps, simp]: "ret_io x s = (Inr x, s)"
  by (simp add: ret_io_def)

lemma throw_io_apply [io_simps, simp]: "throw_io e s = (Inl e, s)"
  by (simp add: throw_io_def)

lemma lift_io_apply [io_simps, simp]: "lift_io r s = (r, s)"
  by (simp add: lift_io_def)

lemma bind_io_Inl [io_simps]: "m s = (Inl e, s') \<Longrightarrow> bind_io m k s = (Inl e, s')"
  by (simp add: bind_io_def)

lemma bind_io_Inr [io_simps]: "m s = (Inr x, s') \<Longrightarrow> bind_io m k s = k x s'"
  by (simp add: bind_io_def)

lemma bind_io_ok:
  "bind_io m k s = (Inr y, t) \<longleftrightarrow> (\<exists>x s'. m s = (Inr x, s') \<and> k x s' = (Inr y, t))"
  by (auto simp: bind_io_def split: prod.splits sum.splits)

lemma bind_io_err:
  "bind_io m k s = (Inl e, t) \<longleftrightarrow>
     m s = (Inl e, t) \<or> (\<exists>x s'. m s = (Inr x, s') \<and> k x s' = (Inl e, t))"
  by (auto simp: bind_io_def split: prod.splits sum.splits)

lemma bind_io_okE:
  assumes "bind_io m k s = (Inr y, t)"
  obtains x s' where "m s = (Inr x, s')" "k x s' = (Inr y, t)"
  using assms by (auto simp: bind_io_ok)

lemma bind_ret_io [io_simps, simp]: "bind_io (ret_io x) k = k x"
  by (rule ext) (simp add: bind_io_def)

lemma bind_throw_io [io_simps, simp]: "bind_io (throw_io e) k = throw_io e"
  by (rule ext) (simp add: bind_io_def)

lemma pres_ioD: "pres_io P m \<Longrightarrow> m s = (r, t) \<Longrightarrow> P s \<Longrightarrow> P t"
  by (auto simp: pres_io_def dest: spec [of _ s])

lemma pres_ioI: "(\<And>s r t. m s = (r, t) \<Longrightarrow> P s \<Longrightarrow> P t) \<Longrightarrow> pres_io P m"
  unfolding pres_io_def by (metis prod.collapse)

lemma pres_ret_io [pres]: "pres_io P (ret_io x)"
  by (simp add: pres_io_def)

lemma pres_throw_io [pres]: "pres_io P (throw_io e)"
  by (simp add: pres_io_def)

lemma pres_lift_io [pres]: "pres_io P (lift_io r)"
  by (simp add: pres_io_def)

lemma pres_bind_io [pres]:
  "pres_io P m \<Longrightarrow> (\<And>x. pres_io P (k x)) \<Longrightarrow> pres_io P (bind_io m k)"
  by (fastforce simp: pres_io_def bind_io_def split: prod.splits sum.splits)

lemma pres_if_io [pres]:
  "(b \<Longrightarrow> pres_io P m) \<Longrightarrow> (\<not> b \<Longrightarrow> pres_io P m') \<Longrightarrow> pres_io P (if b then m else m')"
  by simp

lemma pres_case_option [pres]:
  "pres_io P m \<Longrightarrow> (\<And>x. pres_io P (k x)) \<Longrightarrow>
     pres_io P (case y of None \<Rightarrow> m | Some x \<Rightarrow> k x)"
  by (cases y) auto

lemma pres_case_sum [pres]:
  "(\<And>e. pres_io P (h e)) \<Longrightarrow> (\<And>x. pres_io P (k x)) \<Longrightarrow>
     pres_io P (case y of Inl e \<Rightarrow> h e | Inr x \<Rightarrow> k x)"
  by (cases y) auto

lemma pres_case_prod [pres]:
  "(\<And>a b. pres_io P (k a b)) \<Longrightarrow> pres_io P (case y of (a, b) \<Rightarrow> k a b)"
  by (cases y) auto

section \<open>Generic lemmas\<close>

lemma wrap64_id: "- (2 ^ 63) \<le> x \<Longrightarrow> x < 2 ^ 63 \<Longrightarrow> wrap64 x = x"
  by (simp add: wrap64_def)

lemma wrap64_bounds: "- (2 ^ 63) \<le> wrap64 x \<and> wrap64 x < 2 ^ 63"
proof -
  have "0 \<le> (x + 2 ^ 63) mod 2 ^ 64" "(x + 2 ^ 63) mod 2 ^ 64 < 2 ^ 64"
    by simp_all
  then show ?thesis by (simp add: wrap64_def)
qed

lemma length_filter_pos: "x \<in> set xs \<Longrightarrow> P x \<Longrightarrow> 0 < length (filter P xs)"
  by (induction xs) auto

lemma filter_none: "length (filter P xs) = 0 \<longleftrightarrow> (\<forall>x \<in> set xs. \<not> P x)"
  by (induction xs) auto

lemma map_if_none: "\<forall>x \<in> set xs. \<not> P x \<Longrightarrow> map (\<lambda>x. if P x then f x else x) xs = xs"
  by (induction xs) auto

lemma map_if_same: "(\<And>x. g (f x) = g x) \<Longrightarrow> map g (map (\<lambda>x. if P x then f x else x) xs) = map g xs"
  by (induction xs) auto

lemma distinct_map_eq: "distinct (map f xs) \<Longrightarrow> x \<in> set xs \<Longrightarrow> y \<in> set xs \<Longrightarrow> f x = f y \<Longrightarrow> x = y"
  by (auto simp: distinct_map inj_on_def)

lemma sorted_take: "sorted xs \<Longrightarrow> sorted (take n xs)"
  by (simp add: sorted_wrt_take)

lemma list_all2_left: "list_all2 P xs ys \<Longrightarrow> x \<in> set xs \<Longrightarrow> \<exists>y \<in> set ys. P x y"
  by (induction xs ys rule: list_all2_induct) auto

lemma list_all2_right: "list_all2 P xs ys \<Longrightarrow> y \<in> set ys \<Longrightarrow> \<exists>x \<in> set xs. P x y"
  by (induction xs ys rule: list_all2_induct) auto

lemma length_filter_update:
  assumes "k < length xs"
  shows "int (length (filter P (xs[k := y]))) =
    int (length (filter P xs)) - (if P (xs ! k) then 1 else 0) + (if P y then 1 else 0)"
  using assms
proof (induction xs arbitrary: k)
  case (Cons x xs)
  show ?case
  proof (cases k)
    case 0
    then show ?thesis by simp
  next
    case (Suc j)
    with Cons.prems have "j < length xs" by simp
    from Cons.IH [OF this] Suc show ?thesis by (cases "P x") (simp_all split del: if_split)
  qed
qed simp

lemma set_updateD: "x \<in> set (xs[k := y]) \<Longrightarrow> x = y \<or> x \<in> set xs"
  by (auto dest: set_update_subset_insert [THEN subsetD])

text \<open>Decomposition of a computed pair.\<close>

lemma fst_eqE:
  assumes "fst p = x"
  obtains y where "p = (x, y)"
  using assms by (cases p) auto

lemma fst_eqE3:
  assumes "fst p = x"
  obtains y z where "p = (x, y, z)"
  using assms by (cases p) auto

lemma set_take_filter: "set (take n (filter P xs)) \<subseteq> {x \<in> set xs. P x}"
  by (auto dest: in_set_takeD)

end
