(* ===== verification/Callers.thy ===== *)
theory Callers
  imports Prelude
begin

text \<open>
  Any number of callers of functions that share variables and a mutex: each caller is at a program
  point, \<open>move\<close> is one step of a caller (\<open>None\<close> when it is blocked or has returned), and any interleaving is
  a run. \<open>Logging\<close> and \<open>Repo_Conn\<close> give \<open>move\<close> from the code; both initialise something once behind a check,
  a lock and a second check.

  The locale \<open>mutex_callers\<close> is what such a \<open>move\<close> owes to the mutex, and what all of them get from it: there is
  never more than one caller inside.
\<close>

section \<open>Interleavings\<close>

type_synonym ('c, 's) move = "'c \<Rightarrow> 's \<Rightarrow> ('c \<times> 's) option"

inductive callers_step :: "('c, 's) move \<Rightarrow> 'c list \<times> 's \<Rightarrow> 'c list \<times> 's \<Rightarrow> bool" for move where
  step: "k < length cs \<Longrightarrow> move (cs ! k) s = Some (c', s') \<Longrightarrow> callers_step move (cs, s) (cs[k := c'], s')"

inductive_cases callers_stepE: "callers_step move (cs, s) (cs', s')"

definition callers_run :: "('c, 's) move \<Rightarrow> 'c list \<times> 's \<Rightarrow> 'c list \<times> 's \<Rightarrow> bool" where
  "callers_run move = (callers_step move)\<^sup>*\<^sup>*"

text \<open>A schedule: the callers in the order of their steps.\<close>

fun callers_exec :: "('c, 's) move \<Rightarrow> nat list \<Rightarrow> 'c list \<times> 's \<Rightarrow> ('c list \<times> 's) option" where
  "callers_exec move [] (cs, s) = Some (cs, s)"
| "callers_exec move (k # ks) (cs, s) =
     (if k < length cs then
        (case move (cs ! k) s of
           None \<Rightarrow> None
         | Some (c', s') \<Rightarrow> callers_exec move ks (cs[k := c'], s'))
      else None)"

lemma callers_exec_run: "callers_exec move ks (cs, s) = Some y \<Longrightarrow> callers_run move (cs, s) y"
proof (induction ks arbitrary: cs s)
  case (Cons k ks)
  then obtain c' s' where k: "k < length cs" "move (cs ! k) s = Some (c', s')"
    and rest: "callers_exec move ks (cs[k := c'], s') = Some y"
    by (auto split: if_splits option.splits)
  have "callers_step move (cs, s) (cs[k := c'], s')" using callers_step.step [of k cs move s c' s'] k by simp
  then show ?case
    using Cons.IH [OF rest] unfolding callers_run_def by (rule converse_rtranclp_into_rtranclp)
qed (simp add: callers_run_def)

text \<open>An invariant of the list of callers and the shared variables.\<close>

lemma callers_run_inv:
  assumes "callers_run move (cs0, s0) (cs, s)" "P cs0 s0"
    and "\<And>cs s k c' s'. P cs s \<Longrightarrow> k < length cs \<Longrightarrow> move (cs ! k) s = Some (c', s') \<Longrightarrow> P (cs[k := c']) s'"
  shows "P cs s"
proof -
  have "P (fst y) (snd y)" if "(callers_step move)\<^sup>*\<^sup>* (cs0, s0) y" for y
    using that
  proof (induction rule: rtranclp_induct)
    case (step y z)
    from step.hyps(2) show ?case
      by (cases rule: callers_step.cases) (use step.IH assms(3) in auto)
  qed (simp add: assms(2))
  from this [of "(cs, s)"] assms(1) show ?thesis by (simp add: callers_run_def)
qed

section \<open>Callers of a mutex\<close>

text \<open>
  \<open>inside\<close> says which program points hold the mutex. A step takes it only when it is free, and the mutex
  is locked exactly by what a step takes and gives back.
\<close>

locale mutex_callers =
  fixes move :: "('c, 's) move" and inside :: "'c \<Rightarrow> bool" and locked :: "'s \<Rightarrow> bool"
  assumes takes_free: "move c s = Some (c', s') \<Longrightarrow> \<not> inside c \<Longrightarrow> inside c' \<Longrightarrow> \<not> locked s"
    and balance: "move c s = Some (c', s') \<Longrightarrow> (inside c \<longrightarrow> locked s) \<Longrightarrow>
      locked s' = (if inside c = inside c' then locked s else inside c')"
begin

definition mutex_inv :: "'c list \<Rightarrow> 's \<Rightarrow> bool" where
  "mutex_inv cs s \<longleftrightarrow> length (filter inside cs) = of_bool (locked s)"

lemma inside_locked: "mutex_inv cs s \<Longrightarrow> k < length cs \<Longrightarrow> inside (cs ! k) \<Longrightarrow> locked s"
  using length_filter_pos [of "cs ! k" cs inside] by (auto simp: mutex_inv_def split: if_splits)

lemma mutex_step:
  assumes "mutex_inv cs s" "k < length cs" "move (cs ! k) s = Some (c', s')"
  shows "mutex_inv (cs[k := c']) s'"
proof -
  have "int (length (filter inside (cs[k := c']))) =
      int (length (filter inside cs)) - (if inside (cs ! k) then 1 else 0) + (if inside c' then 1 else 0)"
    by (rule length_filter_update [OF assms(2)])
  moreover have "inside (cs ! k) \<longrightarrow> locked s" using inside_locked [OF assms(1,2)] by blast
  moreover have "\<not> inside (cs ! k) \<Longrightarrow> inside c' \<Longrightarrow> \<not> locked s" by (rule takes_free [OF assms(3)])
  ultimately show ?thesis
    using balance [OF assms(3)] assms(1)
    by (cases "inside (cs ! k)"; cases "inside c'"; cases "locked s") (simp_all add: mutex_inv_def)
qed

text \<open>Who is inside is alone.\<close>

lemma alone:
  assumes "mutex_inv cs s" "j < length cs" "k < length cs" "inside (cs ! j)" "inside (cs ! k)"
  shows "j = k"
proof (rule ccontr)
  assume "j \<noteq> k"
  have one: "length (filter inside cs) = 1"
    using assms(1) inside_locked [OF assms(1,2,4)] by (simp add: mutex_inv_def)
  have "{j, k} \<subseteq> {i. i < length cs \<and> inside (cs ! i)}" using assms by auto
  from card_mono [OF _ this] \<open>j \<noteq> k\<close> one show False by (simp add: length_filter_conv_card)
qed

end

end
