(* ===== verification/Logging.thy ===== *)
theory Logging
  imports Callers
begin

text \<open>
  \<open>internal/util/logger/logger.go\<close>: the seven loggers of the process, the functions \<open>MustGet...Logger\<close> that
  hand them out, \<open>Init\<close> that makes them once, and \<open>Flush\<close>; the choice of a level for an SQL statement in
  \<open>internal/task/impl/repo/mysql/logger.go\<close>; and what a panic leaves in the log
  (\<open>internal/util/runtime/recover.go\<close>).

  The package variables are a map from their names. A logger is what \<open>NewLogger\<close> was told: its directory,
  the size of its files and the level that was set, if any; how \<open>log-go\<close> writes it is not modelled. The
  nil pointer that \<open>Init\<close> may be given is in \<open>Boot\<close>.
\<close>

section \<open>One logger\<close>

record logger_conf =
  lc_LogDir :: string
  lc_FileSize :: int
  lc_Level :: string

datatype log_level = LevelDebug | LevelInfo | LevelWarn | LevelError | LevelPanic | LevelFatal

record file_logger =
  fl_dir :: string
  fl_size :: int
  fl_level :: "log_level option"

definition to_lower_char :: "char \<Rightarrow> char" where
  "to_lower_char c = (let n = of_char c :: nat in if 65 \<le> n \<and> n \<le> 90 then char_of (n + 32) else c)"

definition trim_right_slash :: "string \<Rightarrow> string" where
  "trim_right_slash s = rev (dropWhile (\<lambda>c. c = CHR ''/'') (rev s))"

text \<open>An unknown level sets none, so the logger keeps the level it was made with.\<close>

definition parse_level :: "string \<Rightarrow> log_level option" where
  "parse_level level =
     (let l = map to_lower_char level
      in if l = ''debug'' then Some LevelDebug
         else if l = ''info'' then Some LevelInfo
         else if l = ''warn'' then Some LevelWarn
         else if l = ''error'' then Some LevelError
         else if l = ''panic'' then Some LevelPanic
         else if l = ''fatal'' then Some LevelFatal
         else None)"

definition new_logger :: "string \<Rightarrow> int \<Rightarrow> string \<Rightarrow> file_logger" where
  "new_logger baseDir maxFileSize level =
     \<lparr>fl_dir = baseDir, fl_size = maxFileSize, fl_level = parse_level level\<rparr>"

section \<open>The loggers of the process\<close>

datatype log_name = SysLog | SessionLog | ElectLog | RepoLog | TaskLog | RegistryLog | CallbackLog

definition log_names :: "log_name list" where
  "log_names = [SysLog, SessionLog, ElectLog, RepoLog, TaskLog, RegistryLog, CallbackLog]"

primrec log_subdir :: "log_name \<Rightarrow> string" where
  "log_subdir SysLog = ''/sys''"
| "log_subdir SessionLog = ''/session''"
| "log_subdir ElectLog = ''/elect''"
| "log_subdir RepoLog = ''/repo''"
| "log_subdir TaskLog = ''/task''"
| "log_subdir RegistryLog = ''/registry''"
| "log_subdir CallbackLog = ''/callback''"

definition make_logger :: "logger_conf \<Rightarrow> log_name \<Rightarrow> file_logger" where
  "make_logger conf x =
     new_logger (trim_right_slash (lc_LogDir conf) @ log_subdir x) (lc_FileSize conf) (lc_Level conf)"

record logging =
  lg_hasInit :: bool
  lg_locked :: bool
  lg_var :: "log_name \<Rightarrow> file_logger option"
  lg_loggers :: "file_logger option list"

definition logging_start :: logging where
  "logging_start = \<lparr>lg_hasInit = False, lg_locked = False, lg_var = Map.empty, lg_loggers = []\<rparr>"

text \<open>
  The callers. \<open>Init\<close> loads the flag, takes the mutex, loads the flag again, assigns the variables one after
  the other, collects them, stores the flag and gives the mutex back. A \<open>MustGet\<close> loads the flag and then
  reads its variable; without the flag it panics.
\<close>

datatype log_pc =
    InCheck logger_conf
  | InLock logger_conf
  | InRecheck logger_conf
  | InMake "log_name list" logger_conf
  | InStore logger_conf
  | InUnlock
  | InEnd
  | GetCheck log_name
  | GetRead log_name
  | GetEnd log_name "file_logger option"
  | GetPanic

fun log_move :: "log_pc \<Rightarrow> logging \<Rightarrow> (log_pc \<times> logging) option" where
  "log_move (InCheck conf) g = Some (if lg_hasInit g then InEnd else InLock conf, g)"
| "log_move (InLock conf) g =
     (if lg_locked g then None else Some (InRecheck conf, g\<lparr>lg_locked := True\<rparr>))"
| "log_move (InRecheck conf) g = Some (if lg_hasInit g then InUnlock else InMake log_names conf, g)"
| "log_move (InMake (x # xs) conf) g =
     Some (InMake xs conf, g\<lparr>lg_var := (lg_var g)(x \<mapsto> make_logger conf x)\<rparr>)"
| "log_move (InMake [] conf) g = Some (InStore conf, g\<lparr>lg_loggers := map (lg_var g) log_names\<rparr>)"
| "log_move (InStore conf) g = Some (InUnlock, g\<lparr>lg_hasInit := True\<rparr>)"
| "log_move InUnlock g = Some (InEnd, g\<lparr>lg_locked := False\<rparr>)"
| "log_move InEnd g = None"
| "log_move (GetCheck x) g = Some (if lg_hasInit g then GetRead x else GetPanic, g)"
| "log_move (GetRead x) g = Some (GetEnd x (lg_var g x), g)"
| "log_move (GetEnd x l) g = None"
| "log_move GetPanic g = None"

fun is_entry :: "logger_conf set \<Rightarrow> log_pc \<Rightarrow> bool" where
  "is_entry C (InCheck conf) = (conf \<in> C)"
| "is_entry C (GetCheck x) = True"
| "is_entry C pc = False"

text \<open>\<open>Flush\<close>: one goroutine per logger; what it prints for the loggers whose \<open>Flush\<close> fails, in some order.\<close>

definition flush_messages :: "(file_logger \<Rightarrow> go_err option) \<Rightarrow> file_logger option list \<Rightarrow> (nat \<times> go_err) multiset" where
  "flush_messages flush loggers =
     mset (List.map_filter (\<lambda>(idx, l). case l of
        None \<Rightarrow> Some (idx, Panic ''nil logger'')
      | Some x \<Rightarrow> map_option (Pair idx) (flush x)) (zip [0..<length loggers] loggers))"

section \<open>The log of an SQL statement\<close>

datatype trace_kind = TraceErr go_err | TraceSlow int | TraceInfo

record trace_line =
  tc_kind :: trace_kind
  tc_elapsed :: int
  tc_rows :: "int option"
  tc_sql :: string

text \<open>\<open>fc\<close> answers the text of the statement and the rows affected, \<open>-1\<close> when they are unknown.\<close>

definition gorm_trace :: "int \<Rightarrow> int \<Rightarrow> string \<times> int \<Rightarrow> go_err option \<Rightarrow> trace_line" where
  "gorm_trace slowThreshold elapsed fc err =
     (let (sql, rows) = fc;
          shown = (if rows = - 1 then None else Some rows);
          kind = (case err of
                    Some e \<Rightarrow> if e \<noteq> RecordNotFound then TraceErr e
                              else if elapsed > slowThreshold \<and> slowThreshold \<noteq> 0 then TraceSlow slowThreshold
                              else TraceInfo
                  | None \<Rightarrow> if elapsed > slowThreshold \<and> slowThreshold \<noteq> 0 then TraceSlow slowThreshold
                            else TraceInfo)
      in \<lparr>tc_kind = kind, tc_elapsed = elapsed, tc_rows = shown, tc_sql = sql\<rparr>)"

section \<open>The end of a process that panicked\<close>

text \<open>\<open>strings.Split(s, sep)\<close> for a separator of one character.\<close>

fun split_lines :: "string \<Rightarrow> string \<Rightarrow> string list" where
  "split_lines cur [] = [cur]"
| "split_lines cur (c # cs) =
     (if c = CHR 0x0A then cur # split_lines [] cs else split_lines (cur @ [c]) cs)"

text \<open>
  \<open>RecoverToTraceAndExit\<close> of \<open>internal/util/runtime/recover.go\<close>: nothing without a panic; with one, the lines it logs
  and the exit status. \<open>err\<close> is the text of the panic's value.
\<close>

definition recover_to_trace_and_exit :: "string option \<Rightarrow> string \<Rightarrow> (string list \<times> int) option" where
  "recover_to_trace_and_exit panicked stack =
     (case panicked of
        None \<Rightarrow> None
      | Some err \<Rightarrow>
          Some ([''PROCESS PANIC: err '' @ err] @ (if 0 < length stack then split_lines [] stack else []) @
                [''stack is empty ('' @ err @ '')''], 0))"

section \<open>Init happens once\<close>

fun in_init :: "log_pc \<Rightarrow> bool" where
  "in_init (InRecheck conf) = True"
| "in_init (InMake xs conf) = True"
| "in_init (InStore conf) = True"
| "in_init InUnlock = True"
| "in_init pc = False"

interpretation logs: mutex_callers log_move in_init lg_locked
proof
  fix c g c' g'
  assume move: "log_move c g = Some (c', g')"
  show "\<not> in_init c \<Longrightarrow> in_init c' \<Longrightarrow> \<not> lg_locked g"
    using move by (cases "(c, g)" rule: log_move.cases) (auto split: if_splits)
  show "(in_init c \<longrightarrow> lg_locked g) \<Longrightarrow>
      lg_locked g' = (if in_init c = in_init c' then lg_locked g else in_init c')"
    using move by (cases "(c, g)" rule: log_move.cases) (auto split: if_splits)
qed

definition all_made :: "logger_conf \<Rightarrow> logging \<Rightarrow> bool" where
  "all_made conf g \<longleftrightarrow> lg_var g = (\<lambda>x. Some (make_logger conf x)) \<and> lg_loggers g = map (lg_var g) log_names"

text \<open>What a caller at a program point may rely on.\<close>

fun log_ok :: "logger_conf set \<Rightarrow> logging \<Rightarrow> log_pc \<Rightarrow> bool" where
  "log_ok C g (InCheck conf) = (conf \<in> C)"
| "log_ok C g (InLock conf) = (conf \<in> C)"
| "log_ok C g (InRecheck conf) = (conf \<in> C)"
| "log_ok C g (InMake xs conf) = (conf \<in> C \<and> \<not> lg_hasInit g \<and>
     (\<exists>pre. pre @ xs = log_names \<and> (\<forall>x \<in> set pre. lg_var g x = Some (make_logger conf x))))"
| "log_ok C g (InStore conf) = (conf \<in> C \<and> \<not> lg_hasInit g \<and> all_made conf g)"
| "log_ok C g (GetRead x) = lg_hasInit g"
| "log_ok C g (GetEnd x l) = (lg_hasInit g \<and> l = lg_var g x)"
| "log_ok C g pc = True"

definition log_inv :: "logger_conf set \<Rightarrow> log_pc list \<Rightarrow> logging \<Rightarrow> bool" where
  "log_inv C cs g \<longleftrightarrow> logs.mutex_inv cs g \<and> list_all (log_ok C g) cs \<and>
     (lg_hasInit g \<longrightarrow> (\<exists>conf \<in> C. all_made conf g))"

lemma log_names_all: "x \<in> set log_names"
  by (cases x) (simp_all add: log_names_def)

text \<open>A step of a caller that is not inside changes nothing that others rely on.\<close>

lemma log_outside: "log_move c g = Some (c', g') \<Longrightarrow> \<not> in_init c \<Longrightarrow>
    lg_hasInit g' = lg_hasInit g \<and> lg_var g' = lg_var g \<and> lg_loggers g' = lg_loggers g"
  by (cases "(c, g)" rule: log_move.cases) (auto split: if_splits)

lemma log_ok_same:
  "lg_hasInit g' = lg_hasInit g \<Longrightarrow> lg_var g' = lg_var g \<Longrightarrow> lg_loggers g' = lg_loggers g \<Longrightarrow>
     log_ok C g' c = log_ok C g c"
  by (cases c) (auto simp: all_made_def)

text \<open>What a caller outside relies on survives the steps of the one inside.\<close>

lemma log_ok_other: "log_move c g = Some (c', g') \<Longrightarrow> log_ok C g c \<Longrightarrow> log_ok C g d \<Longrightarrow> \<not> in_init d \<Longrightarrow> log_ok C g' d"
  by (cases "(c, g)" rule: log_move.cases; cases d) (auto split: if_splits)

lemma log_ok_self:
  assumes "log_move c g = Some (c', g')" "log_ok C g c" "lg_hasInit g \<longrightarrow> (\<exists>conf \<in> C. all_made conf g)"
  shows "log_ok C g' c' \<and> (lg_hasInit g' \<longrightarrow> (\<exists>conf \<in> C. all_made conf g'))"
proof (cases "(c, g)" rule: log_move.cases)
  case (4 x xs conf g)
  then obtain pre where pre: "pre @ x # xs = log_names" "\<forall>y \<in> set pre. lg_var g y = Some (make_logger conf y)"
    "conf \<in> C" "\<not> lg_hasInit g"
    using assms(2) by auto
  with 4 assms(1) show ?thesis by (auto intro!: exI [of _ "pre @ [x]"])
next
  case (5 conf g)
  then have "\<forall>x. lg_var g x = Some (make_logger conf x)" using assms(2) log_names_all by auto
  then have "lg_var g = (\<lambda>x. Some (make_logger conf x))" by (intro ext) simp
  with 5 assms show ?thesis by (auto simp: all_made_def)
qed (use assms in \<open>auto simp: all_made_def split: if_splits\<close>)

lemma log_inv_step:
  assumes "log_inv C cs g" "k < length cs" "log_move (cs ! k) g = Some (c', g')"
  shows "log_inv C (cs[k := c']) g'"
proof -
  have inv: "logs.mutex_inv cs g" and ok: "\<And>j. j < length cs \<Longrightarrow> log_ok C g (cs ! j)"
    and made: "lg_hasInit g \<longrightarrow> (\<exists>conf \<in> C. all_made conf g)"
    using assms(1) by (auto simp: log_inv_def list_all_length)
  have "log_ok C g' (cs[k := c'] ! j)" if "j < length cs" for j
  proof (cases "j = k")
    case True
    with log_ok_self [OF assms(3) ok [OF assms(2)] made] assms(2) show ?thesis by simp
  next
    case False
    have "log_ok C g' (cs ! j)"
    proof (cases "in_init (cs ! k)")
      case True
      with logs.alone [OF inv that assms(2)] False have "\<not> in_init (cs ! j)" by blast
      with log_ok_other [OF assms(3) ok [OF assms(2)] ok [OF that]] show ?thesis .
    next
      case False
      with log_outside [OF assms(3)] log_ok_same ok [OF that] show ?thesis by blast
    qed
    with False show ?thesis by simp
  qed
  with log_ok_self [OF assms(3) ok [OF assms(2)] made] logs.mutex_step [OF inv assms(2,3)] show ?thesis
    by (simp add: log_inv_def list_all_length)
qed

lemma log_inv_start:
  assumes "list_all (is_entry C) cs"
  shows "log_inv C cs logging_start"
proof -
  have out: "\<not> in_init c \<and> log_ok C logging_start c" if "is_entry C c" for c
    using that by (cases c) auto
  with assms have "filter in_init cs = []" by (auto simp: list_all_iff filter_empty_conv)
  with assms out show ?thesis
    by (auto simp: log_inv_def logs.mutex_inv_def logging_start_def list_all_iff)
qed

lemma log_inv_run:
  assumes "callers_run log_move (cs0, logging_start) (cs, g)" "list_all (is_entry C) cs0"
  shows "log_inv C cs g"
  by (rule callers_run_inv [where P = "log_inv C", OF assms(1) log_inv_start [OF assms(2)] log_inv_step])

section \<open>Properties\<close>

text \<open>
  C24. The loggers are made once and nobody sees half of them: with any number of callers of \<open>Init\<close> and of
  the \<open>MustGet\<close> functions in any interleaving, a \<open>MustGet\<close> either panics or answers a logger of one and the same
  configuration among those given to \<open>Init\<close>, and once the flag is set no step changes the loggers.
\<close>

lemma loggers_made_once:
  assumes "callers_run log_move (cs0, logging_start) (cs, g)" "list_all (is_entry C) cs0"
  shows "(\<forall>x l. GetEnd x l \<in> set cs \<longrightarrow> lg_hasInit g \<and> l = lg_var g x) \<and>
    (lg_hasInit g \<longrightarrow> (\<exists>conf \<in> C. \<forall>x. lg_var g x = Some (make_logger conf x)) \<and>
      (\<forall>cs' g'. callers_step log_move (cs, g) (cs', g') \<longrightarrow> lg_var g' = lg_var g \<and> lg_loggers g' = lg_loggers g))"
proof -
  have inv: "log_inv C cs g" by (rule log_inv_run [OF assms])
  have same: "lg_var g' = lg_var g \<and> lg_loggers g' = lg_loggers g"
    if "callers_step log_move (cs, g) (cs', g')" "lg_hasInit g" for cs' g'
    using that(1)
  proof (cases rule: callers_step.cases)
    case (step k c')
    then have "log_ok C g (cs ! k)" using inv by (auto simp: log_inv_def list_all_length)
    with step(3) that(2) show ?thesis
      by (cases "(cs ! k, g)" rule: log_move.cases) (auto split: if_splits)
  qed
  show ?thesis
    using inv same by (force simp: log_inv_def list_all_iff all_made_def)
qed

definition demo_conf :: logger_conf where
  "demo_conf = \<lparr>lc_LogDir = ''/var/log/'', lc_FileSize = 1024, lc_Level = ''Info''\<rparr>"

lemma loggers_made_once_witness:
  "\<exists>cs g. callers_run log_move ([InCheck demo_conf, GetCheck SysLog, GetCheck RepoLog], logging_start) (cs, g) \<and>
     cs = [InEnd, GetPanic, GetEnd RepoLog (Some \<lparr>fl_dir = ''/var/log/repo'', fl_size = 1024, fl_level = Some LevelInfo\<rparr>)] \<and>
     (\<forall>x. \<exists>conf \<in> {demo_conf}. lg_var g x = Some (make_logger conf x))"
proof -
  let ?start = "([InCheck demo_conf, GetCheck SysLog, GetCheck RepoLog], logging_start)"
  let ?cs = "[InEnd, GetPanic, GetEnd RepoLog (Some \<lparr>fl_dir = ''/var/log/repo'', fl_size = 1024, fl_level = Some LevelInfo\<rparr>)]"
  have "map_option fst (callers_exec log_move [0, 1, 0, 0, 0, 0, 0, 0, 0, 0, 0, 0, 0, 2, 2, 0] ?start) = Some ?cs"
    by code_simp
  then obtain g where "callers_exec log_move [0, 1, 0, 0, 0, 0, 0, 0, 0, 0, 0, 0, 0, 2, 2, 0] ?start = Some (?cs, g)"
    by auto
  then have run: "callers_run log_move ?start (?cs, g)" by (rule callers_exec_run)
  have entry: "list_all (is_entry {demo_conf}) [InCheck demo_conf, GetCheck SysLog, GetCheck RepoLog]" by simp
  from loggers_made_once [OF run entry] have "\<exists>conf \<in> {demo_conf}. \<forall>x. lg_var g x = Some (make_logger conf x)"
    by auto
  with run show ?thesis by (intro exI [of _ ?cs] exI [of _ g] conjI) auto
qed

end
