(* ===== verification/Repo_Conn.thy ===== *)
theory Repo_Conn
  imports Callers
begin

text \<open>
  \<open>internal/task/impl/repo/mysql/repo_conn.go\<close>: the connection of a repository, opened by the first
  statement behind a check, a lock and a second check. \<open>gorm.Open\<close> is a parameter: the handle and the error
  of the \<open>n\<close>-th attempt; the source assigns both results before it looks at the error. \<open>cn_opened\<close> counts
  the attempts.
\<close>

section \<open>Definitions\<close>

type_synonym 'c gorm_open = "nat \<Rightarrow> 'c option \<times> go_err option"

record 'c connector =
  cn_conn :: "'c option"
  cn_locked :: bool
  cn_opened :: nat

definition connector_start :: "'c connector" where
  "connector_start = \<lparr>cn_conn = None, cn_locked = False, cn_opened = 0\<rparr>"

datatype 'c conn_pc =
    CnCheck | CnLock | CnRecheck | CnOpen | CnUnlock "go_err + 'c" | CnEnd "go_err + 'c"

text \<open>\<open>WithContext\<close> on a nil handle is a nil dereference.\<close>

definition opened :: "'c option \<times> go_err option \<Rightarrow> go_err + 'c" where
  "opened r = (case r of
     (h, Some e) \<Rightarrow> Inl e
   | (Some c, None) \<Rightarrow> Inr c
   | (None, None) \<Rightarrow> Inl (Panic ''nil pointer dereference''))"

fun conn_move :: "'c gorm_open \<Rightarrow> 'c conn_pc \<Rightarrow> 'c connector \<Rightarrow> ('c conn_pc \<times> 'c connector) option" where
  "conn_move opn CnCheck r = Some (case cn_conn r of Some c \<Rightarrow> CnEnd (Inr c) | None \<Rightarrow> CnLock, r)"
| "conn_move opn CnLock r = (if cn_locked r then None else Some (CnRecheck, r\<lparr>cn_locked := True\<rparr>))"
| "conn_move opn CnRecheck r = Some (case cn_conn r of Some c \<Rightarrow> CnUnlock (Inr c) | None \<Rightarrow> CnOpen, r)"
| "conn_move opn CnOpen r =
     Some (CnUnlock (opened (opn (cn_opened r))),
           r\<lparr>cn_conn := fst (opn (cn_opened r)), cn_opened := cn_opened r + 1\<rparr>)"
| "conn_move opn (CnUnlock a) r = Some (CnEnd a, r\<lparr>cn_locked := False\<rparr>)"
| "conn_move opn (CnEnd a) r = None"

text \<open>\<open>getConn\<close> by the only caller, and \<open>mustGetConn\<close>, which panics with the error.\<close>

definition get_conn :: "'c gorm_open \<Rightarrow> 'c connector \<Rightarrow> (go_err + 'c) \<times> 'c connector" where
  "get_conn opn r =
     (case cn_conn r of
        Some c \<Rightarrow> (Inr c, r)
      | None \<Rightarrow> (opened (opn (cn_opened r)),
                 r\<lparr>cn_conn := fst (opn (cn_opened r)), cn_opened := cn_opened r + 1\<rparr>))"

definition must_get_conn :: "'c gorm_open \<Rightarrow> 'c connector \<Rightarrow> (go_err + 'c) \<times> 'c connector" where
  "must_get_conn opn r =
     (case get_conn opn r of
        (Inl e, r') \<Rightarrow> (Inl (Panic ''getConn''), r')
      | (Inr c, r') \<Rightarrow> (Inr c, r'))"

section \<open>The callers\<close>

fun in_conn :: "'c conn_pc \<Rightarrow> bool" where
  "in_conn CnRecheck = True"
| "in_conn CnOpen = True"
| "in_conn (CnUnlock a) = True"
| "in_conn pc = False"

interpretation conns: mutex_callers "conn_move opn" in_conn cn_locked for opn
proof
  fix c r c' r'
  assume move: "conn_move opn c r = Some (c', r')"
  show "\<not> in_conn c \<Longrightarrow> in_conn c' \<Longrightarrow> \<not> cn_locked r"
    using move by (cases c) (auto split: if_splits option.splits)
  show "(in_conn c \<longrightarrow> cn_locked r) \<Longrightarrow>
      cn_locked r' = (if in_conn c = in_conn c' then cn_locked r else in_conn c')"
    using move by (cases c) (auto split: if_splits option.splits)
qed

text \<open>
  When the first attempt answers a handle \<open>h\<close>, with or without an error: there is no second attempt, and the
  callers get the handle, except the one that opened it.
\<close>

fun is_failed :: "'c conn_pc \<Rightarrow> bool" where
  "is_failed (CnUnlock (Inl e)) = True"
| "is_failed (CnEnd (Inl e)) = True"
| "is_failed pc = False"

fun conn_ok :: "'c gorm_open \<Rightarrow> 'c \<Rightarrow> 'c connector \<Rightarrow> 'c conn_pc \<Rightarrow> bool" where
  "conn_ok opn h r CnOpen = (cn_conn r = None)"
| "conn_ok opn h r (CnUnlock a) = (a = Inr h \<or> a = opened (opn 0))"
| "conn_ok opn h r (CnEnd a) = (a = Inr h \<or> a = opened (opn 0))"
| "conn_ok opn h r pc = True"

definition conn_inv :: "'c gorm_open \<Rightarrow> 'c \<Rightarrow> 'c conn_pc list \<Rightarrow> 'c connector \<Rightarrow> bool" where
  "conn_inv opn h cs r \<longleftrightarrow> conns.mutex_inv cs r \<and> list_all (conn_ok opn h r) cs \<and>
     (cn_conn r = None \<and> cn_opened r = 0 \<or> cn_conn r = Some h \<and> cn_opened r = 1) \<and>
     length (filter is_failed cs) \<le> (if cn_opened r = 1 \<and> snd (opn 0) \<noteq> None then 1 else 0)"

lemma conn_outside: "conn_move opn c r = Some (c', r') \<Longrightarrow> \<not> in_conn c \<Longrightarrow> cn_conn r' = cn_conn r"
  by (cases c) (auto split: if_splits option.splits)

lemma conn_ok_other:
  "conn_ok opn h r d \<Longrightarrow> \<not> in_conn d \<or> cn_conn r' = cn_conn r \<Longrightarrow> conn_ok opn h r' d"
  by (cases d) auto

lemma opened_handle: "fst (opn 0) = Some h \<Longrightarrow> opened (opn 0) = (case snd (opn 0) of None \<Rightarrow> Inr h | Some e \<Rightarrow> Inl e)"
  by (cases "opn 0") (auto simp: opened_def split: option.splits)

lemma conn_inv_step:
  assumes op: "fst (opn 0) = Some h"
    and st: "conn_inv opn h cs r" "k < length cs" "conn_move opn (cs ! k) r = Some (c', r')"
  shows "conn_inv opn h (cs[k := c']) r'"
proof -
  have inv: "conns.mutex_inv cs r" and ok: "\<And>j. j < length cs \<Longrightarrow> conn_ok opn h r (cs ! j)"
    and one: "cn_conn r = None \<and> cn_opened r = 0 \<or> cn_conn r = Some h \<and> cn_opened r = 1"
    and failed: "length (filter is_failed cs) \<le> (if cn_opened r = 1 \<and> snd (opn 0) \<noteq> None then 1 else 0)"
    using st(1) by (auto simp: conn_inv_def list_all_length)
  have self: "conn_ok opn h r' c' \<and>
      (cn_conn r' = None \<and> cn_opened r' = 0 \<or> cn_conn r' = Some h \<and> cn_opened r' = 1)"
    using st(3) op ok [OF st(2)] one
    by (cases "cs ! k") (auto split: if_splits option.splits)
  have "conn_ok opn h r' (cs[k := c'] ! j)" if "j < length cs" for j
  proof (cases "j = k")
    case False
    have "conn_ok opn h r' (cs ! j)"
    proof (rule conn_ok_other [OF ok [OF that]])
      show "\<not> in_conn (cs ! j) \<or> cn_conn r' = cn_conn r"
        using conns.alone [OF inv that st(2)] False conn_outside [OF st(3)] by blast
    qed
    with False show ?thesis by simp
  qed (use self st(2) in simp)
  moreover have "length (filter is_failed (cs[k := c'])) \<le>
      (if cn_opened r' = 1 \<and> snd (opn 0) \<noteq> None then 1 else 0)"
  proof -
    have len: "int (length (filter is_failed (cs[k := c']))) = int (length (filter is_failed cs)) -
        (if is_failed (cs ! k) then 1 else 0) + (if is_failed c' then 1 else 0)"
      by (rule length_filter_update [OF st(2)])
    show ?thesis
    proof (cases "cs ! k")
      case CnOpen
      with ok [OF st(2)] one have "cn_conn r = None" "cn_opened r = 0" by auto
      with CnOpen st(3) failed len opened_handle [of opn h, OF op]
      show ?thesis by (auto split: option.splits)
    next
      case (CnUnlock a)
      with st(3) len failed show ?thesis by (cases a) auto
    qed (use st(3) len failed in \<open>auto split: if_splits option.splits\<close>)
  qed
  ultimately show ?thesis
    using self conns.mutex_step [OF inv st(2,3)] by (simp add: conn_inv_def list_all_length)
qed

lemma conn_inv_start: "conn_inv opn h (replicate n CnCheck) connector_start"
  by (simp add: conn_inv_def conns.mutex_inv_def connector_start_def list_all_iff filter_empty_conv)

section \<open>Properties\<close>

text \<open>
  C23. The connection is opened once, but a failed opening is kept as if it had succeeded: when \<open>gorm.Open\<close> answers a
  handle, with or without an error, no interleaving of any number of callers opens it again, at most
  one caller is told an error, and every other caller that returns gets that handle.
\<close>

lemma failed_open_is_kept:
  assumes "fst (opn 0) = Some h" "callers_run (conn_move opn) (replicate n CnCheck, connector_start) (cs, r)"
  shows "cn_opened r \<le> 1 \<and> (\<forall>c. CnEnd (Inr c) \<in> set cs \<longrightarrow> c = h) \<and>
    length (filter is_failed cs) \<le> (if snd (opn 0) = None then 0 else 1)"
proof -
  have inv: "conn_inv opn h cs r"
    by (rule callers_run_inv [where P = "conn_inv opn h", OF assms(2) conn_inv_start conn_inv_step [of opn h, OF assms(1)]])
  then have "c = h" if "CnEnd (Inr c) \<in> set cs" for c
    using that opened_handle [of opn h, OF assms(1)]
    by (auto simp: conn_inv_def list_all_iff split: option.splits)
  moreover have "cn_opened r \<le> 1" "length (filter is_failed cs) \<le> (if snd (opn 0) = None then 0 else 1)"
    using inv by (auto simp: conn_inv_def split: if_splits)
  ultimately show ?thesis by simp
qed

definition demo_open :: "string gorm_open" where
  "demo_open n = (Some ''dead'', Some (DbErr ''connection refused''))"

lemma failed_open_is_kept_witness:
  "\<exists>r. callers_run (conn_move demo_open) ([CnCheck, CnCheck], connector_start)
     ([CnEnd (Inl (DbErr ''connection refused'')), CnEnd (Inr ''dead'')], r) \<and> cn_opened r \<le> 1"
proof -
  let ?cs = "[CnEnd (Inl (DbErr ''connection refused'')), CnEnd (Inr ''dead'')]"
  let ?start = "([CnCheck, CnCheck], connector_start) :: string conn_pc list \<times> string connector"
  have "map_option fst (callers_exec (conn_move demo_open) [1, 0, 0, 0, 0, 0, 1, 1, 1] ?start) = Some ?cs"
    by code_simp
  then obtain r where "callers_exec (conn_move demo_open) [1, 0, 0, 0, 0, 0, 1, 1, 1] ?start = Some (?cs, r)" by auto
  then have run: "callers_run (conn_move demo_open) ?start (?cs, r)" by (rule callers_exec_run)
  then have run2: "callers_run (conn_move demo_open) (replicate 2 CnCheck, connector_start) (?cs, r)"
    by (simp add: numeral_2_eq_2)
  have "fst (demo_open 0) = Some ''dead''" by (simp add: demo_open_def)
  from failed_open_is_kept [of demo_open, OF this run2] run show ?thesis by blast
qed

end
