(* ===== verification/Worker_Pool.thy ===== *)
theory Worker_Pool
  imports Prelude
begin

text \<open>
  The goroutines that the worker engine (\<open>internal/task/worker.go\<close>, \<open>sched.go\<close>) and the registry
  (\<open>internal/registry/registry.go\<close>) have in common: one scheduling loop that fetches items and
  sends them over an unbuffered channel, a pool of workers that receive and process them, a
  flag \<open>isPaused\<close> that the workers read on every tick of their timer, a \<open>sync.WaitGroup\<close> that
  counts the running workers, an unbuffered channel for the exit signal, and the caller of
  \<open>Stop\<close>. Any interleaving of their steps is a run. What differs is a parameter (\<open>pool_env\<close>) that
  \<open>Task_Engine\<close> and \<open>Registry\<close> define from the code: how the loop fetches, at which of its
  states it looks at the exit channel, how a worker begins on an item and goes on, and the order of the
  statements of \<open>Stop\<close>.

  A send on an unbuffered channel and its receipt are one step. A worker whose timer ticks while
  the flag is false goes round its loop and changes nothing, so that step is left out. The
  function that creates the pool starts a worker and then counts it, and the two are two steps:
  the worker engine creates its workers before its loop (\<open>pe_first\<close>), the registry beside it.
\<close>

section \<open>State and steps\<close>

text \<open>\<open>Left\<close>: the goroutine returned without \<open>Done\<close>; \<open>Exited\<close>: it called \<open>Done\<close> and left its loop.\<close>

datatype 'j worker = Ready | Busy 'j | Left | Exited

datatype ('c, 'i) sched_pc = Looping 'c | Sending "'i list" 'c | Ended

datatype stop_op = StorePaused | SendExit | WaitWorkers

text \<open>
  \<open>pe_accept\<close> answers the job a worker begins on an item, \<open>None\<close> when it returns instead.
  \<open>pe_work\<close> is one step of a job; without a next job the worker is back at its select.
\<close>

record ('s, 'c, 'i, 'j) pool_env =
  pe_select :: "'c \<Rightarrow> bool"
  pe_poll :: "'s \<Rightarrow> 'c \<Rightarrow> 'i list \<Rightarrow> 'c \<Rightarrow> 's \<Rightarrow> bool"
  pe_accept :: "'i \<Rightarrow> 'j option"
  pe_work :: "'s \<Rightarrow> 'j \<Rightarrow> 'j option \<Rightarrow> 's \<Rightarrow> bool"
  pe_stop :: "stop_op list"
  pe_first :: bool

text \<open>
  \<open>pl_stop\<close> is what \<open>Stop\<close> still has to do: \<open>None\<close> before the call, \<open>Some []\<close> once it returned. \<open>pl_make\<close> is the
  number of workers still to be started, and \<open>pl_adding\<close> says that the last one is not counted yet.
\<close>

record ('c, 'i, 'j) pool =
  pl_workers :: "'j worker list"
  pl_sched :: "('c, 'i) sched_pc"
  pl_stop :: "stop_op list option"
  pl_paused :: bool
  pl_wait :: int
  pl_make :: nat
  pl_adding :: bool

definition pool_init :: "nat \<Rightarrow> 'c \<Rightarrow> ('c, 'i, 'j) pool" where
  "pool_init n c =
     \<lparr>pl_workers = [], pl_sched = Looping c, pl_stop = None, pl_paused = False, pl_wait = 0,
      pl_make = n, pl_adding = False\<rparr>"

text \<open>All workers are started and counted, and nothing else has happened.\<close>

definition pool_ready :: "nat \<Rightarrow> 'c \<Rightarrow> ('c, 'i, 'j) pool" where
  "pool_ready n c =
     \<lparr>pl_workers = replicate n Ready, pl_sched = Looping c, pl_stop = None, pl_paused = False,
      pl_wait = int n, pl_make = 0, pl_adding = False\<rparr>"

definition created :: "('c, 'i, 'j) pool \<Rightarrow> bool" where
  "created p \<longleftrightarrow> pl_make p = 0 \<and> \<not> pl_adding p"

definition begin_item :: "('s, 'c, 'i, 'j) pool_env \<Rightarrow> 'i \<Rightarrow> 'j worker" where
  "begin_item E x = (case pe_accept E x of None \<Rightarrow> Left | Some j \<Rightarrow> Busy j)"

definition next_worker :: "'j option \<Rightarrow> 'j worker" where
  "next_worker j = (case j of None \<Rightarrow> Ready | Some j' \<Rightarrow> Busy j')"

definition exit_offered :: "('c, 'i, 'j) pool \<Rightarrow> bool" where
  "exit_offered p = (case pl_stop p of Some (SendExit # ops) \<Rightarrow> True | _ \<Rightarrow> False)"

inductive pool_step ::
    "('s, 'c, 'i, 'j) pool_env \<Rightarrow> ('c, 'i, 'j) pool \<times> 's \<Rightarrow> ('c, 'i, 'j) pool \<times> 's \<Rightarrow> bool"
  for E where
  poll: "pl_sched p = Looping c \<Longrightarrow> \<not> (pe_select E c \<and> exit_offered p) \<Longrightarrow>
    pe_poll E s c xs c' s' \<Longrightarrow> pe_first E \<longrightarrow> created p \<Longrightarrow>
    pool_step E (p, s) (p\<lparr>pl_sched := Sending xs c'\<rparr>, s')"
| leave: "pl_sched p = Looping c \<Longrightarrow> pe_select E c \<Longrightarrow> pl_stop p = Some (SendExit # ops) \<Longrightarrow>
    pe_first E \<longrightarrow> created p \<Longrightarrow>
    pool_step E (p, s) (p\<lparr>pl_sched := Ended, pl_stop := Some ops\<rparr>, s)"
| sent: "pl_sched p = Sending [] c \<Longrightarrow> pool_step E (p, s) (p\<lparr>pl_sched := Looping c\<rparr>, s)"
| hand: "pl_sched p = Sending (x # xs) c \<Longrightarrow> k < length (pl_workers p) \<Longrightarrow>
    pl_workers p ! k = Ready \<Longrightarrow>
    pool_step E (p, s)
      (p\<lparr>pl_sched := Sending xs c, pl_workers := (pl_workers p)[k := begin_item E x]\<rparr>, s)"
| work: "k < length (pl_workers p) \<Longrightarrow> pl_workers p ! k = Busy j \<Longrightarrow> pe_work E s j j' s' \<Longrightarrow>
    pool_step E (p, s) (p\<lparr>pl_workers := (pl_workers p)[k := next_worker j']\<rparr>, s')"
| tick: "k < length (pl_workers p) \<Longrightarrow> pl_workers p ! k = Ready \<Longrightarrow> pl_paused p \<Longrightarrow>
    pool_step E (p, s)
      (p\<lparr>pl_workers := (pl_workers p)[k := Exited], pl_wait := pl_wait p - 1\<rparr>, s)"
| call: "pl_stop p = None \<Longrightarrow> pool_step E (p, s) (p\<lparr>pl_stop := Some (pe_stop E)\<rparr>, s)"
| store: "pl_stop p = Some (StorePaused # ops) \<Longrightarrow>
    pool_step E (p, s) (p\<lparr>pl_stop := Some ops, pl_paused := True\<rparr>, s)"
| return: "pl_stop p = Some (WaitWorkers # ops) \<Longrightarrow> pl_wait p = 0 \<Longrightarrow>
    pool_step E (p, s) (p\<lparr>pl_stop := Some ops\<rparr>, s)"
| spawn: "pl_make p = Suc m \<Longrightarrow> \<not> pl_adding p \<Longrightarrow>
    pool_step E (p, s)
      (p\<lparr>pl_workers := pl_workers p @ [Ready], pl_make := m, pl_adding := True\<rparr>, s)"
| count: "pl_adding p \<Longrightarrow>
    pool_step E (p, s) (p\<lparr>pl_wait := pl_wait p + 1, pl_adding := False\<rparr>, s)"

inductive_cases pool_stepE: "pool_step E ps qt"

definition pool_run ::
    "('s, 'c, 'i, 'j) pool_env \<Rightarrow> ('c, 'i, 'j) pool \<times> 's \<Rightarrow> ('c, 'i, 'j) pool \<times> 's \<Rightarrow> bool" where
  "pool_run E = (pool_step E)\<^sup>*\<^sup>*"

lemma pool_run_refl [intro]: "pool_run E ps ps"
  by (simp add: pool_run_def)

lemma pool_step_1: "pool_step E ps qs \<Longrightarrow> pool_run E ps qs"
  by (simp add: pool_run_def)

lemma pool_run_step: "pool_run E ps qs \<Longrightarrow> pool_step E qs rs \<Longrightarrow> pool_run E ps rs"
  unfolding pool_run_def by (rule rtranclp.rtrancl_into_rtrancl)

lemma pool_step_run: "pool_step E ps qs \<Longrightarrow> pool_run E qs rs \<Longrightarrow> pool_run E ps rs"
  unfolding pool_run_def by (rule converse_rtranclp_into_rtranclp)

lemma pool_run_trans: "pool_run E ps qs \<Longrightarrow> pool_run E qs rs \<Longrightarrow> pool_run E ps rs"
  unfolding pool_run_def by (rule rtranclp_trans)

text \<open>
  The pool among others: between two of its steps other goroutines, nodes or requests may change
  the state it works on in any way.
\<close>

inductive pool_reach ::
    "('s, 'c, 'i, 'j) pool_env \<Rightarrow> ('c, 'i, 'j) pool \<Rightarrow> ('c, 'i, 'j) pool \<Rightarrow> bool" for E p where
  here: "pool_reach E p p"
| move: "pool_reach E p q \<Longrightarrow> pool_step E (q, s) (r, t) \<Longrightarrow> pool_reach E p r"

lemma pool_reach_run:
  assumes "pool_reach E p q" "pool_run E (q, s) (r, t)"
  shows "pool_reach E p r"
  using assms(2,1) unfolding pool_run_def
proof (induction rule: rtranclp_induct2)
  case (step r t r' t')
  show ?case by (rule pool_reach.move [OF step.IH [OF step.prems] step.hyps(2)])
qed

lemma pool_run_reach: "pool_run E (p, s) (q, t) \<Longrightarrow> pool_reach E p q"
  by (rule pool_reach_run [OF pool_reach.here])

lemma pool_reach_trans:
  assumes "pool_reach E p q" "pool_reach E q r"
  shows "pool_reach E p r"
  using assms(2,1) by (induction) (auto intro: pool_reach.move)

text \<open>The rule by which a predicate of the local part is an invariant.\<close>

lemma pool_reach_inv:
  assumes "pool_reach E p q" "P p"
    and "\<And>p s q t. pool_step E (p, s) (q, t) \<Longrightarrow> P p \<Longrightarrow> P q"
  shows "P q"
  using assms(1,2)
proof (induction)
  case (move q s r t)
  from assms(3) [OF move.hyps(2) move.IH [OF move.prems]] show ?case .
qed

lemma create_all:
  fixes E :: "('s, 'c, 'i, 'j) pool_env"
  shows "pool_run E (pool_init n c, s) (pool_ready n c, s)"
proof -
  let ?p = "\<lambda>k. (pool_ready k c :: ('c, 'i, 'j) pool)\<lparr>pl_make := n - k\<rparr>"
  have "k \<le> n \<Longrightarrow> pool_run E (?p 0, s) (?p k, s)" for k
  proof (induction k)
    case (Suc k)
    let ?q = "(?p k)\<lparr>pl_workers := replicate k Ready @ [Ready], pl_make := n - Suc k, pl_adding := True\<rparr>"
    have "pool_step E (?p k, s) (?q, s)"
      using pool_step.spawn [of "?p k" "n - Suc k" E s] Suc.prems by (simp add: pool_ready_def Suc_diff_Suc)
    moreover have "pool_step E (?q, s) (?q\<lparr>pl_wait := pl_wait ?q + 1, pl_adding := False\<rparr>, s)"
      using pool_step.count [of ?q E s] by simp
    moreover have "?q\<lparr>pl_wait := pl_wait ?q + 1, pl_adding := False\<rparr> = ?p (Suc k)"
      by (simp add: pool_ready_def replicate_append_same)
    ultimately show ?case using Suc by (auto intro: pool_run_step)
  qed (simp add: pool_run_refl)
  from this [of n] show ?thesis by (simp add: pool_init_def pool_ready_def)
qed

section \<open>The wait group\<close>

definition live_workers :: "('c, 'i, 'j) pool \<Rightarrow> nat" where
  "live_workers p = length (filter (\<lambda>w. w \<noteq> Exited) (pl_workers p))"

lemma begin_item_not [simp]: "begin_item E x \<noteq> Exited" "begin_item E x \<noteq> Ready"
  by (simp_all add: begin_item_def split: option.splits)

lemma next_worker_not [simp]: "next_worker j \<noteq> Exited" "next_worker j \<noteq> Left"
  by (simp_all add: next_worker_def split: option.splits)

lemmas worker_neqs [simp] = begin_item_not [THEN not_sym] next_worker_not [THEN not_sym]

definition wait_inv :: "('c, 'i, 'j) pool \<Rightarrow> bool" where
  "wait_inv p \<longleftrightarrow> pl_wait p + of_bool (pl_adding p) = int (live_workers p)"

lemma wait_inv_init: "wait_inv (pool_init n c)" "wait_inv (pool_ready n c)"
  by (simp_all add: wait_inv_def live_workers_def pool_init_def pool_ready_def)

lemma wait_inv_step: "pool_step E (p, s) (q, t) \<Longrightarrow> wait_inv p \<Longrightarrow> wait_inv q"
  by (erule pool_stepE) (auto simp: wait_inv_def live_workers_def length_filter_update)

lemma all_exited: "live_workers p = 0 \<longleftrightarrow> list_all (\<lambda>w. w = Exited) (pl_workers p)"
  by (auto simp: live_workers_def list_all_iff filter_empty_conv)

section \<open>Stopping\<close>

definition engine_stop :: "stop_op list" where
  "engine_stop = [SendExit, StorePaused, WaitWorkers]"

definition registry_stop :: "stop_op list" where
  "registry_stop = [StorePaused, SendExit, WaitWorkers]"

definition stop_prog :: "('s, 'c, 'i, 'j) pool_env \<Rightarrow> bool" where
  "stop_prog E \<longleftrightarrow> distinct (pe_stop E) \<and> set (pe_stop E) = {StorePaused, SendExit, WaitWorkers} \<and>
     last (pe_stop E) = WaitWorkers"

lemma stop_progs: "pe_stop E = engine_stop \<Longrightarrow> stop_prog E" "pe_stop E = registry_stop \<Longrightarrow> stop_prog E"
  by (auto simp: stop_prog_def engine_stop_def registry_stop_def)

definition stop_did :: "('c, 'i, 'j) pool \<Rightarrow> stop_op \<Rightarrow> bool" where
  "stop_did p op \<longleftrightarrow> (\<exists>ops. pl_stop p = Some ops \<and> op \<notin> set ops)"

text \<open>What the statements of \<open>Stop\<close> that were executed leave behind.\<close>

definition stop_inv :: "('s, 'c, 'i, 'j) pool_env \<Rightarrow> ('c, 'i, 'j) pool \<Rightarrow> bool" where
  "stop_inv E p \<longleftrightarrow>
     (\<forall>ops. pl_stop p = Some ops \<longrightarrow> (\<exists>pre. pre @ ops = pe_stop E)) \<and>
     (pl_sched p = Ended \<longleftrightarrow> stop_did p SendExit) \<and>
     (pl_paused p \<longleftrightarrow> stop_did p StorePaused)"

lemma stop_inv_init: "stop_inv E (pool_init n c)" "stop_inv E (pool_ready n c)"
  by (simp_all add: stop_inv_def stop_did_def pool_init_def pool_ready_def)

lemma stop_did_next:
  assumes "stop_prog E" "pre @ op # ops = pe_stop E"
    and "pl_stop p = Some (op # ops)" "pl_stop q = Some ops"
  shows "stop_did q op' \<longleftrightarrow> op' = op \<or> stop_did p op'"
proof -
  have "op \<notin> set ops" using assms(1,2) by (metis distinct_append distinct.simps(2) stop_prog_def)
  with assms(3,4) show ?thesis by (auto simp: stop_did_def)
qed

lemma live_update:
  assumes "k < length (pl_workers p)" "pl_workers p ! k \<noteq> Exited" "w \<noteq> Exited"
    and "pl_workers q = (pl_workers p)[k := w]"
  shows "live_workers q = live_workers p"
proof -
  have "int (live_workers q) = int (live_workers p)"
    using length_filter_update [OF assms(1), of "\<lambda>w. w \<noteq> Exited" w] assms(2-4)
    by (simp add: live_workers_def)
  then show ?thesis by simp
qed

lemma live_pos: "k < length (pl_workers p) \<Longrightarrow> pl_workers p ! k \<noteq> Exited \<Longrightarrow> 0 < live_workers p"
  using length_filter_pos [of "pl_workers p ! k" "pl_workers p" "\<lambda>w. w \<noteq> Exited"]
  by (simp add: live_workers_def)

lemma stop_did_same: "pl_stop q = pl_stop p \<Longrightarrow> stop_did q op = stop_did p op"
  by (simp add: stop_did_def)

lemma stop_inv_op:
  assumes "stop_prog E" "stop_inv E p" "pl_stop p = Some (op # ops)" "pl_stop q = Some ops"
    and "pl_sched q = Ended \<longleftrightarrow> op = SendExit \<or> pl_sched p = Ended"
    and "pl_paused q \<longleftrightarrow> op = StorePaused \<or> pl_paused p"
  shows "stop_inv E q"
proof -
  obtain pre where pre: "pre @ op # ops = pe_stop E" using assms(2,3) by (auto simp: stop_inv_def)
  note did = stop_did_next [OF assms(1) pre assms(3,4)]
  have "\<exists>pre. pre @ ops = pe_stop E" using pre by (intro exI [of _ "pre @ [op]"]) simp
  with assms(2,4-6) did show ?thesis by (auto simp: stop_inv_def)
qed

lemma stop_inv_same:
  "stop_inv E p \<Longrightarrow> pl_stop q = pl_stop p \<Longrightarrow> pl_paused q = pl_paused p \<Longrightarrow>
     (pl_sched q = Ended \<longleftrightarrow> pl_sched p = Ended) \<Longrightarrow> stop_inv E q"
  by (simp add: stop_inv_def stop_did_def)

lemma stop_inv_step:
  assumes "pool_step E (p, s) (q, t)" "stop_prog E" "stop_inv E p"
  shows "stop_inv E q"
  using assms(1)
proof (cases rule: pool_step.cases)
  case (leave c ops)
  with stop_inv_op [OF assms(2,3) leave(5), of q] show ?thesis by simp
next
  case call
  have "\<not> stop_did p op" for op using call by (simp add: stop_did_def)
  moreover have "\<not> stop_did q op" for op
    using call assms(2) by (cases op) (auto simp: stop_did_def stop_prog_def)
  ultimately show ?thesis using call assms(3) by (auto simp: stop_inv_def)
next
  case (store ops)
  with stop_inv_op [OF assms(2,3) store(3), of q] show ?thesis by simp
next
  case (return ops)
  with stop_inv_op [OF assms(2,3) return(3), of q] show ?thesis by simp
qed (use stop_inv_same [OF assms(3), of q] in simp_all)

text \<open>
  The pool is created before its loop runs, or all of it was there before \<open>Stop\<close> was called; then \<open>Wait\<close> sees
  every worker.
\<close>

definition rest_inv :: "('s, 'c, 'i, 'j) pool_env \<Rightarrow> ('c, 'i, 'j) pool \<Rightarrow> bool" where
  "rest_inv E p \<longleftrightarrow>
     (pe_first E \<or> created p) \<and> (created p \<or> (\<exists>c. pl_sched p = Looping c)) \<and>
     (stop_did p WaitWorkers \<longrightarrow> created p \<and> live_workers p = 0)"

definition pool_start :: "('s, 'c, 'i, 'j) pool_env \<Rightarrow> nat \<Rightarrow> 'c \<Rightarrow> ('c, 'i, 'j) pool \<Rightarrow> bool" where
  "pool_start E n c p \<longleftrightarrow> pool_reach E (pool_init n c) p \<and>
     (pe_first E \<and> p = pool_init n c \<or> created p \<and> pl_stop p = None)"

lemma pool_starts [intro]:
  "pe_first E \<Longrightarrow> pool_start E n c (pool_init n c)" "pool_start E n c (pool_ready n c)"
  using pool_run_reach [OF create_all]
  by (auto simp: pool_start_def created_def pool_ready_def intro: pool_reach.here)

lemma rest_inv_start: "pool_start E n c p \<Longrightarrow> rest_inv E p"
  by (auto simp: pool_start_def rest_inv_def created_def pool_init_def stop_did_def)

text \<open>Before \<open>Stop\<close> is called nothing of it has happened.\<close>

lemma stop_inv_uncalled:
  assumes "pool_reach E (pool_init n c) p" "pl_stop p = None"
  shows "stop_inv E p"
proof -
  have "pl_stop p = None \<longrightarrow> pl_sched p \<noteq> Ended \<and> \<not> pl_paused p"
    by (rule pool_reach_inv [OF assms(1)]) (auto simp: pool_init_def elim!: pool_stepE)
  with assms(2) show ?thesis by (simp add: stop_inv_def stop_did_def)
qed

lemma rest_inv_same:
  assumes "rest_inv E p" "pl_make q = pl_make p" "pl_adding q = pl_adding p" "stop_did q WaitWorkers = stop_did p WaitWorkers"
    and "live_workers p = 0 \<Longrightarrow> live_workers q = 0" "created p \<or> pl_sched q = pl_sched p"
  shows "rest_inv E q"
  using assms by (auto simp: rest_inv_def created_def)

lemma rest_inv_step:
  assumes "pool_step E (p, s) (q, t)" "stop_prog E" "wait_inv p" "stop_inv E p" "rest_inv E p"
  shows "rest_inv E q"
  using assms(1)
proof (cases rule: pool_step.cases)
  case (poll c xs c')
  then have "created p" using assms(5) by (auto simp: rest_inv_def)
  with poll rest_inv_same [OF assms(5), of q] show ?thesis by (simp add: stop_did_def live_workers_def)
next
  case (leave c ops)
  then have made: "created p" using assms(5) by (auto simp: rest_inv_def)
  obtain pre where "pre @ SendExit # ops = pe_stop E" using assms(4) leave(5) by (auto simp: stop_inv_def)
  from stop_did_next [OF assms(2) this leave(5), of q WaitWorkers] leave(1)
  have "stop_did q WaitWorkers = stop_did p WaitWorkers" by simp
  with leave made rest_inv_same [OF assms(5), of q] show ?thesis by (simp add: live_workers_def)
next
  case (sent c)
  then have "created p" using assms(5) by (auto simp: rest_inv_def)
  with sent rest_inv_same [OF assms(5), of q] show ?thesis by (simp add: stop_did_def live_workers_def)
next
  case (hand x xs c k)
  then have made: "created p" using assms(5) by (auto simp: rest_inv_def)
  from live_update [OF hand(4), of "begin_item E x" q] hand have "live_workers q = live_workers p" by simp
  with hand made rest_inv_same [OF assms(5), of q] show ?thesis by (simp add: stop_did_def)
next
  case (work k j j')
  from live_update [OF work(2), of "next_worker j'" q] work have "live_workers q = live_workers p" by simp
  with work rest_inv_same [OF assms(5), of q] show ?thesis by (simp add: stop_did_def)
next
  case (tick k)
  from live_pos [OF tick(3)] tick have "live_workers p \<noteq> 0" by simp
  with tick rest_inv_same [OF assms(5), of q] show ?thesis by (simp add: stop_did_def)
next
  case call
  then have "\<not> stop_did q WaitWorkers" "\<not> stop_did p WaitWorkers"
    using assms(2) by (auto simp: stop_did_def stop_prog_def)
  with call rest_inv_same [OF assms(5), of q] show ?thesis by (simp add: live_workers_def)
next
  case (store ops)
  obtain pre where "pre @ StorePaused # ops = pe_stop E" using assms(4) store(3) by (auto simp: stop_inv_def)
  from stop_did_next [OF assms(2) this store(3), of q WaitWorkers] store(1)
  have "stop_did q WaitWorkers = stop_did p WaitWorkers" by simp
  with store rest_inv_same [OF assms(5), of q] show ?thesis by (simp add: live_workers_def)
next
  case (return ops)
  show ?thesis
  proof (cases "created p")
    case True
    with return assms(3) have "live_workers q = 0" by (simp add: wait_inv_def created_def live_workers_def)
    with True return assms(5) show ?thesis by (auto simp: rest_inv_def created_def)
  next
    case False
    obtain pre where pre: "pre @ WaitWorkers # ops = pe_stop E" using assms(4) return(3) by (auto simp: stop_inv_def)
    have "ops = []"
    proof (rule ccontr)
      assume "ops \<noteq> []"
      then have "last (pe_stop E) \<in> set ops" by (simp add: pre [symmetric])
      with assms(2) show False by (simp add: stop_prog_def pre [symmetric])
    qed
    then have "stop_did p SendExit" using return(3) by (simp add: stop_did_def)
    with False assms(4,5) show ?thesis by (auto simp: rest_inv_def stop_inv_def)
  qed
next
  case (spawn m)
  then have "\<not> created p" by (simp add: created_def)
  with spawn assms(5) show ?thesis by (auto simp: rest_inv_def stop_did_def)
next
  case count
  then have "\<not> created p" by (simp add: created_def)
  with count assms(5) show ?thesis by (auto simp: rest_inv_def stop_did_def)
qed

lemma pool_reach_wait: "pool_reach E p0 p \<Longrightarrow> wait_inv p0 \<Longrightarrow> wait_inv p"
  by (erule pool_reach_inv) (auto intro: wait_inv_step)

lemma pool_start_inv: "pool_start E n c p \<Longrightarrow> wait_inv p \<and> stop_inv E p"
  using wait_inv_init(1) [of n c]
  by (auto simp: pool_start_def stop_inv_init stop_inv_uncalled elim: pool_reach_wait)

lemma pool_reach_stop:
  assumes "stop_prog E" "pool_reach E p0 p" "stop_inv E p0"
  shows "stop_inv E p"
  by (rule pool_reach_inv [where P = "stop_inv E", OF assms(2,3) stop_inv_step [OF _ assms(1)]])

lemma pool_reach_rest:
  assumes "stop_prog E" "pool_reach E p0 p" "pool_start E n c p0"
  shows "wait_inv p \<and> stop_inv E p \<and> rest_inv E p"
  by (rule pool_reach_inv [OF assms(2)])
    (use pool_start_inv [OF assms(3)] rest_inv_start [OF assms(3)] in
      \<open>auto intro: wait_inv_step stop_inv_step [OF _ assms(1)] rest_inv_step [OF _ assms(1)]\<close>)

lemma stop_returned:
  assumes "stop_prog E" "pool_reach E p0 p" "pool_start E n c p0" "pl_stop p = Some []"
  shows "list_all (\<lambda>w. w = Exited) (pl_workers p) \<and> pl_sched p = Ended \<and> created p"
  using pool_reach_rest [OF assms(1-3)] assms(4)
  by (simp add: rest_inv_def stop_inv_def stop_did_def all_exited)

definition pool_at :: "('s, 'c, 'i, 'j) pool_env \<Rightarrow> nat \<Rightarrow> 'c \<Rightarrow> ('c, 'i, 'j) pool \<Rightarrow> bool" where
  "pool_at E n c p \<longleftrightarrow> (\<exists>p0. pool_start E n c p0 \<and> pool_reach E p0 p)"

lemma pool_at_run: "pool_at E n c p \<Longrightarrow> pool_run E (p, s) (q, t) \<Longrightarrow> pool_at E n c q"
  by (auto simp: pool_at_def intro: pool_reach_run)

lemma pool_at_step: "pool_at E n c p \<Longrightarrow> pool_step E (p, s) (q, t) \<Longrightarrow> pool_at E n c q"
  by (rule pool_at_run [OF _ pool_step_1])

lemma pool_atI: "pool_start E n c p0 \<Longrightarrow> pool_reach E p0 p \<Longrightarrow> pool_at E n c p"
  by (auto simp: pool_at_def)

lemma pool_at_stop: "stop_prog E \<Longrightarrow> pool_at E n c p \<Longrightarrow> stop_inv E p"
  unfolding pool_at_def by (blast dest: pool_reach_rest)

lemma pool_at_wait: "pool_at E n c p \<Longrightarrow> wait_inv p"
  by (auto simp: pool_at_def dest!: pool_start_inv elim: pool_reach_wait)

text \<open>After \<open>Stop\<close> has returned nothing moves.\<close>

lemma stopped_at_rest:
  assumes "stop_prog E" "pool_reach E p0 p" "pool_start E n c p0" "pl_stop p = Some []"
  shows "(\<forall>w \<in> set (pl_workers p). w = Exited) \<and> pl_sched p = Ended \<and> \<not> pool_step E (p, t) qu"
proof -
  note rest = stop_returned [OF assms]
  then have "pl_workers p ! k = Exited" if "k < length (pl_workers p)" for k
    using that by (simp add: list_all_length)
  with rest assms(4) have "\<not> pool_step E (p, t) qu" by (auto simp: created_def elim!: pool_stepE)
  with rest show ?thesis by (simp add: list_all_iff)
qed

text \<open>A worker that left without \<open>Done\<close> stays, so \<open>Stop\<close> never returns.\<close>

lemma set_update_keep: "x \<in> set xs \<Longrightarrow> k < length xs \<Longrightarrow> xs ! k \<noteq> x \<Longrightarrow> x \<in> set (xs[k := y])"
  by (induction xs arbitrary: k) (auto simp: nth_Cons split: nat.splits)

lemma left_stays: "pool_step E (p, s) (q, t) \<Longrightarrow> Left \<in> set (pl_workers p) \<Longrightarrow> Left \<in> set (pl_workers q)"
  by (erule pool_stepE) (auto intro: set_update_keep)

lemma left_blocks_stop:
  assumes "stop_prog E" "pool_reach E p0 p" "pool_start E n c p0" "Left \<in> set (pl_workers p)"
    and "pool_reach E p q"
  shows "pl_stop q \<noteq> Some []"
proof
  assume "pl_stop q = Some []"
  from stop_returned [OF assms(1) pool_reach_trans [OF assms(2,5)] assms(3) this]
  have "list_all (\<lambda>w. w = Exited) (pl_workers q)" ..
  moreover have "Left \<in> set (pl_workers q)"
    by (rule pool_reach_inv [where P = "\<lambda>p. Left \<in> set (pl_workers p)", OF assms(5,4) left_stays])
  ultimately show False by (auto simp: list_all_iff)
qed

section \<open>Stop can complete\<close>

inductive job_ends :: "('s, 'c, 'i, 'j) pool_env \<Rightarrow> 's \<Rightarrow> 'j \<Rightarrow> 's \<Rightarrow> bool" for E where
  last: "pe_work E s j None s' \<Longrightarrow> job_ends E s j s'"
| more: "pe_work E s j (Some j') s1 \<Longrightarrow> job_ends E s1 j' s' \<Longrightarrow> job_ends E s j s'"

definition jobs_end :: "('s, 'c, 'i, 'j) pool_env \<Rightarrow> bool" where
  "jobs_end E \<longleftrightarrow> (\<forall>s j. \<exists>s'. job_ends E s j s')"

text \<open>Every worker still serves, and the items the loop is sending will be accepted.\<close>

definition no_leak :: "('s, 'c, 'i, 'j) pool_env \<Rightarrow> ('c, 'i, 'j) pool \<Rightarrow> bool" where
  "no_leak E p \<longleftrightarrow> Left \<notin> set (pl_workers p) \<and>
     (\<forall>xs c. pl_sched p = Sending xs c \<longrightarrow> (\<forall>x \<in> set xs. pe_accept E x \<noteq> None))"

lemma run_job:
  assumes "job_ends E s j s'" "k < length (pl_workers p)" "pl_workers p ! k = Busy j"
  shows "pool_run E (p, s) (p\<lparr>pl_workers := (pl_workers p)[k := Ready]\<rparr>, s')"
  using assms
proof (induction arbitrary: p rule: job_ends.induct)
  case (last s j s')
  from pool_step.work [OF last(2,3,1)] show ?case
    by (simp add: next_worker_def pool_step_1)
next
  case (more s j j' s1 s')
  let ?q = "p\<lparr>pl_workers := (pl_workers p)[k := Busy j']\<rparr>"
  from pool_step.work [OF more.prems more(1)] have "pool_step E (p, s) (?q, s1)"
    by (simp add: next_worker_def)
  moreover have "pool_run E (?q, s1) (?q\<lparr>pl_workers := (pl_workers ?q)[k := Ready]\<rparr>, s')"
    by (rule more.IH) (use more.prems in simp_all)
  ultimately show ?case using pool_step_run by fastforce
qed

definition is_busy :: "'j worker \<Rightarrow> bool" where
  "is_busy w = (case w of Busy j \<Rightarrow> True | _ \<Rightarrow> False)"

definition rested :: "'j worker \<Rightarrow> 'j worker" where
  "rested w = (if is_busy w then Ready else w)"

lemma rested_simps [simp]:
  "rested Ready = Ready" "rested (Busy j) = Ready" "rested Left = Left" "rested Exited = Exited"
  by (simp_all add: rested_def is_busy_def)

lemma is_busyE: "is_busy w \<Longrightarrow> \<exists>j. w = Busy j"
  by (cases w) (simp_all add: is_busy_def)

lemma drain:
  assumes "jobs_end E"
  shows "\<exists>s'. pool_run E (p, s) (p\<lparr>pl_workers := map rested (pl_workers p)\<rparr>, s')"
proof (induction "length (filter is_busy (pl_workers p))" arbitrary: p s)
  case 0
  then have "map rested (pl_workers p) = pl_workers p"
    by (intro map_idI) (auto simp: rested_def filter_empty_conv)
  then show ?case by (intro exI [of _ s]) (simp add: pool_run_refl)
next
  case (Suc n)
  then have "filter is_busy (pl_workers p) \<noteq> []" by auto
  then obtain w where "w \<in> set (pl_workers p)" "is_busy w" by (auto simp: filter_empty_conv)
  then obtain k j where k: "k < length (pl_workers p)" "pl_workers p ! k = Busy j"
    by (metis in_set_conv_nth is_busyE)
  obtain s1 where "job_ends E s j s1" using assms by (auto simp: jobs_end_def)
  note r1 = run_job [OF this k]
  let ?q = "p\<lparr>pl_workers := (pl_workers p)[k := Ready]\<rparr>"
  have "n = length (filter is_busy (pl_workers ?q))"
    using length_filter_update [OF k(1), of is_busy Ready] Suc(2) k(2) by (simp add: is_busy_def)
  from Suc(1) [OF this] obtain s2 where
    "pool_run E (?q, s1) (?q\<lparr>pl_workers := map rested (pl_workers ?q)\<rparr>, s2)" by blast
  moreover have "map rested ((pl_workers p)[k := Ready]) = map rested (pl_workers p)"
    using k by (simp add: map_update) (metis length_map list_update_id nth_map rested_simps(2))
  ultimately show ?case using pool_run_trans [OF r1] by fastforce
qed

lemma send_all:
  assumes "jobs_end E" "0 < n"
  shows "pl_sched p = Sending xs c \<Longrightarrow> \<forall>x \<in> set xs. pe_accept E x \<noteq> None \<Longrightarrow>
    pl_workers p = replicate n Ready \<Longrightarrow> \<exists>s'. pool_run E (p, s) (p\<lparr>pl_sched := Looping c\<rparr>, s')"
proof (induction xs arbitrary: p s)
  case Nil
  show ?case by (intro exI) (rule pool_step_1 [OF pool_step.sent [OF Nil(1)]])
next
  case (Cons x xs)
  obtain j where j: "pe_accept E x = Some j" using Cons.prems(2) by auto
  let ?q = "p\<lparr>pl_sched := Sending xs c, pl_workers := (pl_workers p)[0 := Busy j]\<rparr>"
  let ?r = "p\<lparr>pl_sched := Sending xs c\<rparr>"
  have s1: "pool_step E (p, s) (?q, s)"
    using pool_step.hand [OF Cons.prems(1), of 0 E s] Cons.prems(3) assms(2) j by (simp add: begin_item_def)
  obtain s1 where "job_ends E s j s1" using assms(1) by (auto simp: jobs_end_def)
  from run_job [OF this, of 0 ?q] Cons.prems(3) assms(2)
  have "pool_run E (?q, s) (?q\<lparr>pl_workers := (pl_workers p)[0 := Ready]\<rparr>, s1)" by simp
  moreover have "(pl_workers p)[0 := Ready] = pl_workers p"
    using Cons.prems(3) assms(2) by (cases n) simp_all
  ultimately have r2: "pool_run E (?q, s) (?r, s1)" by simp
  obtain s2 where "pool_run E (?r, s1) (?r\<lparr>pl_sched := Looping c\<rparr>, s2)"
    using Cons.IH [of ?r s1] Cons.prems(2,3) by auto
  with pool_step_run [OF s1 pool_run_trans [OF r2]] show ?case by fastforce
qed

lemma tick_all:
  assumes "pl_paused p" "list_all (\<lambda>w. w \<in> {Ready, Exited}) (pl_workers p)"
  shows "\<exists>i. pool_run E (p, s)
    (p\<lparr>pl_workers := replicate (length (pl_workers p)) Exited, pl_wait := i\<rparr>, s)"
  using assms
proof (induction "length (filter (\<lambda>w. w = Ready) (pl_workers p))" arbitrary: p)
  case 0
  then have "replicate (length (pl_workers p)) Exited = pl_workers p"
    by (intro replicate_eqI [symmetric]) (auto simp: filter_empty_conv list_all_iff)
  then show ?case by (intro exI [of _ "pl_wait p"]) (simp add: pool_run_refl)
next
  case (Suc n)
  then have "filter (\<lambda>w. w = Ready) (pl_workers p) \<noteq> []" by auto
  then obtain k where k: "k < length (pl_workers p)" "pl_workers p ! k = Ready"
    by (auto simp: filter_empty_conv in_set_conv_nth)
  let ?q = "p\<lparr>pl_workers := (pl_workers p)[k := Exited], pl_wait := pl_wait p - 1\<rparr>"
  have step: "pool_step E (p, s) (?q, s)" by (rule pool_step.tick [OF k Suc(3)])
  have "n = length (filter (\<lambda>w. w = Ready) (pl_workers ?q))"
    using length_filter_update [OF k(1), of "\<lambda>w. w = Ready" Exited] Suc(2) k(2) by simp
  moreover have "list_all (\<lambda>w. w \<in> {Ready, Exited}) (pl_workers ?q)"
    using Suc(4) by (auto simp: list_all_iff dest!: set_update_subset_insert [THEN subsetD])
  ultimately obtain i where i: "pool_run E (?q, s)
      (?q\<lparr>pl_workers := replicate (length (pl_workers ?q)) Exited, pl_wait := i\<rparr>, s)"
    using Suc(1) [of ?q] Suc(3) by auto
  then have "pool_run E (?q, s)
      (p\<lparr>pl_workers := replicate (length (pl_workers p)) Exited, pl_wait := i\<rparr>, s)" by simp
  from pool_step_run [OF step this] show ?case ..
qed

definition tick_inv :: "('c, 'i, 'j) pool \<Rightarrow> bool" where
  "tick_inv p \<longleftrightarrow> (Exited \<in> set (pl_workers p) \<longrightarrow> pl_paused p)"

lemma tick_inv_step: "pool_step E (p, s) (q, t) \<Longrightarrow> tick_inv p \<Longrightarrow> tick_inv q"
  by (erule pool_stepE) (auto simp: tick_inv_def dest!: set_updateD)

lemma length_inv_step:
  "pool_step E (p, s) (q, t) \<Longrightarrow> length (pl_workers p) + pl_make p = n \<Longrightarrow>
     length (pl_workers q) + pl_make q = n"
  by (erule pool_stepE) simp_all

lemma pool_at_shape:
  assumes "pool_at E n c p"
  shows "length (pl_workers p) + pl_make p = n" "tick_inv p"
proof -
  have run: "pool_reach E (pool_init n c) p"
    using assms by (auto simp: pool_at_def pool_start_def intro: pool_reach_trans)
  show "length (pl_workers p) + pl_make p = n"
    by (rule pool_reach_inv [OF run]) (auto simp: pool_init_def dest: length_inv_step)
  show "tick_inv p"
    by (rule pool_reach_inv [OF run]) (auto simp: tick_inv_def pool_init_def dest: tick_inv_step)
qed

text \<open>The pool can always be created to the end.\<close>

lemma finish_creation:
  "\<exists>q. pool_run E (p, s) (q, s) \<and> created q \<and> pl_sched q = pl_sched p \<and> pl_stop q = pl_stop p \<and>
     pl_paused q = pl_paused p \<and> set (pl_workers q) \<subseteq> insert Ready (set (pl_workers p))"
proof (induction "pl_make p" arbitrary: p)
  case 0
  show ?case
  proof (cases "pl_adding p")
    case True
    from pool_step_1 [OF pool_step.count [OF True]] 0 show ?thesis
      by (intro exI [of _ "p\<lparr>pl_wait := pl_wait p + 1, pl_adding := False\<rparr>"]) (auto simp: created_def)
  qed (use 0 in \<open>auto simp: created_def intro!: exI [of _ p] pool_run_refl\<close>)
next
  case (Suc m)
  let ?a = "p\<lparr>pl_wait := pl_wait p + of_bool (pl_adding p), pl_adding := False\<rparr>"
  let ?b = "?a\<lparr>pl_workers := pl_workers p @ [Ready], pl_make := m, pl_adding := True\<rparr>"
  have a: "pool_run E (p, s) (?a, s)"
  proof (cases "pl_adding p")
    case True
    with pool_step_1 [OF pool_step.count [OF True], of E s] show ?thesis by simp
  next
    case False
    then have "?a = p" by simp
    then show ?thesis by (simp only: pool_run_refl)
  qed
  have b: "pool_step E (?a, s) (?b, s)" using pool_step.spawn [of ?a m E s] Suc(2) by simp
  from Suc(1) [of ?b] obtain q where q: "pool_run E (?b, s) (q, s)" "created q" "pl_sched q = pl_sched p"
    "pl_stop q = pl_stop p" "pl_paused q = pl_paused p" "set (pl_workers q) \<subseteq> insert Ready (set (pl_workers p))"
    by auto
  from pool_run_trans [OF pool_run_step [OF a b] q(1)] q show ?case by blast
qed

text \<open>Before the flag is set every worker can go back to its select.\<close>

lemma rest_before_pause:
  assumes "jobs_end E" "no_leak E p" "pool_at E n c p" "created p" "\<not> pl_paused p"
  shows "\<exists>u. pool_run E (p, t) (p\<lparr>pl_workers := replicate n Ready\<rparr>, u)"
proof -
  note run = pool_at_shape [OF assms(3)]
  have "rested w = Ready" if "w \<in> set (pl_workers p)" for w
    by (cases w) (use that run(2) assms(2,5) in \<open>auto simp: tick_inv_def no_leak_def\<close>)
  then have "map rested (pl_workers p) = replicate n Ready"
    using run(1) assms(4) by (intro replicate_eqI) (auto simp: created_def)
  with drain [OF assms(1), of p t] show ?thesis by simp
qed

lemma finish_stop:
  assumes "jobs_end E" "Left \<notin> set (pl_workers p)" "pool_at E n c p" "pl_paused p"
    and "pl_stop p = Some [WaitWorkers]" "created p"
  shows "\<exists>q u. pool_run E (p, t) (q, u) \<and> pl_stop q = Some []"
proof -
  let ?p1 = "p\<lparr>pl_workers := map rested (pl_workers p)\<rparr>"
  obtain t1 where r1: "pool_run E (p, t) (?p1, t1)" using drain [OF assms(1)] by blast
  have "rested w \<in> {Ready, Exited}" if "w \<in> set (pl_workers p)" for w
    by (cases w) (use that assms(2) in auto)
  then have "list_all (\<lambda>w. w \<in> {Ready, Exited}) (pl_workers ?p1)" by (simp add: list_all_iff)
  from tick_all [OF _ this, of E t1] assms(4) obtain i where
    r2: "pool_run E (?p1, t1) (?p1\<lparr>pl_workers := replicate (length (pl_workers p)) Exited, pl_wait := i\<rparr>, t1)"
      (is "pool_run E _ (?p2, t1)") by auto
  have "wait_inv ?p2" by (rule pool_at_wait [OF pool_at_run [OF pool_at_run [OF assms(3) r1] r2]])
  then have "pl_wait ?p2 = 0" using assms(6) by (simp add: wait_inv_def live_workers_def created_def)
  with assms(5) have "pool_step E (?p2, t1) (?p2\<lparr>pl_stop := Some []\<rparr>, t1)"
    by (intro pool_step.return) simp_all
  from pool_run_step [OF pool_run_trans [OF r1 r2] this] show ?thesis by (intro exI conjI) auto
qed

text \<open>\<open>WorkerEngine.Stop\<close> can complete whatever the pool is doing, unless a worker left or is about to.\<close>

lemma reach_pause:
  assumes "jobs_end E" "no_leak E p" "\<And>c. pe_select E c" "pe_stop E = engine_stop" "0 < n"
    and run: "pool_at E n c p" and "pl_stop p = Some engine_stop" "created p"
  shows "\<exists>q u. pool_run E (p, t) (q, u) \<and> Left \<notin> set (pl_workers q) \<and> pl_paused q \<and>
    pl_stop q = Some [WaitWorkers] \<and> created q"
proof -
  have inv: "stop_inv E p" by (rule pool_at_stop [OF stop_progs(1) [OF assms(4)] run])
  then have np: "\<not> pl_paused p" and ne: "pl_sched p \<noteq> Ended"
    using assms(7) by (simp_all add: stop_inv_def stop_did_def engine_stop_def)
  let ?p1 = "p\<lparr>pl_workers := replicate n Ready\<rparr>"
  obtain t1 where r1: "pool_run E (p, t) (?p1, t1)"
    using rest_before_pause [OF assms(1,2) run assms(8) np] by blast
  obtain c1 t2 where r2: "pool_run E (?p1, t1) (?p1\<lparr>pl_sched := Looping c1\<rparr>, t2)"
  proof (cases "pl_sched p")
    case (Looping c1)
    then have "?p1\<lparr>pl_sched := Looping c1\<rparr> = ?p1" by simp
    with that [of c1 t1] show thesis by (simp add: pool_run_refl)
  next
    case (Sending xs c1)
    with send_all [OF assms(1,5), of ?p1 xs c1 t1] assms(2) that show thesis by (auto simp: no_leak_def)
  qed (use ne in simp)
  let ?p2 = "?p1\<lparr>pl_sched := Looping c1\<rparr>"
  let ?p3 = "?p2\<lparr>pl_sched := Ended, pl_stop := Some [StorePaused, WaitWorkers]\<rparr>"
  let ?p4 = "?p3\<lparr>pl_stop := Some [WaitWorkers], pl_paused := True\<rparr>"
  have s3: "pool_step E (?p2, t2) (?p3, t2)"
    using assms(8) by (intro pool_step.leave) (simp_all add: assms(3,7) engine_stop_def created_def)
  have s4: "pool_step E (?p3, t2) (?p4, t2)" by (rule pool_step.store) simp
  from pool_run_step [OF pool_run_step [OF pool_run_trans [OF r1 r2] s3] s4]
  show ?thesis using assms(8) by (intro exI [of _ ?p4] exI [of _ t2]) (simp add: created_def)
qed

lemma engine_stop_suffixes:
  "pre @ ops = engine_stop \<Longrightarrow>
     ops \<in> {engine_stop, [StorePaused, WaitWorkers], [WaitWorkers], []}"
  by (auto simp: engine_stop_def append_eq_Cons_conv)

lemma created_can_stop:
  assumes "jobs_end E" "no_leak E p" "\<And>c. pe_select E c" "pe_stop E = engine_stop" "0 < n"
    and "pool_at E n c p" "created p"
  shows "\<exists>q u. pool_run E (p, t) (q, u) \<and> pl_stop q = Some []"
proof -
  have last: "\<exists>q u. pool_run E (p, t) (q, u) \<and> pl_stop q = Some []"
    if "pool_at E n c p" "Left \<notin> set (pl_workers p)" "pl_paused p"
      "pl_stop p = Some [WaitWorkers]" "created p" for p t
    by (rule finish_stop [OF assms(1) that(2,1,3,4,5)])
  have first: "\<exists>q u. pool_run E (p, t) (q, u) \<and> pl_stop q = Some []"
    if run: "pool_at E n c p" and leak: "no_leak E p" and "pl_stop p = Some engine_stop" "created p" for p t
    using reach_pause [OF assms(1) leak assms(3-5) run that(3,4)] last pool_at_run [OF run] pool_run_trans
    by blast
  have inv: "stop_inv E p" by (rule pool_at_stop [OF stop_progs(1) [OF assms(4)] assms(6)])
  have left: "Left \<notin> set (pl_workers p)" using assms(2) by (simp add: no_leak_def)
  show ?thesis
  proof (cases "pl_stop p")
    case None
    let ?q = "p\<lparr>pl_stop := Some engine_stop\<rparr>"
    have step: "pool_step E (p, t) (?q, t)" using pool_step.call [OF None] assms(4) by metis
    have "\<exists>q u. pool_run E (?q, t) (q, u) \<and> pl_stop q = Some []"
      by (rule first [OF pool_at_step [OF assms(6) step]])
        (use assms(2,7) in \<open>auto simp: no_leak_def created_def\<close>)
    then show ?thesis using pool_step_run [OF step] by blast
  next
    case (Some ops)
    with inv assms(4) have "ops \<in> {engine_stop, [StorePaused, WaitWorkers], [WaitWorkers], []}"
      by (auto simp: stop_inv_def dest: engine_stop_suffixes)
    moreover have ?thesis if "ops = [StorePaused, WaitWorkers]"
    proof -
      let ?q = "p\<lparr>pl_stop := Some [WaitWorkers], pl_paused := True\<rparr>"
      have step: "pool_step E (p, t) (?q, t)" by (rule pool_step.store) (simp add: Some that)
      have "\<exists>q u. pool_run E (?q, t) (q, u) \<and> pl_stop q = Some []"
        by (rule last [OF pool_at_step [OF assms(6) step]]) (use left assms(7) in \<open>simp_all add: created_def\<close>)
      then show ?thesis using pool_step_run [OF step] by blast
    qed
    moreover have ?thesis if "ops = [WaitWorkers]"
      by (rule last [OF assms(6) left]) (use inv Some that assms(7) in \<open>simp_all add: stop_inv_def stop_did_def\<close>)
    ultimately show ?thesis using first [OF assms(6,2)] Some assms(7) by auto
  qed
qed

lemma engine_can_stop:
  assumes "jobs_end E" "no_leak E p" "\<And>c. pe_select E c" "pe_stop E = engine_stop" "0 < n"
    and "pool_at E n c p"
  shows "\<exists>q u. pool_run E (p, t) (q, u) \<and> pl_stop q = Some []"
proof -
  obtain p1 where p1: "pool_run E (p, t) (p1, t)" "created p1" "pl_sched p1 = pl_sched p"
    "set (pl_workers p1) \<subseteq> insert Ready (set (pl_workers p))"
    using finish_creation [of E p t] by (elim exE conjE)
  have "no_leak E p1" using assms(2) p1(3,4) by (auto simp: no_leak_def)
  from created_can_stop [OF assms(1) this assms(3-5) pool_at_run [OF assms(6) p1(1)] p1(2)]
  show ?thesis using pool_run_trans [OF p1(1)] by blast
qed

section \<open>The order of the registry's Stop\<close>

text \<open>On the idle pool either order lets \<open>Stop\<close> return.\<close>

lemma idle_stop:
  fixes E :: "('s, 'c, 'i, 'j) pool_env"
  assumes "pe_select E c"
  shows "\<exists>p. pool_run E ((pool_ready n c)\<lparr>pl_stop := Some registry_stop\<rparr>, s) (p, s) \<and> pl_stop p = Some []"
proof -
  let ?p1 = "(pool_ready n c :: ('c, 'i, 'j) pool)\<lparr>pl_stop := Some registry_stop\<rparr>"
  let ?p2 = "?p1\<lparr>pl_stop := Some [SendExit, WaitWorkers], pl_paused := True\<rparr>"
  let ?p3 = "?p2\<lparr>pl_sched := Ended, pl_stop := Some [WaitWorkers]\<rparr>"
  have s2: "pool_step E (?p1, s) (?p2, s)"
    by (rule pool_step.store) (simp add: registry_stop_def)
  have s3: "pool_step E (?p2, s) (?p3, s)"
    by (rule pool_step.leave [OF _ assms]) (simp_all add: pool_ready_def created_def)
  obtain i where r4: "pool_run E (?p3, s)
      (?p3\<lparr>pl_workers := replicate (length (pl_workers ?p3)) Exited, pl_wait := i\<rparr>, s)"
    (is "pool_run E _ (?p4, s)")
    using tick_all [of ?p3 E s] by (auto simp: pool_ready_def list_all_iff)
  have run: "pool_run E (?p1, s) (?p4, s)"
    by (rule pool_step_run [OF s2 pool_step_run [OF s3 r4]])
  have "wait_inv ?p1" by (simp add: wait_inv_def live_workers_def pool_ready_def)
  from pool_reach_wait [OF pool_run_reach [OF run] this] have "pl_wait ?p4 = 0"
    by (simp add: wait_inv_def live_workers_def pool_ready_def)
  then have "pool_step E (?p4, s) (?p4\<lparr>pl_stop := Some []\<rparr>, s)" by (intro pool_step.return) simp_all
  from pool_run_step [OF run this] show ?thesis by (intro exI [of _ "?p4\<lparr>pl_stop := Some []\<rparr>"]) simp
qed

lemma registry_idle_stop:
  assumes "pe_stop E = registry_stop" "pe_select E c"
  shows "\<exists>p. pool_run E (pool_ready n c, s) (p, s) \<and> pl_stop p = Some []"
proof -
  have "pool_step E (pool_ready n c, s) ((pool_ready n c)\<lparr>pl_stop := Some registry_stop\<rparr>, s)"
    using pool_step.call [of "pool_ready n c" E s] assms(1) by (simp add: pool_ready_def)
  with idle_stop [OF assms(2)] show ?thesis by (blast intro: pool_step_run)
qed

text \<open>
  Beside a loop that does not wait for the pool, \<open>Stop\<close> can return before any worker exists; and a
  worker that leaves before it is counted makes the counter negative, which is a panic.
\<close>

lemma early_stop:
  fixes E :: "('s, 'c, 'i, 'j) pool_env"
  assumes "pe_stop E = registry_stop" "pe_select E c" "\<not> pe_first E" "0 < n"
  shows "\<exists>p q. pool_run E (pool_init n c, s) (p, s) \<and> pl_stop p = Some [] \<and> pl_make p = n \<and>
    pool_run E (p, s) (q, s) \<and> pl_wait q = - 1"
proof -
  obtain m where m: "n = Suc m" using assms(4) by (cases n) auto
  let ?p0 = "pool_init n c :: ('c, 'i, 'j) pool"
  let ?p1 = "?p0\<lparr>pl_stop := Some registry_stop\<rparr>"
  let ?p2 = "?p1\<lparr>pl_stop := Some [SendExit, WaitWorkers], pl_paused := True\<rparr>"
  let ?p3 = "?p2\<lparr>pl_sched := Ended, pl_stop := Some [WaitWorkers]\<rparr>"
  let ?p4 = "?p3\<lparr>pl_stop := Some []\<rparr>"
  let ?p5 = "?p4\<lparr>pl_workers := [Ready], pl_make := m, pl_adding := True\<rparr>"
  let ?p6 = "?p5\<lparr>pl_workers := [Exited], pl_wait := - 1\<rparr>"
  have s1: "pool_step E (?p0, s) (?p1, s)"
    using pool_step.call [of ?p0 E s] assms(1) by (simp add: pool_init_def)
  have s2: "pool_step E (?p1, s) (?p2, s)"
    by (rule pool_step.store) (simp add: registry_stop_def)
  have s3: "pool_step E (?p2, s) (?p3, s)"
    by (rule pool_step.leave [OF _ assms(2)]) (simp_all add: pool_init_def assms(3))
  have s4: "pool_step E (?p3, s) (?p4, s)" by (rule pool_step.return) (simp_all add: pool_init_def)
  have s5: "pool_step E (?p4, s) (?p5, s)"
    using pool_step.spawn [of ?p4 m E s] by (simp add: pool_init_def m)
  have s6: "pool_step E (?p5, s) (?p6, s)"
    using pool_step.tick [of 0 ?p5 E s] by (simp add: pool_init_def)
  have "pool_run E (?p0, s) (?p4, s)"
    by (rule pool_step_run [OF s1 pool_step_run [OF s2 pool_step_run [OF s3 pool_step_1 [OF s4]]]])
  moreover have "pool_run E (?p4, s) (?p6, s)" by (rule pool_step_run [OF s5 pool_step_1 [OF s6]])
  ultimately show ?thesis by (intro exI [of _ ?p4] exI [of _ ?p6]) (simp add: pool_init_def)
qed

text \<open>
  The flag is set before the exit signal is sent, so the workers can all leave while the loop is
  still sending: then neither the loop nor \<open>Stop\<close> ever moves again.
\<close>

lemma stuck_after_pause:
  assumes "pl_sched p = Sending (x # xs) c" "list_all (\<lambda>w. w \<in> {Ready, Exited}) (pl_workers p)" "created p"
    and "pl_stop p = Some registry_stop"
  shows "\<exists>q. pool_run E (p, s) (q, s) \<and> pl_stop q = Some [SendExit, WaitWorkers] \<and>
    (\<forall>t qu. \<not> pool_step E (q, t) qu)"
proof -
  let ?p1 = "p\<lparr>pl_stop := Some [SendExit, WaitWorkers], pl_paused := True\<rparr>"
  have s1: "pool_step E (p, s) (?p1, s)"
    by (rule pool_step.store) (simp add: assms(4) registry_stop_def)
  obtain i where r2: "pool_run E (?p1, s)
      (?p1\<lparr>pl_workers := replicate (length (pl_workers ?p1)) Exited, pl_wait := i\<rparr>, s)"
    (is "pool_run E _ (?p2, s)")
    using tick_all [of ?p1 E s] assms(2) by auto
  have stuck: "\<not> pool_step E (?p2, t) qu" for t qu
    using assms(1,3) by (auto simp: created_def elim!: pool_stepE)
  from pool_step_run [OF s1 r2] stuck show ?thesis by (intro exI [of _ ?p2] conjI) simp_all
qed

end
