(* ===== verification/Strconv.thy ===== *)
theory Strconv
  imports Prelude
begin

text \<open>
  The part of Go's standard library that turns identifiers into text and back:
  \<open>fmt.Sprintf("%d", id)\<close> of a \<open>uint64\<close> and \<open>strconv.ParseUint(s, 10, 64)\<close>. Every
  identifier that leaves the MySQL repositories goes through the first function and every
  identifier that enters them goes through the second. \<open>parse_uint\<close> answers the value
  together with the error, as the Go function does: the value is 0 for a syntax error and the
  largest \<open>uint64\<close> for a number that is too big, and one caller uses it without looking at
  the error.
\<close>

section \<open>Printing and parsing of decimal numbers\<close>

definition digit_char :: "nat \<Rightarrow> char" where
  "digit_char d = char_of (48 + d)"

fun dec :: "nat \<Rightarrow> string" where
  "dec n = (if n < 10 then [digit_char n] else dec (n div 10) @ [digit_char (n mod 10)])"

declare dec.simps [simp del]

text \<open>\<open>%d\<close> of an \<open>int\<close>.\<close>

definition sprintf_int :: "int \<Rightarrow> string" where
  "sprintf_int n = (if n < 0 then CHR ''-'' # dec (nat (- n)) else dec (nat n))"

definition sprintf_d :: "u64 \<Rightarrow> string" where
  "sprintf_d w = dec (unat w)"

definition is_digit :: "char \<Rightarrow> bool" where
  "is_digit c \<longleftrightarrow> 48 \<le> (of_char c :: int) \<and> (of_char c :: int) \<le> 57"

definition digit_val :: "char \<Rightarrow> int" where
  "digit_val c = of_char c - 48"

fun parse_loop :: "string \<Rightarrow> int \<Rightarrow> int \<times> num_err option" where
  "parse_loop [] n = (n, None)"
| "parse_loop (c # cs) n =
     (if \<not> is_digit c then (0, Some ErrSyntax)
      else if n * 10 + digit_val c > 2 ^ 64 - 1 then (2 ^ 64 - 1, Some ErrRange)
      else parse_loop cs (n * 10 + digit_val c))"

definition parse_uint :: "string \<Rightarrow> u64 \<times> num_err option" where
  "parse_uint s =
     (if s = [] then (0, Some ErrSyntax)
      else (case parse_loop s 0 of (n, e) \<Rightarrow> (of_int n, e)))"

text \<open>The same as a result: the usual caller returns the error and drops the value.\<close>

definition parse_id :: "string \<Rightarrow> go_err + u64" where
  "parse_id s = (case parse_uint s of (w, None) \<Rightarrow> Inr w | (w, Some e) \<Rightarrow> Inl (NumErr e))"

section \<open>Lemmas\<close>

lemma of_char_digit_char: "d < 10 \<Longrightarrow> (of_char (digit_char d) :: int) = 48 + int d"
proof -
  assume "d < 10"
  then have "(of_char (digit_char d) :: nat) = 48 + d"
    by (simp add: digit_char_def of_char_of)
  then have "int (of_char (digit_char d)) = 48 + int d" by simp
  then show ?thesis by (simp add: of_nat_of_char)
qed

lemma is_digit_digit_char: "d < 10 \<Longrightarrow> is_digit (digit_char d)"
  by (simp add: is_digit_def of_char_digit_char)

lemma digit_val_digit_char: "d < 10 \<Longrightarrow> digit_val (digit_char d) = int d"
  by (simp add: digit_val_def of_char_digit_char)

lemma dec_nonempty [simp]: "dec n \<noteq> []"
  by (subst dec.simps) simp

lemma parse_loop_snoc:
  "parse_loop cs a = (n, None) \<Longrightarrow> d < 10 \<Longrightarrow> n * 10 + int d < 2 ^ 64 \<Longrightarrow>
     parse_loop (cs @ [digit_char d]) a = (n * 10 + int d, None)"
proof (induction cs arbitrary: a)
  case Nil
  then show ?case by (simp add: is_digit_digit_char digit_val_digit_char)
next
  case (Cons c cs)
  then show ?case by (auto split: if_splits)
qed

lemma parse_loop_dec: "n < 2 ^ 64 \<Longrightarrow> parse_loop (dec n) 0 = (int n, None)"
proof (induction n rule: dec.induct)
  case (1 n)
  show ?case
  proof (cases "n < 10")
    case True
    then show ?thesis
      by (subst dec.simps) (simp add: is_digit_digit_char digit_val_digit_char)
  next
    case False
    with 1 have IH: "parse_loop (dec (n div 10)) 0 = (int (n div 10), None)"
      by simp
    have sum: "int (n div 10) * 10 + int (n mod 10) = int n"
      by (metis div_mult_mod_eq of_nat_add of_nat_mult of_nat_numeral)
    then have "int (n div 10) * 10 + int (n mod 10) < 2 ^ 64"
      using "1.prems" by simp
    with IH have "parse_loop (dec (n div 10) @ [digit_char (n mod 10)]) 0 =
        (int (n div 10) * 10 + int (n mod 10), None)"
      by (intro parse_loop_snoc) simp_all
    with False sum show ?thesis by (subst dec.simps) simp
  qed
qed

lemma unat_lt_2p64: "unat (w :: u64) < 2 ^ 64"
  using unsigned_less [of w, where 'a = nat] by simp

lemma parse_uint_sprintf_d [simp]: "parse_uint (sprintf_d w) = (w, None)"
  using parse_loop_dec [OF unat_lt_2p64, of w]
  by (simp add: parse_uint_def sprintf_d_def)

lemma parse_id_sprintf_d [simp]: "parse_id (sprintf_d w) = Inr w"
  by (simp add: parse_id_def)

lemma sprintf_d_inj [simp]: "sprintf_d v = sprintf_d w \<longleftrightarrow> v = w"
  by (metis parse_uint_sprintf_d prod.inject)

lemma sprintf_d_nonempty [simp]: "sprintf_d w \<noteq> []"
  by (simp add: sprintf_d_def)

lemma parse_loop_digits: "parse_loop s n = (m, None) \<Longrightarrow> list_all is_digit s"
  by (induction s arbitrary: n) (auto split: if_splits)

end
