(* ===== verification/Entities.thy ===== *)
theory Entities
  imports Strconv
begin

text \<open>
  The domain objects of \<open>internal/task\<close>: \<open>task.go\<close> and \<open>callback.go\<close>. A Go struct is a record
  whose fields carry the source's names behind a short prefix; the getters of the source are the
  record's selectors. A pointer that the source checks for nil is an \<open>option\<close>.

  Parameters. \<open>cron\<close> stands for \<open>cronexpr.Parse\<close>: an error text or the function that \<open>Next\<close> of
  the parsed expression computes (Unix seconds to Unix seconds). \<open>vld\<close> stands for the
  validator package: it gets, in the order of the struct's fields, the name of every field
  tagged \<open>required\<close> with the information whether it holds its type's zero value, and answers
  an error text or \<open>None\<close>. \<open>jdet\<close> is the JSON text of an internal error's detail. Times are
  the values that the calls of \<open>time.Now().Unix()\<close> answer.
\<close>

section \<open>Status and schedule modes\<close>

datatype status = StatusNil | StatusReady | StatusRunning | StatusSuccess | StatusFailed

datatype sched_mode = SchedModeNil | SchedModeTimeCron | SchedModeTimeSpec | SchedModeTimeInterval

definition is_task_ready :: "status \<Rightarrow> bool" where
  "is_task_ready st \<longleftrightarrow> st = StatusReady"

definition is_task_running :: "status \<Rightarrow> bool" where
  "is_task_running st \<longleftrightarrow> st = StatusRunning"

definition is_task_success :: "status \<Rightarrow> bool" where
  "is_task_success st \<longleftrightarrow> st = StatusSuccess"

definition is_task_failed :: "status \<Rightarrow> bool" where
  "is_task_failed st \<longleftrightarrow> st = StatusFailed"

section \<open>Responses of a task run\<close>

record task_resp =
  tr_taskId :: string
  tr_isRunInAsync :: bool
  tr_taskStatus :: status
  tr_taskRunTimes :: int
  tr_extra :: string

definition new_task_resp :: "string \<Rightarrow> bool \<Rightarrow> status \<Rightarrow> int \<Rightarrow> string \<Rightarrow> task_resp" where
  "new_task_resp taskId isRunInAsync taskStatus taskRunTimes extra =
     \<lparr>tr_taskId = taskId, tr_isRunInAsync = isRunInAsync, tr_taskStatus = taskStatus,
      tr_taskRunTimes = taskRunTimes, tr_extra = extra\<rparr>"

record internal_err_detail =
  ie_Err :: go_err
  ie_OccurredAt :: int

definition new_internal_err_task_resp ::
    "(internal_err_detail \<Rightarrow> go_err + string) \<Rightarrow> string \<Rightarrow> go_err \<Rightarrow> int \<Rightarrow> go_err + task_resp" where
  "new_internal_err_task_resp jdet taskId err occurredAt =
     (case jdet \<lparr>ie_Err = err, ie_OccurredAt = occurredAt\<rparr> of
        Inl e \<Rightarrow> Inl e
      | Inr extra \<Rightarrow>
          Inr \<lparr>tr_taskId = taskId, tr_isRunInAsync = False, tr_taskStatus = StatusFailed,
               tr_taskRunTimes = 0, tr_extra = extra\<rparr>)"

section \<open>Callback services and their routes\<close>

record srv_route =
  rt_id :: string
  rt_scheme :: string
  rt_host :: string
  rt_port :: int
  rt_callbackTimeoutSec :: int
  rt_isEnableHealthCheck :: bool

definition new_srv_route ::
    "string \<Rightarrow> string \<Rightarrow> string \<Rightarrow> int \<Rightarrow> int \<Rightarrow> bool \<Rightarrow> srv_route" where
  "new_srv_route rid schema host port callbackTimeoutSec isEnableHealthCheck =
     \<lparr>rt_id = rid, rt_scheme = schema, rt_host = host, rt_port = port,
      rt_callbackTimeoutSec = callbackTimeoutSec, rt_isEnableHealthCheck = isEnableHealthCheck\<rparr>"

record callback_srv =
  cs_id :: string
  cs_name :: string
  cs_routes :: "srv_route list"
  cs_hasEnableHealthCheck :: bool

definition new_callback_srv :: "string \<Rightarrow> string \<Rightarrow> srv_route list \<Rightarrow> bool \<Rightarrow> callback_srv" where
  "new_callback_srv sid name routes hasEnableHealthCheck =
     \<lparr>cs_id = sid, cs_name = name, cs_routes = routes,
      cs_hasEnableHealthCheck = hasEnableHealthCheck\<rparr>"

definition has_enable_health_check_route :: "callback_srv \<Rightarrow> bool" where
  "has_enable_health_check_route s =
     (if cs_hasEnableHealthCheck s then True else list_ex rt_isEnableHealthCheck (cs_routes s))"

text \<open>\<open>rnd\<close> is the draw of the random source that \<open>rand.Intn\<close> reduces to the length.\<close>

definition get_random_route :: "nat \<Rightarrow> callback_srv \<Rightarrow> srv_route option" where
  "get_random_route rnd s =
     (if cs_routes s = [] then None else Some (cs_routes s ! (rnd mod length (cs_routes s))))"

section \<open>Tasks\<close>

record task =
  t_id :: string
  t_callbackSrv :: callback_srv
  t_callbackPath :: string
  t_name :: string
  t_arg :: string
  t_runTimes :: int
  t_lastRunAt :: int
  t_allowMaxRunTimes :: int
  t_maxRunTimeSec :: int
  t_schedMode :: sched_mode
  t_timeCronExpr :: string
  t_timeIntervalSec :: int
  t_timeSpecAt :: int
  t_bizId :: string

record new_task_req =
  nt_Id :: string
  nt_CallbackSrv :: "callback_srv option"
  nt_CallbackPath :: string
  nt_Name :: string
  nt_Arg :: string
  nt_RunTimes :: int
  nt_LastRunAt :: int
  nt_AllowMaxRunTimes :: int
  nt_MaxRunTimeSec :: int
  nt_SchedMode :: sched_mode
  nt_TimeCronExpr :: string
  nt_TimeIntervalSec :: int
  nt_TimeSpecAt :: int
  nt_BizId :: string

text \<open>The zero value of the struct: a composite literal sets the fields it names and no other.\<close>

definition zero_task_req :: new_task_req where
  "zero_task_req =
     \<lparr>nt_Id = [], nt_CallbackSrv = None, nt_CallbackPath = [], nt_Name = [], nt_Arg = [],
      nt_RunTimes = 0, nt_LastRunAt = 0, nt_AllowMaxRunTimes = 0, nt_MaxRunTimeSec = 0,
      nt_SchedMode = SchedModeNil, nt_TimeCronExpr = [], nt_TimeIntervalSec = 0,
      nt_TimeSpecAt = 0, nt_BizId = []\<rparr>"

type_synonym validator = "(string \<times> bool) list \<Rightarrow> string option"

definition new_task_req_check :: "validator \<Rightarrow> new_task_req \<Rightarrow> string option" where
  "new_task_req_check vld r =
     vld [(''CallbackSrv'', nt_CallbackSrv r = None), (''Name'', nt_Name r = []),
          (''SchedMode'', nt_SchedMode r = SchedModeNil)]"

text \<open>
  A task without a callback service would be dereferenced as a nil pointer by every operation
  that follows; the model stops there with a panic. The validator's law excludes the branch.
\<close>

definition new_task :: "validator \<Rightarrow> new_task_req \<Rightarrow> go_err + task" where
  "new_task vld r =
     (case new_task_req_check vld r of
        Some e \<Rightarrow> Inl (ValidatorErr e)
      | None \<Rightarrow>
          (case nt_CallbackSrv r of
             None \<Rightarrow> Inl (Panic ''nil callbackSrv'')
           | Some srv \<Rightarrow>
               Inr \<lparr>t_id = nt_Id r, t_callbackSrv = srv, t_callbackPath = nt_CallbackPath r,
                    t_name = nt_Name r, t_arg = nt_Arg r, t_runTimes = nt_RunTimes r,
                    t_lastRunAt = nt_LastRunAt r, t_allowMaxRunTimes = nt_AllowMaxRunTimes r,
                    t_maxRunTimeSec = nt_MaxRunTimeSec r, t_schedMode = nt_SchedMode r,
                    t_timeCronExpr = nt_TimeCronExpr r,
                    t_timeIntervalSec = nt_TimeIntervalSec r,
                    t_timeSpecAt = nt_TimeSpecAt r, t_bizId = nt_BizId r\<rparr>))"

type_synonym cron_lib = "string \<Rightarrow> string + (int \<Rightarrow> int)"

definition get_sched_next_at :: "cron_lib \<Rightarrow> int \<Rightarrow> task \<Rightarrow> go_err + int" where
  "get_sched_next_at cron now t =
     (case t_schedMode t of
        SchedModeTimeInterval \<Rightarrow> Inr (wrap64 (now + t_timeIntervalSec t))
      | SchedModeTimeCron \<Rightarrow>
          (case cron (t_timeCronExpr t) of
             Inl e \<Rightarrow> Inl (CronErr e)
           | Inr next_at \<Rightarrow> Inr (next_at now))
      | SchedModeTimeSpec \<Rightarrow> Inr (t_timeSpecAt t)
      | SchedModeNil \<Rightarrow> Inl (PlainErr ''unknown schedule at''))"

definition incr_run_times :: "task \<Rightarrow> task" where
  "incr_run_times t = t\<lparr>t_runTimes := wrap64 (t_runTimes t + 1)\<rparr>"

section \<open>Callbacks\<close>

record callback_resp =
  cr_isRunInAsync :: bool
  cr_isSuccess :: bool
  cr_extra :: string

definition new_callback_resp :: "bool \<Rightarrow> bool \<Rightarrow> string \<Rightarrow> callback_resp" where
  "new_callback_resp isRunInAsync isSuccess extra =
     \<lparr>cr_isRunInAsync = isRunInAsync, cr_isSuccess = isSuccess, cr_extra = extra\<rparr>"

record heart_beat_resp =
  hb_noReplyRoutes :: "srv_route list"
  hb_replyRoutes :: "srv_route list"

definition new_heart_beat_resp :: "srv_route list \<Rightarrow> srv_route list \<Rightarrow> heart_beat_resp" where
  "new_heart_beat_resp replyRoutes noReplyRoutes =
     \<lparr>hb_noReplyRoutes = noReplyRoutes, hb_replyRoutes = replyRoutes\<rparr>"

text \<open>\<open>Task.run\<close>: \<open>exec\<close> is the \<open>CallbackSrv\<close> method of the executor.\<close>

definition resp_status :: "bool \<Rightarrow> bool \<Rightarrow> status" where
  "resp_status isSuccess isRunInAsync =
     (if isSuccess then StatusSuccess else if isRunInAsync then StatusRunning else StatusFailed)"

definition task_run :: "(task \<Rightarrow> ('s, callback_resp) io) \<Rightarrow> task \<Rightarrow> ('s, task_resp) io" where
  "task_run exec t =
     bind_io (exec t) (\<lambda>r.
       ret_io (new_task_resp (t_id t) (cr_isRunInAsync r)
                 (resp_status (cr_isSuccess r) (cr_isRunInAsync r)) (t_runTimes t) (cr_extra r)))"

section \<open>Task logs\<close>

datatype log_type = TaskLogTypeNil | TaskLogTypeStarted | TaskLogTypeCallback | TaskLogTypeConfirmed

record started_detail =
  sd_task :: task

record callback_detail_req =
  cq_TaskId :: string
  cq_CallbackPath :: string
  cq_RunTimes :: int
  cq_Route :: "srv_route option"
  cq_RespRaw :: string
  cq_IsRunInAsync :: bool
  cq_TaskStatus :: status
  cq_Err :: "go_err option"

record callback_detail =
  cd_taskId :: string
  cd_callbackPath :: string
  cd_runTimes :: int
  cd_route :: srv_route
  cd_respRaw :: string
  cd_isRunInAsync :: bool
  cd_taskStatus :: status
  cd_err :: "go_err option"

definition callback_detail_req_check :: "validator \<Rightarrow> callback_detail_req \<Rightarrow> string option" where
  "callback_detail_req_check vld r =
     vld [(''TaskId'', cq_TaskId r = []), (''Route'', cq_Route r = None)]"

definition new_callback_detail :: "validator \<Rightarrow> callback_detail_req \<Rightarrow> go_err + callback_detail" where
  "new_callback_detail vld r =
     (case callback_detail_req_check vld r of
        Some e \<Rightarrow> Inl (ValidatorErr e)
      | None \<Rightarrow>
          (case cq_Route r of
             None \<Rightarrow> Inl (Panic ''nil route'')
           | Some route \<Rightarrow>
               Inr \<lparr>cd_taskId = cq_TaskId r, cd_callbackPath = cq_CallbackPath r,
                    cd_runTimes = cq_RunTimes r, cd_route = route, cd_respRaw = cq_RespRaw r,
                    cd_isRunInAsync = cq_IsRunInAsync r, cd_taskStatus = cq_TaskStatus r,
                    cd_err = cq_Err r\<rparr>))"

record confirmed_detail =
  fd_taskResp :: task_resp

datatype log_detail =
    DStarted started_detail
  | DCallback callback_detail
  | DConfirmed confirmed_detail

record task_log =
  tl_logType :: log_type
  tl_started :: "started_detail option"
  tl_callback :: "callback_detail option"
  tl_confirmed :: "confirmed_detail option"

definition must_new_task_log :: "log_type \<Rightarrow> log_detail \<Rightarrow> go_err + task_log" where
  "must_new_task_log logType detail =
     (let l = \<lparr>tl_logType = logType, tl_started = None, tl_callback = None, tl_confirmed = None\<rparr>
      in case logType of
           TaskLogTypeStarted \<Rightarrow>
             (case detail of DStarted d \<Rightarrow> Inr (l\<lparr>tl_started := Some d\<rparr>)
              | _ \<Rightarrow> Inl (Panic ''interface conversion''))
         | TaskLogTypeCallback \<Rightarrow>
             (case detail of DCallback d \<Rightarrow> Inr (l\<lparr>tl_callback := Some d\<rparr>)
              | _ \<Rightarrow> Inl (Panic ''interface conversion''))
         | TaskLogTypeConfirmed \<Rightarrow>
             (case detail of DConfirmed d \<Rightarrow> Inr (l\<lparr>tl_confirmed := Some d\<rparr>)
              | _ \<Rightarrow> Inl (Panic ''interface conversion''))
         | TaskLogTypeNil \<Rightarrow> Inl (Panic ''unknown log type''))"

section \<open>Lemmas\<close>

text \<open>The law of the validator: it accepts when no required field holds its zero value.\<close>

definition validator_law :: "validator \<Rightarrow> bool" where
  "validator_law vld \<longleftrightarrow> (\<forall>fs. vld fs = None \<longleftrightarrow> list_all (\<lambda>f. \<not> snd f) fs)"

definition ref_validator :: validator where
  "ref_validator fs = map_option fst (find snd fs)"

lemma ref_validator_law: "validator_law ref_validator"
proof -
  have "find snd fs = None \<longleftrightarrow> list_all (\<lambda>f. \<not> snd f) fs" for fs :: "(string \<times> bool) list"
    by (induction fs) auto
  then show ?thesis by (simp add: validator_law_def ref_validator_def)
qed

lemma validator_SomeD: "validator_law vld \<Longrightarrow> vld fs = Some e \<Longrightarrow> \<not> list_all (\<lambda>f. \<not> snd f) fs"
  unfolding validator_law_def by (metis option.distinct(1))

lemmas task_status_defs =
  is_task_ready_def is_task_running_def is_task_success_def is_task_failed_def

lemma random_route_in: "get_random_route rnd s = Some r \<Longrightarrow> r \<in> set (cs_routes s)"
  by (auto simp: get_random_route_def split: if_splits)

lemma random_route_None: "get_random_route rnd s = None \<longleftrightarrow> cs_routes s = []"
  by (simp add: get_random_route_def)

lemma new_task_ok_iff:
  assumes "validator_law vld"
  shows "(\<exists>t. new_task vld r = Inr t) \<longleftrightarrow>
           nt_CallbackSrv r \<noteq> None \<and> nt_Name r \<noteq> [] \<and> nt_SchedMode r \<noteq> SchedModeNil"
  using assms validator_SomeD [OF assms, of "[(''CallbackSrv'', nt_CallbackSrv r = None),
      (''Name'', nt_Name r = []), (''SchedMode'', nt_SchedMode r = SchedModeNil)]"]
  by (auto simp: new_task_def new_task_req_check_def validator_law_def split: option.splits)

lemma new_task_fields:
  "new_task vld r = Inr t \<Longrightarrow>
     nt_CallbackSrv r = Some (t_callbackSrv t) \<and> t_id t = nt_Id r \<and> t_name t = nt_Name r \<and>
     t_callbackPath t = nt_CallbackPath r \<and> t_arg t = nt_Arg r \<and> t_runTimes t = nt_RunTimes r \<and>
     t_lastRunAt t = nt_LastRunAt r \<and> t_allowMaxRunTimes t = nt_AllowMaxRunTimes r \<and>
     t_maxRunTimeSec t = nt_MaxRunTimeSec r \<and> t_schedMode t = nt_SchedMode r \<and>
     t_timeCronExpr t = nt_TimeCronExpr r \<and> t_timeIntervalSec t = nt_TimeIntervalSec r \<and>
     t_timeSpecAt t = nt_TimeSpecAt r \<and> t_bizId t = nt_BizId r"
  by (auto simp: new_task_def split: option.splits)

lemma new_task_no_panic: "validator_law vld \<Longrightarrow> new_task vld r \<noteq> Inl (Panic p)"
  by (auto simp: new_task_def new_task_req_check_def validator_law_def split: option.splits)

end
