(* ===== verification/Data_Model.thy ===== *)
theory Data_Model
  imports Entities
begin

text \<open>
  The rows of the four MySQL tables and their translation to domain objects:
  \<open>internal/task/impl/repo/mysql/data_model.go\<close> and the column constants of \<open>db_field.go\<close>.

  \<open>BaseModel\<close> is embedded in every row, so the rows are extensions of one base record and an
  operation on the base (soft delete, time stamps) is written once for all of them. \<open>DeletedAt\<close>
  is the soft-delete mark: 0 for a live row, the deletion time otherwise.
\<close>

section \<open>Column names\<close>

datatype db_field =
    DbFieldId | DbFieldCreatedAt | DbFieldUpdatedAt | DbFieldDeletedAt
  | DbFieldName | DbFieldArg | DbFieldLastRunAt | DbFieldPlanSchedNextAt | DbFieldTimeCronExpr
  | DbFieldTimeIntervalSec | DbFieldSchedMode | DbFieldCallbackSrvId | DbFieldRunTimes
  | DbFieldIsRunInAsync | DbFieldLastFailedAt | DbFieldLastSuccessAt | DbFieldAllowMaxRunTimes
  | DbFieldMaxRunTimeSec | DbFieldCallbackPath | DbFieldBizId | DbFieldCheckedHealthAt
  | DbFieldHasEnableHealthCheck | DbFieldSrvSchema | DbFieldHost | DbFieldPort | DbFieldSrvId
  | DbFieldCallbackTimeoutSec | DbFieldEnableHealthCheck | DbFieldTimeoutSec | DbFieldCallbackAt
  | DbFieldRespRaw | DbFieldTaskId | DbFieldStartedAt | DbFieldEndedAt | DbFieldTaskStatus
  | DbFieldRespExtra | DbFieldReqSnapshot | DbFieldRespSnapshot | DbFieldCallbackErr

section \<open>Stored constants\<close>

definition schedModeNil :: int where "schedModeNil = 0"
definition schedModeTimeSpec :: int where "schedModeTimeSpec = 1"
definition schedModeTimeCron :: int where "schedModeTimeCron = 2"
definition schedModeTimeInterval :: int where "schedModeTimeInterval = 3"

definition statusNil :: int where "statusNil = 0"
definition statusRunning :: int where "statusRunning = 1"
definition statusSuccess :: int where "statusSuccess = 2"
definition statusFailed :: int where "statusFailed = 3"

lemmas sched_mode_consts =
  schedModeNil_def schedModeTimeSpec_def schedModeTimeCron_def schedModeTimeInterval_def

lemmas status_consts =
  statusNil_def statusRunning_def statusSuccess_def statusFailed_def

section \<open>Rows\<close>

record base_model =
  bm_Id :: u64
  bm_CreatedAt :: int
  bm_UpdatedAt :: int
  bm_DeletedAt :: int

record task_model = base_model +
  tm_Name :: string
  tm_Arg :: string
  tm_LastRunAt :: int
  tm_PlanSchedNextAt :: int
  tm_TimeCronExpr :: string
  tm_TimeIntervalSec :: int
  tm_SchedMode :: int
  tm_CallbackSrvId :: u64
  tm_RunTimes :: int
  tm_AllowMaxRunTimes :: int
  tm_MaxRunTimeSec :: int
  tm_CallbackPath :: string
  tm_BizId :: string

record srv_model = base_model +
  sm_Name :: string
  sm_CheckedHealthAt :: int
  sm_HasEnableHealthCheck :: bool

record route_model = base_model +
  rm_SrvSchema :: string
  rm_Host :: string
  rm_Port :: int
  rm_SrvId :: u64
  rm_CallbackTimeoutSec :: int
  rm_CheckedHealthAt :: int
  rm_EnableHealthCheck :: bool

record req_snapshot =
  qs_SrvSchema :: string
  qs_Host :: string
  qs_Port :: int
  qs_TimeoutSec :: int
  qs_CallbackAt :: int
  qs_CallbackPath :: string

record resp_snapshot =
  ps_RespRaw :: string

record log_model = base_model +
  lm_TaskId :: u64
  lm_StartedAt :: int
  lm_EndedAt :: int
  lm_TaskStatus :: int
  lm_IsRunInAsync :: bool
  lm_RespExtra :: string
  lm_RunTimes :: int
  lm_SrvId :: u64
  lm_ReqSnapshot :: "req_snapshot option"
  lm_RespSnapshot :: "resp_snapshot option"
  lm_CallbackErr :: string

text \<open>Zero values of the row structs.\<close>

definition zero_task_model :: task_model where
  "zero_task_model =
     \<lparr>bm_Id = 0, bm_CreatedAt = 0, bm_UpdatedAt = 0, bm_DeletedAt = 0, tm_Name = [], tm_Arg = [],
      tm_LastRunAt = 0, tm_PlanSchedNextAt = 0, tm_TimeCronExpr = [], tm_TimeIntervalSec = 0,
      tm_SchedMode = 0, tm_CallbackSrvId = 0, tm_RunTimes = 0, tm_AllowMaxRunTimes = 0,
      tm_MaxRunTimeSec = 0, tm_CallbackPath = [], tm_BizId = []\<rparr>"

definition zero_srv_model :: srv_model where
  "zero_srv_model =
     \<lparr>bm_Id = 0, bm_CreatedAt = 0, bm_UpdatedAt = 0, bm_DeletedAt = 0, sm_Name = [],
      sm_CheckedHealthAt = 0, sm_HasEnableHealthCheck = False\<rparr>"

definition zero_route_model :: route_model where
  "zero_route_model =
     \<lparr>bm_Id = 0, bm_CreatedAt = 0, bm_UpdatedAt = 0, bm_DeletedAt = 0, rm_SrvSchema = [],
      rm_Host = [], rm_Port = 0, rm_SrvId = 0, rm_CallbackTimeoutSec = 0,
      rm_CheckedHealthAt = 0, rm_EnableHealthCheck = False\<rparr>"

definition zero_log_model :: log_model where
  "zero_log_model =
     \<lparr>bm_Id = 0, bm_CreatedAt = 0, bm_UpdatedAt = 0, bm_DeletedAt = 0, lm_TaskId = 0,
      lm_StartedAt = 0, lm_EndedAt = 0, lm_TaskStatus = 0, lm_IsRunInAsync = False,
      lm_RespExtra = [], lm_RunTimes = 0, lm_SrvId = 0, lm_ReqSnapshot = None,
      lm_RespSnapshot = None, lm_CallbackErr = []\<rparr>"

section \<open>Identifiers\<close>

definition toTaskEntityId :: "u64 \<Rightarrow> string" where
  "toTaskEntityId modelId = sprintf_d modelId"

definition toTaskModelId :: "string \<Rightarrow> u64 \<times> num_err option" where
  "toTaskModelId entityId = parse_uint entityId"

definition toTaskCallbackSrvEntityId :: "u64 \<Rightarrow> string" where
  "toTaskCallbackSrvEntityId modelId = sprintf_d modelId"

definition toTaskCallbackSrvModelId :: "callback_srv \<Rightarrow> go_err + u64" where
  "toTaskCallbackSrvModelId entity = parse_id (cs_id entity)"

definition toTackCallbackSrvRouteModelId :: "string \<Rightarrow> go_err + u64" where
  "toTackCallbackSrvRouteModelId entityId = parse_id entityId"

definition toCallbackSrvRouteEntityId :: "u64 \<Rightarrow> string" where
  "toCallbackSrvRouteEntityId modelId = sprintf_d modelId"

definition toCallbackSrvRouteModelId :: "string \<Rightarrow> go_err + u64" where
  "toCallbackSrvRouteModelId entityId = parse_id entityId"

text \<open>The task identifier as a caller that checks the error sees it.\<close>

definition checkedTaskModelId :: "string \<Rightarrow> go_err + u64" where
  "checkedTaskModelId entityId =
     (case toTaskModelId entityId of (w, None) \<Rightarrow> Inr w | (w, Some e) \<Rightarrow> Inl (NumErr e))"

section \<open>Schedule modes\<close>

definition toTaskModelSchedMode :: "sched_mode \<Rightarrow> go_err + int" where
  "toTaskModelSchedMode m =
     (case m of
        SchedModeTimeCron \<Rightarrow> Inr schedModeTimeCron
      | SchedModeTimeSpec \<Rightarrow> Inr schedModeTimeSpec
      | SchedModeTimeInterval \<Rightarrow> Inr schedModeTimeInterval
      | SchedModeNil \<Rightarrow> Inl (PlainErr ''invalid schedule mode''))"

definition toTaskEntitySchedMode :: "int \<Rightarrow> go_err + sched_mode" where
  "toTaskEntitySchedMode m =
     (if m = schedModeTimeCron then Inr SchedModeTimeCron
      else if m = schedModeTimeSpec then Inr SchedModeTimeSpec
      else if m = schedModeTimeInterval then Inr SchedModeTimeInterval
      else Inl (PlainErr ''invalid schedule mode''))"

section \<open>Rows to domain objects\<close>

text \<open>\<open>TaskModel.toEntity\<close>, which no caller uses: the repository builds its request itself.\<close>

definition task_to_entity :: "validator \<Rightarrow> callback_srv \<Rightarrow> task_model \<Rightarrow> go_err + task" where
  "task_to_entity vld callbackSrv t =
     (case toTaskEntitySchedMode (tm_SchedMode t) of
        Inl e \<Rightarrow> Inl e
      | Inr mode \<Rightarrow>
          new_task vld (zero_task_req
            \<lparr>nt_Id := toTaskEntityId (bm_Id t), nt_Name := tm_Name t, nt_Arg := tm_Arg t,
             nt_RunTimes := tm_RunTimes t, nt_LastRunAt := tm_LastRunAt t,
             nt_AllowMaxRunTimes := tm_AllowMaxRunTimes t,
             nt_MaxRunTimeSec := tm_MaxRunTimeSec t, nt_CallbackSrv := Some callbackSrv,
             nt_TimeIntervalSec := tm_TimeIntervalSec t,
             nt_TimeCronExpr := tm_TimeCronExpr t, nt_SchedMode := mode,
             nt_BizId := tm_BizId t\<rparr>))"

definition srv_to_entity :: "srv_route list \<Rightarrow> srv_model \<Rightarrow> callback_srv" where
  "srv_to_entity routes m =
     new_callback_srv (toTaskCallbackSrvEntityId (bm_Id m)) (sm_Name m) routes
       (sm_HasEnableHealthCheck m)"

definition route_to_entity :: "route_model \<Rightarrow> srv_route" where
  "route_to_entity m =
     new_srv_route (toCallbackSrvRouteEntityId (bm_Id m)) (rm_SrvSchema m) (rm_Host m) (rm_Port m)
       (rm_CallbackTimeoutSec m) (rm_EnableHealthCheck m)"

section \<open>Lemmas\<close>

lemma zero_model_marks [simp]:
  "bm_DeletedAt zero_task_model = 0" "bm_DeletedAt zero_srv_model = 0"
  "bm_DeletedAt zero_route_model = 0" "bm_DeletedAt zero_log_model = 0"
  by (simp_all add: zero_task_model_def zero_srv_model_def zero_route_model_def zero_log_model_def)

lemmas id_defs =
  toTaskEntityId_def toTaskModelId_def toTaskCallbackSrvEntityId_def toTaskCallbackSrvModelId_def
  toTackCallbackSrvRouteModelId_def toCallbackSrvRouteEntityId_def toCallbackSrvRouteModelId_def

lemma checkedTaskModelId_eq: "checkedTaskModelId s = parse_id s"
  by (simp add: checkedTaskModelId_def toTaskModelId_def parse_id_def)

lemma checkedTaskModelId_entity [simp]: "checkedTaskModelId (toTaskEntityId w) = Inr w"
  by (simp add: checkedTaskModelId_eq toTaskEntityId_def)

lemma toTaskModelId_entity [simp]: "toTaskModelId (toTaskEntityId w) = (w, None)"
  by (simp add: id_defs)

lemma toCallbackSrvRouteModelId_entity [simp]:
  "toCallbackSrvRouteModelId (toCallbackSrvRouteEntityId w) = Inr w"
  "toCallbackSrvRouteModelId (toTaskCallbackSrvEntityId w) = Inr w"
  "toTackCallbackSrvRouteModelId (toTaskCallbackSrvEntityId w) = Inr w"
  "toTackCallbackSrvRouteModelId (toCallbackSrvRouteEntityId w) = Inr w"
  by (simp_all add: id_defs)

lemma sched_mode_roundtrip: "toTaskModelSchedMode m = Inr k \<Longrightarrow> toTaskEntitySchedMode k = Inr m"
  by (cases m) (auto simp: toTaskModelSchedMode_def toTaskEntitySchedMode_def sched_mode_consts)

lemma sched_mode_roundtrip_back:
  "toTaskEntitySchedMode k = Inr m \<Longrightarrow> toTaskModelSchedMode m = Inr k"
  by (auto simp: toTaskModelSchedMode_def toTaskEntitySchedMode_def sched_mode_consts
      split: if_splits)

lemma toTaskModelSchedMode_ok: "(\<exists>k. toTaskModelSchedMode m = Inr k) \<longleftrightarrow> m \<noteq> SchedModeNil"
  by (cases m) (auto simp: toTaskModelSchedMode_def)

lemma toTaskEntitySchedMode_not_nil: "toTaskEntitySchedMode k \<noteq> Inr SchedModeNil"
  by (simp add: toTaskEntitySchedMode_def)

lemma route_to_entity_fields [simp]:
  "rt_id (route_to_entity m) = sprintf_d (bm_Id m)"
  "rt_scheme (route_to_entity m) = rm_SrvSchema m"
  "rt_host (route_to_entity m) = rm_Host m"
  "rt_port (route_to_entity m) = rm_Port m"
  "rt_callbackTimeoutSec (route_to_entity m) = rm_CallbackTimeoutSec m"
  "rt_isEnableHealthCheck (route_to_entity m) = rm_EnableHealthCheck m"
  by (simp_all add: route_to_entity_def new_srv_route_def id_defs)

lemma srv_to_entity_fields [simp]:
  "cs_id (srv_to_entity rs m) = sprintf_d (bm_Id m)"
  "cs_name (srv_to_entity rs m) = sm_Name m"
  "cs_routes (srv_to_entity rs m) = rs"
  "cs_hasEnableHealthCheck (srv_to_entity rs m) = sm_HasEnableHealthCheck m"
  by (simp_all add: srv_to_entity_def new_callback_srv_def id_defs)

end
