(* ===== verification/Sql_Store.thy ===== *)
theory Sql_Store
  imports Data_Model
begin

text \<open>
  The interface between the repositories and the database. The repositories build statements
  with GORM and MySQL executes them; neither is part of this repository, so the statements are
  data (\<open>query\<close>, \<open>assign\<close>, \<open>agg\<close>), their execution is a parameter (\<open>table_ops\<close>, \<open>store\<close>), and
  what the code relies on is the contract \<open>sql_table\<close> / \<open>sql_store\<close>:

  \<^item> a failed statement changes nothing (statement rollback);
  \<^item> \<open>Find\<close>, \<open>Take\<close> and \<open>Count\<close> see the rows that satisfy the conditions, and never a
    soft-deleted one unless the query is \<open>Unscoped\<close>; \<open>Take\<close> answers \<open>RecordNotFound\<close> only when
    there is no such row; without \<open>ORDER BY\<close> the order is unspecified;
  \<^item> \<open>FirstOrCreate\<close> answers an existing row with no rows affected, or inserts;
  \<^item> an insert takes a fresh identifier and is refused when a unique index has the key already;
  \<^item> \<open>Updates\<close> changes exactly the selected rows, and its count lies between the number of rows
    whose contents changed and the number of rows selected (both conventions of the MySQL
    driver); \<open>Delete\<close> marks the selected rows, or removes them when \<open>Unscoped\<close>, and refuses to
    run without a condition.

  Text is compared by the server's collation \<open>co_eq\<close>, an equivalence relation that may identify
  different texts, and an integer column with a text by \<open>co_num\<close>. \<open>clk\<close> is the clock GORM
  stamps rows with. The contract \<open>migrated_store\<close> adds that the tables have exactly the columns
  of the row structs, as after \<open>AutoMigrate\<close> on a fresh database: an update that names another
  column fails.
\<close>

section \<open>Values, conditions and statements\<close>

datatype sqlval =
    VInt int
  | VText string
  | VNull
  | VReqSnap req_snapshot
  | VRespSnap resp_snapshot
  | VErr go_err

abbreviation VId :: "u64 \<Rightarrow> sqlval" where
  "VId w \<equiv> VInt (uint w)"

abbreviation VBool :: "bool \<Rightarrow> sqlval" where
  "VBool b \<equiv> VInt (of_bool b)"

fun val_int :: "sqlval \<Rightarrow> int" where
  "val_int (VInt i) = i"
| "val_int _ = 0"

fun val_text :: "sqlval \<Rightarrow> string" where
  "val_text (VText s) = s"
| "val_text _ = []"

fun val_req :: "sqlval \<Rightarrow> req_snapshot option" where
  "val_req (VReqSnap x) = Some x"
| "val_req _ = None"

fun val_resp :: "sqlval \<Rightarrow> resp_snapshot option" where
  "val_resp (VRespSnap x) = Some x"
| "val_resp _ = None"

abbreviation val_id :: "sqlval \<Rightarrow> u64" where
  "val_id v \<equiv> of_int (val_int v)"

abbreviation val_bool :: "sqlval \<Rightarrow> bool" where
  "val_bool v \<equiv> val_int v \<noteq> 0"

datatype cond =
    CEq db_field sqlval
  | CGt db_field int
  | CLe db_field int
  | CLt db_field int
  | CLtField db_field db_field
  | CLeField db_field db_field
  | CIn db_field "sqlval list"

record query =
  q_unscoped :: bool
  q_conds :: "cond list"
  q_order_id :: bool
  q_limit :: "int option"
  q_offset :: "int option"

definition where_q :: "cond list \<Rightarrow> query" where
  "where_q cs = \<lparr>q_unscoped = False, q_conds = cs, q_order_id = False, q_limit = None, q_offset = None\<rparr>"

definition unscoped_q :: "cond list \<Rightarrow> query" where
  "unscoped_q cs = (where_q cs)\<lparr>q_unscoped := True\<rparr>"

text \<open>The right-hand side of an assignment: a value, or \<open>gorm.Expr("f + ?", n)\<close>.\<close>

datatype sqlexpr = Lit sqlval | FieldPlus db_field int

type_synonym assign = "db_field \<times> sqlexpr"

text \<open>\<open>COUNT(c)\<close> of a constant and \<open>COUNT(IF(f > 0, x, y))\<close>.\<close>

datatype agg = CountConst sqlval | CountIfPos db_field sqlval sqlval

section \<open>Operations on a table\<close>

record ('db, 'r) table_ops =
  op_find :: "query \<Rightarrow> ('db, 'r list) io"
  op_take :: "query \<Rightarrow> ('db, 'r) io"
  op_first_or_create :: "query \<Rightarrow> 'r \<Rightarrow> ('db, 'r \<times> nat) io"
  op_create :: "'r \<Rightarrow> ('db, unit) io"
  op_updates :: "query \<Rightarrow> assign list \<Rightarrow> ('db, nat) io"
  op_delete :: "query \<Rightarrow> ('db, nat) io"
  op_counts :: "query \<Rightarrow> agg list \<Rightarrow> ('db, int list) io"

text \<open>
  \<open>st_delete_untracked\<close> is a \<open>DELETE\<close> on the table GORM derives from a struct that is none of the
  four row structs.
\<close>

record 'db store =
  st_task :: "('db, task_model) table_ops"
  st_srv :: "('db, srv_model) table_ops"
  st_route :: "('db, route_model) table_ops"
  st_log :: "('db, log_model) table_ops"
  st_delete_untracked :: "string \<Rightarrow> query \<Rightarrow> ('db, nat) io"

section \<open>The columns of the four tables\<close>

record 'r schema =
  sc_cols :: "db_field list"
  sc_get :: "db_field \<Rightarrow> 'r \<Rightarrow> sqlval"
  sc_set :: "db_field \<Rightarrow> sqlval \<Rightarrow> 'r \<Rightarrow> 'r"
  sc_unique :: "db_field list"

definition base_cols :: "db_field list" where
  "base_cols = [DbFieldId, DbFieldCreatedAt, DbFieldUpdatedAt, DbFieldDeletedAt]"

definition base_get :: "db_field \<Rightarrow> 'a base_model_scheme \<Rightarrow> sqlval" where
  "base_get f r =
     (case f of
        DbFieldId \<Rightarrow> VId (bm_Id r)
      | DbFieldCreatedAt \<Rightarrow> VInt (bm_CreatedAt r)
      | DbFieldUpdatedAt \<Rightarrow> VInt (bm_UpdatedAt r)
      | DbFieldDeletedAt \<Rightarrow> VInt (bm_DeletedAt r)
      | _ \<Rightarrow> VNull)"

definition base_set :: "db_field \<Rightarrow> sqlval \<Rightarrow> 'a base_model_scheme \<Rightarrow> 'a base_model_scheme" where
  "base_set f v r =
     (case f of
        DbFieldId \<Rightarrow> r\<lparr>bm_Id := val_id v\<rparr>
      | DbFieldCreatedAt \<Rightarrow> r\<lparr>bm_CreatedAt := val_int v\<rparr>
      | DbFieldUpdatedAt \<Rightarrow> r\<lparr>bm_UpdatedAt := val_int v\<rparr>
      | DbFieldDeletedAt \<Rightarrow> r\<lparr>bm_DeletedAt := val_int v\<rparr>
      | _ \<Rightarrow> r)"

definition task_get :: "db_field \<Rightarrow> task_model \<Rightarrow> sqlval" where
  "task_get f r =
     (case f of
        DbFieldName \<Rightarrow> VText (tm_Name r)
      | DbFieldArg \<Rightarrow> VText (tm_Arg r)
      | DbFieldLastRunAt \<Rightarrow> VInt (tm_LastRunAt r)
      | DbFieldPlanSchedNextAt \<Rightarrow> VInt (tm_PlanSchedNextAt r)
      | DbFieldTimeCronExpr \<Rightarrow> VText (tm_TimeCronExpr r)
      | DbFieldTimeIntervalSec \<Rightarrow> VInt (tm_TimeIntervalSec r)
      | DbFieldSchedMode \<Rightarrow> VInt (tm_SchedMode r)
      | DbFieldCallbackSrvId \<Rightarrow> VId (tm_CallbackSrvId r)
      | DbFieldRunTimes \<Rightarrow> VInt (tm_RunTimes r)
      | DbFieldAllowMaxRunTimes \<Rightarrow> VInt (tm_AllowMaxRunTimes r)
      | DbFieldMaxRunTimeSec \<Rightarrow> VInt (tm_MaxRunTimeSec r)
      | DbFieldCallbackPath \<Rightarrow> VText (tm_CallbackPath r)
      | DbFieldBizId \<Rightarrow> VText (tm_BizId r)
      | _ \<Rightarrow> base_get f r)"

definition task_set :: "db_field \<Rightarrow> sqlval \<Rightarrow> task_model \<Rightarrow> task_model" where
  "task_set f v r =
     (case f of
        DbFieldName \<Rightarrow> r\<lparr>tm_Name := val_text v\<rparr>
      | DbFieldArg \<Rightarrow> r\<lparr>tm_Arg := val_text v\<rparr>
      | DbFieldLastRunAt \<Rightarrow> r\<lparr>tm_LastRunAt := val_int v\<rparr>
      | DbFieldPlanSchedNextAt \<Rightarrow> r\<lparr>tm_PlanSchedNextAt := val_int v\<rparr>
      | DbFieldTimeCronExpr \<Rightarrow> r\<lparr>tm_TimeCronExpr := val_text v\<rparr>
      | DbFieldTimeIntervalSec \<Rightarrow> r\<lparr>tm_TimeIntervalSec := val_int v\<rparr>
      | DbFieldSchedMode \<Rightarrow> r\<lparr>tm_SchedMode := val_int v\<rparr>
      | DbFieldCallbackSrvId \<Rightarrow> r\<lparr>tm_CallbackSrvId := val_id v\<rparr>
      | DbFieldRunTimes \<Rightarrow> r\<lparr>tm_RunTimes := val_int v\<rparr>
      | DbFieldAllowMaxRunTimes \<Rightarrow> r\<lparr>tm_AllowMaxRunTimes := val_int v\<rparr>
      | DbFieldMaxRunTimeSec \<Rightarrow> r\<lparr>tm_MaxRunTimeSec := val_int v\<rparr>
      | DbFieldCallbackPath \<Rightarrow> r\<lparr>tm_CallbackPath := val_text v\<rparr>
      | DbFieldBizId \<Rightarrow> r\<lparr>tm_BizId := val_text v\<rparr>
      | _ \<Rightarrow> base_set f v r)"

definition task_schema :: "task_model schema" where
  "task_schema =
     \<lparr>sc_cols = base_cols @
        [DbFieldName, DbFieldArg, DbFieldLastRunAt, DbFieldPlanSchedNextAt, DbFieldTimeCronExpr,
         DbFieldTimeIntervalSec, DbFieldSchedMode, DbFieldCallbackSrvId, DbFieldRunTimes,
         DbFieldAllowMaxRunTimes, DbFieldMaxRunTimeSec, DbFieldCallbackPath, DbFieldBizId],
      sc_get = task_get, sc_set = task_set, sc_unique = [DbFieldName, DbFieldBizId]\<rparr>"

definition srv_get :: "db_field \<Rightarrow> srv_model \<Rightarrow> sqlval" where
  "srv_get f r =
     (case f of
        DbFieldName \<Rightarrow> VText (sm_Name r)
      | DbFieldCheckedHealthAt \<Rightarrow> VInt (sm_CheckedHealthAt r)
      | DbFieldHasEnableHealthCheck \<Rightarrow> VBool (sm_HasEnableHealthCheck r)
      | _ \<Rightarrow> base_get f r)"

definition srv_set :: "db_field \<Rightarrow> sqlval \<Rightarrow> srv_model \<Rightarrow> srv_model" where
  "srv_set f v r =
     (case f of
        DbFieldName \<Rightarrow> r\<lparr>sm_Name := val_text v\<rparr>
      | DbFieldCheckedHealthAt \<Rightarrow> r\<lparr>sm_CheckedHealthAt := val_int v\<rparr>
      | DbFieldHasEnableHealthCheck \<Rightarrow> r\<lparr>sm_HasEnableHealthCheck := val_bool v\<rparr>
      | _ \<Rightarrow> base_set f v r)"

definition srv_schema :: "srv_model schema" where
  "srv_schema =
     \<lparr>sc_cols = base_cols @ [DbFieldName, DbFieldCheckedHealthAt, DbFieldHasEnableHealthCheck],
      sc_get = srv_get, sc_set = srv_set, sc_unique = [DbFieldName]\<rparr>"

definition route_get :: "db_field \<Rightarrow> route_model \<Rightarrow> sqlval" where
  "route_get f r =
     (case f of
        DbFieldSrvSchema \<Rightarrow> VText (rm_SrvSchema r)
      | DbFieldHost \<Rightarrow> VText (rm_Host r)
      | DbFieldPort \<Rightarrow> VInt (rm_Port r)
      | DbFieldSrvId \<Rightarrow> VId (rm_SrvId r)
      | DbFieldCallbackTimeoutSec \<Rightarrow> VInt (rm_CallbackTimeoutSec r)
      | DbFieldCheckedHealthAt \<Rightarrow> VInt (rm_CheckedHealthAt r)
      | DbFieldEnableHealthCheck \<Rightarrow> VBool (rm_EnableHealthCheck r)
      | _ \<Rightarrow> base_get f r)"

definition route_set :: "db_field \<Rightarrow> sqlval \<Rightarrow> route_model \<Rightarrow> route_model" where
  "route_set f v r =
     (case f of
        DbFieldSrvSchema \<Rightarrow> r\<lparr>rm_SrvSchema := val_text v\<rparr>
      | DbFieldHost \<Rightarrow> r\<lparr>rm_Host := val_text v\<rparr>
      | DbFieldPort \<Rightarrow> r\<lparr>rm_Port := val_int v\<rparr>
      | DbFieldSrvId \<Rightarrow> r\<lparr>rm_SrvId := val_id v\<rparr>
      | DbFieldCallbackTimeoutSec \<Rightarrow> r\<lparr>rm_CallbackTimeoutSec := val_int v\<rparr>
      | DbFieldCheckedHealthAt \<Rightarrow> r\<lparr>rm_CheckedHealthAt := val_int v\<rparr>
      | DbFieldEnableHealthCheck \<Rightarrow> r\<lparr>rm_EnableHealthCheck := val_bool v\<rparr>
      | _ \<Rightarrow> base_set f v r)"

definition route_schema :: "route_model schema" where
  "route_schema =
     \<lparr>sc_cols = base_cols @
        [DbFieldSrvSchema, DbFieldHost, DbFieldPort, DbFieldSrvId, DbFieldCallbackTimeoutSec,
         DbFieldCheckedHealthAt, DbFieldEnableHealthCheck],
      sc_get = route_get, sc_set = route_set,
      sc_unique = [DbFieldSrvSchema, DbFieldHost, DbFieldPort, DbFieldSrvId]\<rparr>"

definition log_get :: "db_field \<Rightarrow> log_model \<Rightarrow> sqlval" where
  "log_get f r =
     (case f of
        DbFieldTaskId \<Rightarrow> VId (lm_TaskId r)
      | DbFieldStartedAt \<Rightarrow> VInt (lm_StartedAt r)
      | DbFieldEndedAt \<Rightarrow> VInt (lm_EndedAt r)
      | DbFieldTaskStatus \<Rightarrow> VInt (lm_TaskStatus r)
      | DbFieldIsRunInAsync \<Rightarrow> VBool (lm_IsRunInAsync r)
      | DbFieldRespExtra \<Rightarrow> VText (lm_RespExtra r)
      | DbFieldRunTimes \<Rightarrow> VInt (lm_RunTimes r)
      | DbFieldSrvId \<Rightarrow> VId (lm_SrvId r)
      | DbFieldReqSnapshot \<Rightarrow> (case lm_ReqSnapshot r of None \<Rightarrow> VNull | Some x \<Rightarrow> VReqSnap x)
      | DbFieldRespSnapshot \<Rightarrow> (case lm_RespSnapshot r of None \<Rightarrow> VNull | Some x \<Rightarrow> VRespSnap x)
      | DbFieldCallbackErr \<Rightarrow> VText (lm_CallbackErr r)
      | _ \<Rightarrow> base_get f r)"

definition log_set :: "db_field \<Rightarrow> sqlval \<Rightarrow> log_model \<Rightarrow> log_model" where
  "log_set f v r =
     (case f of
        DbFieldTaskId \<Rightarrow> r\<lparr>lm_TaskId := val_id v\<rparr>
      | DbFieldStartedAt \<Rightarrow> r\<lparr>lm_StartedAt := val_int v\<rparr>
      | DbFieldEndedAt \<Rightarrow> r\<lparr>lm_EndedAt := val_int v\<rparr>
      | DbFieldTaskStatus \<Rightarrow> r\<lparr>lm_TaskStatus := val_int v\<rparr>
      | DbFieldIsRunInAsync \<Rightarrow> r\<lparr>lm_IsRunInAsync := val_bool v\<rparr>
      | DbFieldRespExtra \<Rightarrow> r\<lparr>lm_RespExtra := val_text v\<rparr>
      | DbFieldRunTimes \<Rightarrow> r\<lparr>lm_RunTimes := val_int v\<rparr>
      | DbFieldSrvId \<Rightarrow> r\<lparr>lm_SrvId := val_id v\<rparr>
      | DbFieldReqSnapshot \<Rightarrow> r\<lparr>lm_ReqSnapshot := val_req v\<rparr>
      | DbFieldRespSnapshot \<Rightarrow> r\<lparr>lm_RespSnapshot := val_resp v\<rparr>
      | DbFieldCallbackErr \<Rightarrow> r\<lparr>lm_CallbackErr := val_text v\<rparr>
      | _ \<Rightarrow> base_set f v r)"

definition log_schema :: "log_model schema" where
  "log_schema =
     \<lparr>sc_cols = base_cols @
        [DbFieldTaskId, DbFieldStartedAt, DbFieldEndedAt, DbFieldTaskStatus, DbFieldIsRunInAsync,
         DbFieldRespExtra, DbFieldRunTimes, DbFieldSrvId, DbFieldReqSnapshot, DbFieldRespSnapshot,
         DbFieldCallbackErr],
      sc_get = log_get, sc_set = log_set, sc_unique = [DbFieldTaskId, DbFieldRunTimes]\<rparr>"

end
