(* ===== verification/Sql_Contract.thy ===== *)
theory Sql_Contract
  imports Sql_Store
begin

text \<open>
  The meaning of the statements of \<open>Sql_Store\<close> over a list of rows, and the contract of the
  database in terms of it: \<open>sql_table\<close> for one table, \<open>sql_store\<close> for the four tables of the
  program (a statement on one table leaves the other three alone), \<open>migrated_store\<close> for tables
  that have exactly the columns of the row structs. The lemmas of the repositories are proved
  inside \<open>sql_store\<close>; \<open>Mem_Store\<close> shows that the contract can be met.
\<close>

section \<open>Meaning of the statements\<close>

record collation =
  co_eq :: "string \<Rightarrow> string \<Rightarrow> bool"
  co_num :: "int \<Rightarrow> string \<Rightarrow> bool"

fun sql_eq :: "collation \<Rightarrow> sqlval \<Rightarrow> sqlval \<Rightarrow> bool" where
  "sql_eq co (VInt a) (VInt b) = (a = b)"
| "sql_eq co (VText a) (VText b) = co_eq co a b"
| "sql_eq co (VInt a) (VText b) = co_num co a b"
| "sql_eq co _ _ = False"

fun holds :: "collation \<Rightarrow> 'r schema \<Rightarrow> 'r \<Rightarrow> cond \<Rightarrow> bool" where
  "holds co sch r (CEq f v) = sql_eq co (sc_get sch f r) v"
| "holds co sch r (CGt f n) = (val_int (sc_get sch f r) > n)"
| "holds co sch r (CLe f n) = (val_int (sc_get sch f r) \<le> n)"
| "holds co sch r (CLt f n) = (val_int (sc_get sch f r) < n)"
| "holds co sch r (CLtField f g) = (val_int (sc_get sch f r) < val_int (sc_get sch g r))"
| "holds co sch r (CLeField f g) = (val_int (sc_get sch f r) \<le> val_int (sc_get sch g r))"
| "holds co sch r (CIn f vs) = list_ex (sql_eq co (sc_get sch f r)) vs"

definition selected ::
    "collation \<Rightarrow> 'a base_model_scheme schema \<Rightarrow> query \<Rightarrow> 'a base_model_scheme \<Rightarrow> bool" where
  "selected co sch q r \<longleftrightarrow>
     (q_unscoped q \<or> bm_DeletedAt r = 0) \<and> list_all (holds co sch r) (q_conds q)"

definition page :: "query \<Rightarrow> 'r list \<Rightarrow> 'r list" where
  "page q xs =
     (let ys = (case q_offset q of Some n \<Rightarrow> drop (nat n) xs | None \<Rightarrow> xs)
      in case q_limit q of Some n \<Rightarrow> (if n > 0 then take (nat n) ys else ys) | None \<Rightarrow> ys)"

definition find_result ::
    "collation \<Rightarrow> 'a base_model_scheme schema \<Rightarrow> query \<Rightarrow> 'a base_model_scheme list \<Rightarrow>
       'a base_model_scheme list \<Rightarrow> bool" where
  "find_result co sch q R rs \<longleftrightarrow>
     (\<exists>xs. mset xs = mset (filter (selected co sch q) R) \<and>
           (q_order_id q \<longrightarrow> sorted (map bm_Id xs)) \<and> rs = page q xs)"

fun eval_expr :: "'r schema \<Rightarrow> 'r \<Rightarrow> sqlexpr \<Rightarrow> sqlval" where
  "eval_expr sch r (Lit v) = v"
| "eval_expr sch r (FieldPlus f n) = VInt (val_int (sc_get sch f r) + n)"

text \<open>
  The right-hand sides are evaluated on the old row. MySQL assigns from left to right; the two
  agree here because no expression of the program reads a column that another one assigns.
\<close>

definition apply_sets :: "'r schema \<Rightarrow> assign list \<Rightarrow> 'r \<Rightarrow> 'r" where
  "apply_sets sch as r = fold (\<lambda>(f, e) x. sc_set sch f (eval_expr sch r e) x) as r"

definition upd_row ::
    "'a base_model_scheme schema \<Rightarrow> int \<Rightarrow> assign list \<Rightarrow> 'a base_model_scheme \<Rightarrow>
       'a base_model_scheme" where
  "upd_row sch now as r = (apply_sets sch as r)\<lparr>bm_UpdatedAt := now\<rparr>"

definition upd_rows ::
    "collation \<Rightarrow> 'a base_model_scheme schema \<Rightarrow> int \<Rightarrow> query \<Rightarrow> assign list \<Rightarrow>
       'a base_model_scheme list \<Rightarrow> 'a base_model_scheme list" where
  "upd_rows co sch now q as R = map (\<lambda>r. if selected co sch q r then upd_row sch now as r else r) R"

definition del_rows ::
    "collation \<Rightarrow> 'a base_model_scheme schema \<Rightarrow> int \<Rightarrow> query \<Rightarrow> 'a base_model_scheme list \<Rightarrow>
       'a base_model_scheme list" where
  "del_rows co sch now q R =
     (if q_unscoped q then filter (\<lambda>r. \<not> selected co sch q r) R
      else map (\<lambda>r. if selected co sch q r then r\<lparr>bm_DeletedAt := now\<rparr> else r) R)"

definition same_key ::
    "collation \<Rightarrow> 'r schema \<Rightarrow> 'r \<Rightarrow> 'r \<Rightarrow> bool" where
  "same_key co sch x y \<longleftrightarrow> list_all (\<lambda>f. sql_eq co (sc_get sch f x) (sc_get sch f y)) (sc_unique sch)"

definition stamped :: "u64 \<Rightarrow> int \<Rightarrow> 'a base_model_scheme \<Rightarrow> 'a base_model_scheme" where
  "stamped i now x = x\<lparr>bm_Id := i, bm_CreatedAt := now, bm_UpdatedAt := now\<rparr>"

fun agg_val :: "'r schema \<Rightarrow> agg \<Rightarrow> 'r \<Rightarrow> sqlval" where
  "agg_val sch (CountConst v) r = v"
| "agg_val sch (CountIfPos f x y) r = (if val_int (sc_get sch f r) > 0 then x else y)"

text \<open>\<open>COUNT\<close> counts the rows for which its argument is not \<open>NULL\<close>.\<close>

definition count_agg :: "'r schema \<Rightarrow> 'r list \<Rightarrow> agg \<Rightarrow> int" where
  "count_agg sch R a = int (length (filter (\<lambda>r. agg_val sch a r \<noteq> VNull) R))"

definition collation_law :: "collation \<Rightarrow> bool" where
  "collation_law co \<longleftrightarrow>
     equivp (co_eq co) \<and>
     (\<forall>i w. uint w < 2 ^ 53 \<longrightarrow> co_num co i (sprintf_d w) = (i = uint w))"

definition unchanged :: "('db \<Rightarrow> 'x) \<Rightarrow> ('db \<Rightarrow> 'y) \<Rightarrow> 'db \<Rightarrow> 'db \<Rightarrow> bool" where
  "unchanged rows rest db db' \<longleftrightarrow> rows db' = rows db \<and> rest db' = rest db"

section \<open>The contract of one table\<close>

locale sql_table =
  fixes T :: "('db, 'a base_model_scheme) table_ops"
    and sch :: "'a base_model_scheme schema"
    and co :: collation
    and clk :: "'db \<Rightarrow> int"
    and rows :: "'db \<Rightarrow> 'a base_model_scheme list"
    and rest :: "'db \<Rightarrow> 'f"
  assumes find_err: "op_find T q db = (Inl e, db') \<Longrightarrow> unchanged rows rest db db'"
    and find_ok: "op_find T q db = (Inr rs, db') \<Longrightarrow>
      unchanged rows rest db db' \<and> (q_limit q \<noteq> Some 0 \<longrightarrow> find_result co sch q (rows db) rs)"
    and take_err: "op_take T q db = (Inl e, db') \<Longrightarrow>
      unchanged rows rest db db' \<and>
      (e = RecordNotFound \<longrightarrow> filter (selected co sch q) (rows db) = [])"
    and take_ok: "op_take T q db = (Inr r, db') \<Longrightarrow>
      unchanged rows rest db db' \<and> r \<in> set (rows db) \<and> selected co sch q r"
    and first_or_create_err: "op_first_or_create T q x db = (Inl e, db') \<Longrightarrow>
      unchanged rows rest db db'"
    and first_or_create_ok: "op_first_or_create T q x db = (Inr (r, n), db') \<Longrightarrow>
      (n = 0 \<and> r \<in> set (rows db) \<and> selected co sch q r \<and> unchanged rows rest db db') \<or>
      (n = 1 \<and> filter (selected co sch q) (rows db) = [] \<and>
       (\<exists>i. i \<noteq> 0 \<and> i \<notin> bm_Id ` set (rows db) \<and> r = stamped i (clk db) x) \<and>
       (\<forall>y \<in> set (rows db). \<not> same_key co sch y x) \<and>
       rows db' = rows db @ [r] \<and> rest db' = rest db)"
    and create_err: "op_create T x db = (Inl e, db') \<Longrightarrow> unchanged rows rest db db'"
    and create_ok: "op_create T x db = (Inr u, db') \<Longrightarrow>
      (\<exists>i. i \<noteq> 0 \<and> i \<notin> bm_Id ` set (rows db) \<and> rows db' = rows db @ [stamped i (clk db) x]) \<and>
      (\<forall>y \<in> set (rows db). \<not> same_key co sch y x) \<and> rest db' = rest db"
    and updates_err: "op_updates T q as db = (Inl e, db') \<Longrightarrow> unchanged rows rest db db'"
    and updates_ok: "op_updates T q as db = (Inr n, db') \<Longrightarrow>
      rows db' = upd_rows co sch (clk db) q as (rows db) \<and> rest db' = rest db \<and>
      length (filter (\<lambda>r. selected co sch q r \<and> upd_row sch (clk db) as r \<noteq> r) (rows db)) \<le> n \<and>
      n \<le> length (filter (selected co sch q) (rows db))"
    and delete_err: "op_delete T q db = (Inl e, db') \<Longrightarrow> unchanged rows rest db db'"
    and delete_ok: "op_delete T q db = (Inr n, db') \<Longrightarrow>
      q_conds q \<noteq> [] \<and> rows db' = del_rows co sch (clk db) q (rows db) \<and> rest db' = rest db"
    and counts_err: "op_counts T q aggs db = (Inl e, db') \<Longrightarrow> unchanged rows rest db db'"
    and counts_ok: "op_counts T q aggs db = (Inr ns, db') \<Longrightarrow>
      unchanged rows rest db db' \<and>
      ns = map (count_agg sch (filter (selected co sch q) (rows db))) aggs"
    and clk_pos: "0 < clk db"

section \<open>The contract of the store\<close>

record tables =
  tb_task :: "task_model list"
  tb_srv :: "srv_model list"
  tb_route :: "route_model list"
  tb_log :: "log_model list"

locale sql_store =
  tk: sql_table "st_task S" task_schema co clk "\<lambda>db. tb_task (view db)" "\<lambda>db. (view db)\<lparr>tb_task := []\<rparr>" +
  sv: sql_table "st_srv S" srv_schema co clk "\<lambda>db. tb_srv (view db)" "\<lambda>db. (view db)\<lparr>tb_srv := []\<rparr>" +
  rt: sql_table "st_route S" route_schema co clk "\<lambda>db. tb_route (view db)" "\<lambda>db. (view db)\<lparr>tb_route := []\<rparr>" +
  lg: sql_table "st_log S" log_schema co clk "\<lambda>db. tb_log (view db)" "\<lambda>db. (view db)\<lparr>tb_log := []\<rparr>"
  for S :: "'db store" and co :: collation and clk :: "'db \<Rightarrow> int" and view :: "'db \<Rightarrow> tables" +
  assumes collation: "collation_law co"
    and delete_untracked: "st_delete_untracked S tab q db = (r, db') \<Longrightarrow> view db' = view db"

locale migrated_store = sql_store +
  assumes unknown_task_column: "\<exists>(f, e) \<in> set as. f \<notin> set (sc_cols task_schema) \<Longrightarrow>
      \<exists>e. fst (op_updates (st_task S) q as db) = Inl e"

section \<open>Lemmas on the meaning of the statements\<close>

lemmas schema_defs =
  task_schema_def srv_schema_def route_schema_def log_schema_def

lemmas get_defs =
  task_get_def srv_get_def route_get_def log_get_def base_get_def

lemmas set_defs =
  task_set_def srv_set_def route_set_def log_set_def base_set_def

lemma task_col_get [simp]:
  "sc_get task_schema DbFieldId r = VId (bm_Id r)"
  "sc_get task_schema DbFieldCreatedAt r = VInt (bm_CreatedAt r)"
  "sc_get task_schema DbFieldUpdatedAt r = VInt (bm_UpdatedAt r)"
  "sc_get task_schema DbFieldDeletedAt r = VInt (bm_DeletedAt r)"
  "sc_get task_schema DbFieldName r = VText (tm_Name r)"
  "sc_get task_schema DbFieldArg r = VText (tm_Arg r)"
  "sc_get task_schema DbFieldLastRunAt r = VInt (tm_LastRunAt r)"
  "sc_get task_schema DbFieldPlanSchedNextAt r = VInt (tm_PlanSchedNextAt r)"
  "sc_get task_schema DbFieldTimeCronExpr r = VText (tm_TimeCronExpr r)"
  "sc_get task_schema DbFieldTimeIntervalSec r = VInt (tm_TimeIntervalSec r)"
  "sc_get task_schema DbFieldSchedMode r = VInt (tm_SchedMode r)"
  "sc_get task_schema DbFieldCallbackSrvId r = VId (tm_CallbackSrvId r)"
  "sc_get task_schema DbFieldRunTimes r = VInt (tm_RunTimes r)"
  "sc_get task_schema DbFieldAllowMaxRunTimes r = VInt (tm_AllowMaxRunTimes r)"
  "sc_get task_schema DbFieldMaxRunTimeSec r = VInt (tm_MaxRunTimeSec r)"
  "sc_get task_schema DbFieldCallbackPath r = VText (tm_CallbackPath r)"
  "sc_get task_schema DbFieldBizId r = VText (tm_BizId r)"
  by (simp_all add: task_schema_def task_get_def base_get_def)

lemma task_col_set [simp]:
  "sc_set task_schema DbFieldId v r = r\<lparr>bm_Id := val_id v\<rparr>"
  "sc_set task_schema DbFieldCreatedAt v r = r\<lparr>bm_CreatedAt := val_int v\<rparr>"
  "sc_set task_schema DbFieldUpdatedAt v r = r\<lparr>bm_UpdatedAt := val_int v\<rparr>"
  "sc_set task_schema DbFieldDeletedAt v r = r\<lparr>bm_DeletedAt := val_int v\<rparr>"
  "sc_set task_schema DbFieldName v r = r\<lparr>tm_Name := val_text v\<rparr>"
  "sc_set task_schema DbFieldArg v r = r\<lparr>tm_Arg := val_text v\<rparr>"
  "sc_set task_schema DbFieldLastRunAt v r = r\<lparr>tm_LastRunAt := val_int v\<rparr>"
  "sc_set task_schema DbFieldPlanSchedNextAt v r = r\<lparr>tm_PlanSchedNextAt := val_int v\<rparr>"
  "sc_set task_schema DbFieldTimeCronExpr v r = r\<lparr>tm_TimeCronExpr := val_text v\<rparr>"
  "sc_set task_schema DbFieldTimeIntervalSec v r = r\<lparr>tm_TimeIntervalSec := val_int v\<rparr>"
  "sc_set task_schema DbFieldSchedMode v r = r\<lparr>tm_SchedMode := val_int v\<rparr>"
  "sc_set task_schema DbFieldCallbackSrvId v r = r\<lparr>tm_CallbackSrvId := val_id v\<rparr>"
  "sc_set task_schema DbFieldRunTimes v r = r\<lparr>tm_RunTimes := val_int v\<rparr>"
  "sc_set task_schema DbFieldAllowMaxRunTimes v r = r\<lparr>tm_AllowMaxRunTimes := val_int v\<rparr>"
  "sc_set task_schema DbFieldMaxRunTimeSec v r = r\<lparr>tm_MaxRunTimeSec := val_int v\<rparr>"
  "sc_set task_schema DbFieldCallbackPath v r = r\<lparr>tm_CallbackPath := val_text v\<rparr>"
  "sc_set task_schema DbFieldBizId v r = r\<lparr>tm_BizId := val_text v\<rparr>"
  by (simp_all add: task_schema_def task_set_def base_set_def)

lemma srv_col_get [simp]:
  "sc_get srv_schema DbFieldId r = VId (bm_Id r)"
  "sc_get srv_schema DbFieldCreatedAt r = VInt (bm_CreatedAt r)"
  "sc_get srv_schema DbFieldUpdatedAt r = VInt (bm_UpdatedAt r)"
  "sc_get srv_schema DbFieldDeletedAt r = VInt (bm_DeletedAt r)"
  "sc_get srv_schema DbFieldName r = VText (sm_Name r)"
  "sc_get srv_schema DbFieldCheckedHealthAt r = VInt (sm_CheckedHealthAt r)"
  "sc_get srv_schema DbFieldHasEnableHealthCheck r = VBool (sm_HasEnableHealthCheck r)"
  by (simp_all add: srv_schema_def srv_get_def base_get_def)

lemma srv_col_set [simp]:
  "sc_set srv_schema DbFieldId v r = r\<lparr>bm_Id := val_id v\<rparr>"
  "sc_set srv_schema DbFieldCreatedAt v r = r\<lparr>bm_CreatedAt := val_int v\<rparr>"
  "sc_set srv_schema DbFieldUpdatedAt v r = r\<lparr>bm_UpdatedAt := val_int v\<rparr>"
  "sc_set srv_schema DbFieldDeletedAt v r = r\<lparr>bm_DeletedAt := val_int v\<rparr>"
  "sc_set srv_schema DbFieldName v r = r\<lparr>sm_Name := val_text v\<rparr>"
  "sc_set srv_schema DbFieldCheckedHealthAt v r = r\<lparr>sm_CheckedHealthAt := val_int v\<rparr>"
  "sc_set srv_schema DbFieldHasEnableHealthCheck v r = r\<lparr>sm_HasEnableHealthCheck := val_bool v\<rparr>"
  by (simp_all add: srv_schema_def srv_set_def base_set_def)

lemma route_col_get [simp]:
  "sc_get route_schema DbFieldId r = VId (bm_Id r)"
  "sc_get route_schema DbFieldCreatedAt r = VInt (bm_CreatedAt r)"
  "sc_get route_schema DbFieldUpdatedAt r = VInt (bm_UpdatedAt r)"
  "sc_get route_schema DbFieldDeletedAt r = VInt (bm_DeletedAt r)"
  "sc_get route_schema DbFieldSrvSchema r = VText (rm_SrvSchema r)"
  "sc_get route_schema DbFieldHost r = VText (rm_Host r)"
  "sc_get route_schema DbFieldPort r = VInt (rm_Port r)"
  "sc_get route_schema DbFieldSrvId r = VId (rm_SrvId r)"
  "sc_get route_schema DbFieldCallbackTimeoutSec r = VInt (rm_CallbackTimeoutSec r)"
  "sc_get route_schema DbFieldCheckedHealthAt r = VInt (rm_CheckedHealthAt r)"
  "sc_get route_schema DbFieldEnableHealthCheck r = VBool (rm_EnableHealthCheck r)"
  by (simp_all add: route_schema_def route_get_def base_get_def)

lemma route_col_set [simp]:
  "sc_set route_schema DbFieldId v r = r\<lparr>bm_Id := val_id v\<rparr>"
  "sc_set route_schema DbFieldCreatedAt v r = r\<lparr>bm_CreatedAt := val_int v\<rparr>"
  "sc_set route_schema DbFieldUpdatedAt v r = r\<lparr>bm_UpdatedAt := val_int v\<rparr>"
  "sc_set route_schema DbFieldDeletedAt v r = r\<lparr>bm_DeletedAt := val_int v\<rparr>"
  "sc_set route_schema DbFieldSrvSchema v r = r\<lparr>rm_SrvSchema := val_text v\<rparr>"
  "sc_set route_schema DbFieldHost v r = r\<lparr>rm_Host := val_text v\<rparr>"
  "sc_set route_schema DbFieldPort v r = r\<lparr>rm_Port := val_int v\<rparr>"
  "sc_set route_schema DbFieldSrvId v r = r\<lparr>rm_SrvId := val_id v\<rparr>"
  "sc_set route_schema DbFieldCallbackTimeoutSec v r = r\<lparr>rm_CallbackTimeoutSec := val_int v\<rparr>"
  "sc_set route_schema DbFieldCheckedHealthAt v r = r\<lparr>rm_CheckedHealthAt := val_int v\<rparr>"
  "sc_set route_schema DbFieldEnableHealthCheck v r = r\<lparr>rm_EnableHealthCheck := val_bool v\<rparr>"
  by (simp_all add: route_schema_def route_set_def base_set_def)

lemma log_col_get [simp]:
  "sc_get log_schema DbFieldId r = VId (bm_Id r)"
  "sc_get log_schema DbFieldCreatedAt r = VInt (bm_CreatedAt r)"
  "sc_get log_schema DbFieldUpdatedAt r = VInt (bm_UpdatedAt r)"
  "sc_get log_schema DbFieldDeletedAt r = VInt (bm_DeletedAt r)"
  "sc_get log_schema DbFieldTaskId r = VId (lm_TaskId r)"
  "sc_get log_schema DbFieldStartedAt r = VInt (lm_StartedAt r)"
  "sc_get log_schema DbFieldEndedAt r = VInt (lm_EndedAt r)"
  "sc_get log_schema DbFieldTaskStatus r = VInt (lm_TaskStatus r)"
  "sc_get log_schema DbFieldIsRunInAsync r = VBool (lm_IsRunInAsync r)"
  "sc_get log_schema DbFieldRespExtra r = VText (lm_RespExtra r)"
  "sc_get log_schema DbFieldRunTimes r = VInt (lm_RunTimes r)"
  "sc_get log_schema DbFieldSrvId r = VId (lm_SrvId r)"
  "sc_get log_schema DbFieldReqSnapshot r = (case lm_ReqSnapshot r of None \<Rightarrow> VNull | Some x \<Rightarrow> VReqSnap x)"
  "sc_get log_schema DbFieldRespSnapshot r = (case lm_RespSnapshot r of None \<Rightarrow> VNull | Some x \<Rightarrow> VRespSnap x)"
  "sc_get log_schema DbFieldCallbackErr r = VText (lm_CallbackErr r)"
  by (simp_all add: log_schema_def log_get_def base_get_def)

lemma log_col_set [simp]:
  "sc_set log_schema DbFieldId v r = r\<lparr>bm_Id := val_id v\<rparr>"
  "sc_set log_schema DbFieldCreatedAt v r = r\<lparr>bm_CreatedAt := val_int v\<rparr>"
  "sc_set log_schema DbFieldUpdatedAt v r = r\<lparr>bm_UpdatedAt := val_int v\<rparr>"
  "sc_set log_schema DbFieldDeletedAt v r = r\<lparr>bm_DeletedAt := val_int v\<rparr>"
  "sc_set log_schema DbFieldTaskId v r = r\<lparr>lm_TaskId := val_id v\<rparr>"
  "sc_set log_schema DbFieldStartedAt v r = r\<lparr>lm_StartedAt := val_int v\<rparr>"
  "sc_set log_schema DbFieldEndedAt v r = r\<lparr>lm_EndedAt := val_int v\<rparr>"
  "sc_set log_schema DbFieldTaskStatus v r = r\<lparr>lm_TaskStatus := val_int v\<rparr>"
  "sc_set log_schema DbFieldIsRunInAsync v r = r\<lparr>lm_IsRunInAsync := val_bool v\<rparr>"
  "sc_set log_schema DbFieldRespExtra v r = r\<lparr>lm_RespExtra := val_text v\<rparr>"
  "sc_set log_schema DbFieldRunTimes v r = r\<lparr>lm_RunTimes := val_int v\<rparr>"
  "sc_set log_schema DbFieldSrvId v r = r\<lparr>lm_SrvId := val_id v\<rparr>"
  "sc_set log_schema DbFieldReqSnapshot v r = r\<lparr>lm_ReqSnapshot := val_req v\<rparr>"
  "sc_set log_schema DbFieldRespSnapshot v r = r\<lparr>lm_RespSnapshot := val_resp v\<rparr>"
  "sc_set log_schema DbFieldCallbackErr v r = r\<lparr>lm_CallbackErr := val_text v\<rparr>"
  by (simp_all add: log_schema_def log_set_def base_set_def)

lemma where_q_simps [simp]:
  "q_unscoped (where_q cs) = False" "q_conds (where_q cs) = cs" "q_order_id (where_q cs) = False"
  "q_limit (where_q cs) = None" "q_offset (where_q cs) = None"
  "q_unscoped (unscoped_q cs) = True" "q_conds (unscoped_q cs) = cs"
  "q_order_id (unscoped_q cs) = False" "q_limit (unscoped_q cs) = None"
  "q_offset (unscoped_q cs) = None"
  by (simp_all add: where_q_def unscoped_q_def)

lemma selected_where [simp]:
  "selected co sch (where_q cs) r \<longleftrightarrow> bm_DeletedAt r = 0 \<and> list_all (holds co sch r) cs"
  "selected co sch (unscoped_q cs) r \<longleftrightarrow> list_all (holds co sch r) cs"
  by (simp_all add: selected_def)

lemma uint_eq_iff_u64 [simp]: "uint (v :: u64) = uint w \<longleftrightarrow> v = w"
  by (rule word_uint_eq_iff [symmetric])

lemma apply_sets_Nil [simp]: "apply_sets sch [] r = r"
  by (simp add: apply_sets_def)

lemma find_result_set:
  "find_result co sch q R rs \<Longrightarrow> r \<in> set rs \<Longrightarrow> r \<in> set R \<and> selected co sch q r"
proof -
  assume "find_result co sch q R rs" and r: "r \<in> set rs"
  then obtain xs where xs: "mset xs = mset (filter (selected co sch q) R)" "rs = page q xs"
    by (auto simp: find_result_def)
  have "set (page q xs) \<subseteq> set xs"
    by (auto simp: page_def Let_def split: option.splits if_splits dest: in_set_takeD in_set_dropD)
  with r xs(2) have "r \<in> set xs" by auto
  then have "r \<in># mset (filter (selected co sch q) R)" by (metis in_multiset_in_set xs(1))
  then show ?thesis by simp
qed

lemma find_result_all:
  assumes "find_result co sch q R rs" "q_limit q = None" "q_offset q = None"
  shows "mset rs = mset (filter (selected co sch q) R)"
  using assms by (auto simp: find_result_def page_def)

lemma find_result_all_set:
  assumes "find_result co sch q R rs" "q_limit q = None" "q_offset q = None"
  shows "set rs = {r \<in> set R. selected co sch q r}"
  using arg_cong [OF find_result_all [OF assms], of set_mset] by simp

lemma length_upd_rows [simp]: "length (upd_rows co sch now q as R) = length R"
  by (simp add: upd_rows_def)

lemma upd_rows_map:
  assumes "\<And>r. g (upd_row sch now as r) = g r"
  shows "map g (upd_rows co sch now q as R) = map g R"
  by (simp add: upd_rows_def assms)

lemma upd_rows_none:
  "filter (selected co sch q) R = [] \<Longrightarrow> upd_rows co sch now q as R = R"
  by (induction R) (auto simp: upd_rows_def split: if_splits)

lemma set_upd_rows:
  "set (upd_rows co sch now q as R) =
     (\<lambda>r. if selected co sch q r then upd_row sch now as r else r) ` set R"
  by (simp add: upd_rows_def)

lemma set_del_rows_soft:
  "\<not> q_unscoped q \<Longrightarrow> set (del_rows co sch now q R) =
     (\<lambda>r. if selected co sch q r then r\<lparr>bm_DeletedAt := now\<rparr> else r) ` set R"
  by (simp add: del_rows_def)

lemma del_rows_soft_map:
  assumes "\<not> q_unscoped q" "\<And>r. g (r\<lparr>bm_DeletedAt := now\<rparr>) = g r"
  shows "map g (del_rows co sch now q R) = map g R"
  using assms by (simp add: del_rows_def)

lemma tables_eqI:
  "v\<lparr>tb_task := []\<rparr> = w\<lparr>tb_task := []\<rparr> \<Longrightarrow> v = w\<lparr>tb_task := tb_task v\<rparr>"
  "v\<lparr>tb_srv := []\<rparr> = w\<lparr>tb_srv := []\<rparr> \<Longrightarrow> v = w\<lparr>tb_srv := tb_srv v\<rparr>"
  "v\<lparr>tb_route := []\<rparr> = w\<lparr>tb_route := []\<rparr> \<Longrightarrow> v = w\<lparr>tb_route := tb_route v\<rparr>"
  "v\<lparr>tb_log := []\<rparr> = w\<lparr>tb_log := []\<rparr> \<Longrightarrow> v = w\<lparr>tb_log := tb_log v\<rparr>"
  by (cases v; cases w; simp)+

lemma tables_unchanged:
  "tb_task v = tb_task w \<Longrightarrow> v\<lparr>tb_task := []\<rparr> = w\<lparr>tb_task := []\<rparr> \<Longrightarrow> v = w"
  "tb_srv v = tb_srv w \<Longrightarrow> v\<lparr>tb_srv := []\<rparr> = w\<lparr>tb_srv := []\<rparr> \<Longrightarrow> v = w"
  "tb_route v = tb_route w \<Longrightarrow> v\<lparr>tb_route := []\<rparr> = w\<lparr>tb_route := []\<rparr> \<Longrightarrow> v = w"
  "tb_log v = tb_log w \<Longrightarrow> v\<lparr>tb_log := []\<rparr> = w\<lparr>tb_log := []\<rparr> \<Longrightarrow> v = w"
  by (cases v; cases w; simp)+

section \<open>The laws in terms of the whole store\<close>

context sql_store
begin

lemma view_unchanged:
  "unchanged (\<lambda>db. tb_task (view db)) (\<lambda>db. (view db)\<lparr>tb_task := []\<rparr>) db db' \<longleftrightarrow> view db' = view db"
  "unchanged (\<lambda>db. tb_srv (view db)) (\<lambda>db. (view db)\<lparr>tb_srv := []\<rparr>) db db' \<longleftrightarrow> view db' = view db"
  "unchanged (\<lambda>db. tb_route (view db)) (\<lambda>db. (view db)\<lparr>tb_route := []\<rparr>) db db' \<longleftrightarrow> view db' = view db"
  "unchanged (\<lambda>db. tb_log (view db)) (\<lambda>db. (view db)\<lparr>tb_log := []\<rparr>) db db' \<longleftrightarrow> view db' = view db"
  by (auto simp: unchanged_def intro: tables_unchanged)

lemmas task_find = tk.find_ok [unfolded view_unchanged]
lemmas task_first_or_create_raw = tk.first_or_create_ok [unfolded view_unchanged]
lemmas srv_find = sv.find_ok [unfolded view_unchanged]
lemmas srv_take = sv.take_ok [unfolded view_unchanged]
lemmas task_take = tk.take_ok [unfolded view_unchanged]
lemmas srv_take_err = sv.take_err [unfolded view_unchanged]
lemmas task_take_err = tk.take_err [unfolded view_unchanged]
lemmas route_find = rt.find_ok [unfolded view_unchanged]
lemmas route_counts = rt.counts_ok [unfolded view_unchanged]

lemmas stmt_err =
  tk.find_err [unfolded view_unchanged] sv.find_err [unfolded view_unchanged]
  rt.find_err [unfolded view_unchanged] lg.find_err [unfolded view_unchanged]
  task_take_err [THEN conjunct1] srv_take_err [THEN conjunct1]
  tk.first_or_create_err [unfolded view_unchanged] sv.first_or_create_err [unfolded view_unchanged]
  rt.first_or_create_err [unfolded view_unchanged]
  tk.create_err [unfolded view_unchanged] lg.create_err [unfolded view_unchanged]
  tk.updates_err [unfolded view_unchanged] sv.updates_err [unfolded view_unchanged]
  rt.updates_err [unfolded view_unchanged] lg.updates_err [unfolded view_unchanged]
  tk.delete_err [unfolded view_unchanged] sv.delete_err [unfolded view_unchanged]
  rt.delete_err [unfolded view_unchanged] lg.delete_err [unfolded view_unchanged]
  rt.counts_err [unfolded view_unchanged]

lemma task_updates:
  assumes "op_updates (st_task S) q as db = (Inr n, db')"
  shows "view db' = (view db)\<lparr>tb_task := upd_rows co task_schema (clk db) q as (tb_task (view db))\<rparr>"
  using tk.updates_ok [OF assms] tables_eqI(1) [of "view db'" "view db"] by simp

lemma srv_updates:
  assumes "op_updates (st_srv S) q as db = (Inr n, db')"
  shows "view db' = (view db)\<lparr>tb_srv := upd_rows co srv_schema (clk db) q as (tb_srv (view db))\<rparr>"
  using sv.updates_ok [OF assms] tables_eqI(2) [of "view db'" "view db"] by simp

lemma route_updates:
  assumes "op_updates (st_route S) q as db = (Inr n, db')"
  shows "view db' = (view db)\<lparr>tb_route := upd_rows co route_schema (clk db) q as (tb_route (view db))\<rparr>"
  using rt.updates_ok [OF assms] tables_eqI(3) [of "view db'" "view db"] by simp

lemma log_updates:
  assumes "op_updates (st_log S) q as db = (Inr n, db')"
  shows "view db' = (view db)\<lparr>tb_log := upd_rows co log_schema (clk db) q as (tb_log (view db))\<rparr>"
  using lg.updates_ok [OF assms] tables_eqI(4) [of "view db'" "view db"] by simp

lemma task_delete:
  assumes "op_delete (st_task S) q db = (Inr n, db')"
  shows "q_conds q \<noteq> [] \<and>
    view db' = (view db)\<lparr>tb_task := del_rows co task_schema (clk db) q (tb_task (view db))\<rparr>"
  using tk.delete_ok [OF assms] tables_eqI(1) [of "view db'" "view db"] by simp

lemma srv_delete:
  assumes "op_delete (st_srv S) q db = (Inr n, db')"
  shows "q_conds q \<noteq> [] \<and>
    view db' = (view db)\<lparr>tb_srv := del_rows co srv_schema (clk db) q (tb_srv (view db))\<rparr>"
  using sv.delete_ok [OF assms] tables_eqI(2) [of "view db'" "view db"] by simp

lemma route_delete:
  assumes "op_delete (st_route S) q db = (Inr n, db')"
  shows "q_conds q \<noteq> [] \<and>
    view db' = (view db)\<lparr>tb_route := del_rows co route_schema (clk db) q (tb_route (view db))\<rparr>"
  using rt.delete_ok [OF assms] tables_eqI(3) [of "view db'" "view db"] by simp

lemma log_create:
  assumes "op_create (st_log S) x db = (Inr u, db')"
  obtains i where "i \<noteq> 0" "i \<notin> bm_Id ` set (tb_log (view db))"
    "view db' = (view db)\<lparr>tb_log := tb_log (view db) @ [stamped i (clk db) x]\<rparr>"
    "\<forall>y \<in> set (tb_log (view db)). \<not> same_key co log_schema y x"
  using lg.create_ok [OF assms] tables_eqI(4) [of "view db'" "view db"] by auto

lemma task_first_or_create:
  assumes "op_first_or_create (st_task S) q x db = (Inr (r, n), db')"
  obtains (found) "n = 0" "r \<in> set (tb_task (view db))" "selected co task_schema q r"
      "view db' = view db"
    | (created) i where "n = 1" "filter (selected co task_schema q) (tb_task (view db)) = []"
      "i \<noteq> 0" "i \<notin> bm_Id ` set (tb_task (view db))" "r = stamped i (clk db) x"
      "\<forall>y \<in> set (tb_task (view db)). \<not> same_key co task_schema y x"
      "view db' = (view db)\<lparr>tb_task := tb_task (view db) @ [r]\<rparr>"
  using task_first_or_create_raw [OF assms] tables_eqI(1) [of "view db'" "view db"] that by auto

lemma srv_first_or_create:
  assumes "op_first_or_create (st_srv S) q x db = (Inr (r, n), db')"
  obtains (found) "n = 0" "r \<in> set (tb_srv (view db))" "selected co srv_schema q r"
      "view db' = view db"
    | (created) i where "n = 1" "filter (selected co srv_schema q) (tb_srv (view db)) = []"
      "i \<noteq> 0" "i \<notin> bm_Id ` set (tb_srv (view db))" "r = stamped i (clk db) x"
      "\<forall>y \<in> set (tb_srv (view db)). \<not> same_key co srv_schema y x"
      "view db' = (view db)\<lparr>tb_srv := tb_srv (view db) @ [r]\<rparr>"
  using sv.first_or_create_ok [OF assms, unfolded view_unchanged]
    tables_eqI(2) [of "view db'" "view db"] that by auto

lemma route_first_or_create:
  assumes "op_first_or_create (st_route S) q x db = (Inr (r, n), db')"
  obtains (found) "n = 0" "r \<in> set (tb_route (view db))" "selected co route_schema q r"
      "view db' = view db"
    | (created) i where "n = 1" "filter (selected co route_schema q) (tb_route (view db)) = []"
      "i \<noteq> 0" "i \<notin> bm_Id ` set (tb_route (view db))" "r = stamped i (clk db) x"
      "\<forall>y \<in> set (tb_route (view db)). \<not> same_key co route_schema y x"
      "view db' = (view db)\<lparr>tb_route := tb_route (view db) @ [r]\<rparr>"
  using rt.first_or_create_ok [OF assms, unfolded view_unchanged]
    tables_eqI(3) [of "view db'" "view db"] that by auto

lemma co_refl [simp]: "co_eq co s s"
  using collation by (auto simp: collation_law_def equivp_reflp)

lemma co_sym: "co_eq co s t \<Longrightarrow> co_eq co t s"
  using collation by (auto simp: collation_law_def dest: equivp_symp)

lemma co_trans: "co_eq co s t \<Longrightarrow> co_eq co t u \<Longrightarrow> co_eq co s u"
  using collation by (auto simp: collation_law_def dest: equivp_transp)

lemma co_num_id: "uint w < 2 ^ 53 \<Longrightarrow> co_num co i (sprintf_d w) \<longleftrightarrow> i = uint w"
  using collation by (simp add: collation_law_def)

end

end
