(* ===== verification/Store_Inv.thy ===== *)
theory Store_Inv
  imports Sql_Contract
begin

text \<open>
  The well-formedness invariant of the four tables: identifiers are distinct, no two rows of a
  table have the same key of its unique index (up to the server's collation), and a deletion
  mark is never negative. Every statement
  the repositories issue keeps it, provided it assigns no key column and
  no deletion mark but 0; the rules are in the
  collection \<open>pres\<close>, so the invariant of an operation follows from its definition.
\<close>

section \<open>The invariant\<close>

definition table_inv ::
    "collation \<Rightarrow> 'a base_model_scheme schema \<Rightarrow> 'a base_model_scheme list \<Rightarrow> bool" where
  "table_inv co sch R \<longleftrightarrow>
     distinct (map bm_Id R) \<and> sorted_wrt (\<lambda>x y. \<not> same_key co sch x y) R \<and>
     list_all (\<lambda>r. 0 \<le> bm_DeletedAt r) R"

definition store_inv :: "collation \<Rightarrow> tables \<Rightarrow> bool" where
  "store_inv co v \<longleftrightarrow>
     table_inv co task_schema (tb_task v) \<and> table_inv co srv_schema (tb_srv v) \<and>
     table_inv co route_schema (tb_route v) \<and> table_inv co log_schema (tb_log v)"

definition key_fields :: "'r schema \<Rightarrow> db_field list" where
  "key_fields sch = DbFieldId # sc_unique sch"

definition row_keys :: "'r schema \<Rightarrow> 'r \<Rightarrow> sqlval list" where
  "row_keys sch r = map (\<lambda>g. sc_get sch g r) (key_fields sch)"

text \<open>
  The assignments that may appear in an update: none of them to a key column, and a deletion
  mark is only ever reset.
\<close>

definition payload :: "'r schema \<Rightarrow> assign list \<Rightarrow> bool" where
  "payload sch as \<longleftrightarrow> list_all (\<lambda>a. fst a \<notin> set (key_fields sch) \<and>
                                (fst a = DbFieldDeletedAt \<longrightarrow> snd a = Lit (VInt 0))) as"

text \<open>What the invariant needs of a schema; the four schemas of the program have it.\<close>

definition schema_ok :: "'a base_model_scheme schema \<Rightarrow> bool" where
  "schema_ok sch \<longleftrightarrow>
     (\<forall>f v r. f \<notin> set (key_fields sch) \<longrightarrow> row_keys sch (sc_set sch f v r) = row_keys sch r) \<and>
     (\<forall>n r. row_keys sch (r\<lparr>bm_UpdatedAt := n\<rparr>) = row_keys sch r) \<and>
     (\<forall>n r. row_keys sch (r\<lparr>bm_DeletedAt := n\<rparr>) = row_keys sch r) \<and>
     (\<forall>r. sc_get sch DbFieldId r = VId (bm_Id r)) \<and>
     (\<forall>i n r. map (\<lambda>g. sc_get sch g (stamped i n r)) (sc_unique sch) =
              map (\<lambda>g. sc_get sch g r) (sc_unique sch)) \<and>
     (\<forall>f v r. f \<noteq> DbFieldDeletedAt \<longrightarrow> bm_DeletedAt (sc_set sch f v r) = bm_DeletedAt r) \<and>
     (\<forall>r. bm_DeletedAt (sc_set sch DbFieldDeletedAt (VInt 0) r) = 0)"

section \<open>Lemmas\<close>

lemma task_schema_ok: "schema_ok task_schema"
proof -
  have "row_keys task_schema (task_set f v r) = row_keys task_schema r"
    if "f \<notin> {DbFieldId, DbFieldName, DbFieldBizId}" for f v r
    using that by (cases f)
      (simp_all add: row_keys_def key_fields_def task_schema_def task_set_def task_get_def
        base_get_def base_set_def)
  moreover have "bm_DeletedAt (task_set f v r) = bm_DeletedAt r" if "f \<noteq> DbFieldDeletedAt" for f v r
    using that by (cases f) (simp_all add: task_set_def base_set_def)
  moreover have "bm_DeletedAt (task_set DbFieldDeletedAt (VInt 0) r) = 0" for r
    by (simp add: task_set_def base_set_def)
  ultimately show ?thesis
    by (auto simp: schema_ok_def key_fields_def row_keys_def task_schema_def task_get_def
        base_get_def stamped_def)
qed

lemma srv_schema_ok: "schema_ok srv_schema"
proof -
  have "row_keys srv_schema (srv_set f v r) = row_keys srv_schema r"
    if "f \<notin> {DbFieldId, DbFieldName}" for f v r
    using that by (cases f)
      (simp_all add: row_keys_def key_fields_def srv_schema_def srv_set_def srv_get_def
        base_get_def base_set_def)
  moreover have "bm_DeletedAt (srv_set f v r) = bm_DeletedAt r" if "f \<noteq> DbFieldDeletedAt" for f v r
    using that by (cases f) (simp_all add: srv_set_def base_set_def)
  moreover have "bm_DeletedAt (srv_set DbFieldDeletedAt (VInt 0) r) = 0" for r
    by (simp add: srv_set_def base_set_def)
  ultimately show ?thesis
    by (auto simp: schema_ok_def key_fields_def row_keys_def srv_schema_def srv_get_def
        base_get_def stamped_def)
qed

lemma route_schema_ok: "schema_ok route_schema"
proof -
  have "row_keys route_schema (route_set f v r) = row_keys route_schema r"
    if "f \<notin> {DbFieldId, DbFieldSrvSchema, DbFieldHost, DbFieldPort, DbFieldSrvId}" for f v r
    using that by (cases f)
      (simp_all add: row_keys_def key_fields_def route_schema_def route_set_def route_get_def
        base_get_def base_set_def)
  moreover have "bm_DeletedAt (route_set f v r) = bm_DeletedAt r" if "f \<noteq> DbFieldDeletedAt" for f v r
    using that by (cases f) (simp_all add: route_set_def base_set_def)
  moreover have "bm_DeletedAt (route_set DbFieldDeletedAt (VInt 0) r) = 0" for r
    by (simp add: route_set_def base_set_def)
  ultimately show ?thesis
    by (auto simp: schema_ok_def key_fields_def row_keys_def route_schema_def route_get_def
        base_get_def stamped_def)
qed

lemma log_schema_ok: "schema_ok log_schema"
proof -
  have "row_keys log_schema (log_set f v r) = row_keys log_schema r"
    if "f \<notin> {DbFieldId, DbFieldTaskId, DbFieldRunTimes}" for f v r
    using that by (cases f)
      (simp_all add: row_keys_def key_fields_def log_schema_def log_set_def log_get_def
        base_get_def base_set_def)
  moreover have "bm_DeletedAt (log_set f v r) = bm_DeletedAt r" if "f \<noteq> DbFieldDeletedAt" for f v r
    using that by (cases f) (simp_all add: log_set_def base_set_def)
  moreover have "bm_DeletedAt (log_set DbFieldDeletedAt (VInt 0) r) = 0" for r
    by (simp add: log_set_def base_set_def)
  ultimately show ?thesis
    by (auto simp: schema_ok_def key_fields_def row_keys_def log_schema_def log_get_def
        base_get_def stamped_def)
qed

lemmas schemas_ok = task_schema_ok srv_schema_ok route_schema_ok log_schema_ok

lemma row_keys_id: "schema_ok sch \<Longrightarrow> row_keys sch x = row_keys sch y \<Longrightarrow> bm_Id x = bm_Id y"
  by (simp add: schema_ok_def row_keys_def key_fields_def)

lemma row_keys_same_key:
  assumes "row_keys sch x = row_keys sch x'" "row_keys sch y = row_keys sch y'"
  shows "same_key co sch x y \<longleftrightarrow> same_key co sch x' y'"
  using assms
  by (auto simp: row_keys_def key_fields_def same_key_def list_all_iff)

lemma table_inv_cong:
  assumes ok: "schema_ok sch" and keys: "map (row_keys sch) R = map (row_keys sch) R'"
    and inv: "table_inv co sch R" and marks: "list_all (\<lambda>r. 0 \<le> bm_DeletedAt r) R'"
  shows "table_inv co sch R'"
proof -
  have len: "length R = length R'"
    using keys by (rule map_eq_imp_length_eq)
  have nth: "row_keys sch (R ! i) = row_keys sch (R' ! i)" if "i < length R" for i
    using arg_cong [OF keys, of "\<lambda>l. l ! i"] that len by simp
  have "map bm_Id R = map bm_Id R'"
    using len nth by (intro nth_equalityI) (auto intro: row_keys_id [OF ok])
  moreover have sk: "same_key co sch (R ! i) (R ! j) \<longleftrightarrow> same_key co sch (R' ! i) (R' ! j)"
    if "i < j" "j < length R" for i j
    using that by (intro row_keys_same_key nth) auto
  have "sorted_wrt (\<lambda>x y. \<not> same_key co sch x y) R \<longleftrightarrow>
      sorted_wrt (\<lambda>x y. \<not> same_key co sch x y) R'"
    using len sk by (auto simp: sorted_wrt_iff_nth_less)
  ultimately show ?thesis using inv marks by (simp add: table_inv_def)
qed

lemma fold_sets_keys:
  assumes "schema_ok sch" "payload sch as"
  shows "row_keys sch (fold (\<lambda>(f, e) x. sc_set sch f (eval_expr sch r0 e) x) as r) = row_keys sch r"
  using assms
  by (induction as arbitrary: r) (auto simp: payload_def schema_ok_def)

lemma fold_sets_mark:
  assumes "schema_ok sch" "payload sch as" "0 \<le> bm_DeletedAt r"
  shows "0 \<le> bm_DeletedAt (fold (\<lambda>(f, e) x. sc_set sch f (eval_expr sch r0 e) x) as r)"
  using assms
proof (induction as arbitrary: r)
  case (Cons a as)
  obtain f e where a: "a = (f, e)" by (cases a)
  have "0 \<le> bm_DeletedAt (sc_set sch f (eval_expr sch r0 e) r)"
    using Cons.prems a by (cases "f = DbFieldDeletedAt") (auto simp: payload_def schema_ok_def)
  with Cons.IH [OF Cons.prems(1)] Cons.prems(2) a show ?case
    by (simp add: payload_def)
qed simp

lemma upd_row_mark:
  "schema_ok sch \<Longrightarrow> payload sch as \<Longrightarrow> 0 \<le> bm_DeletedAt r \<Longrightarrow>
     0 \<le> bm_DeletedAt (upd_row sch now as r)"
  using fold_sets_mark [of sch as r r] by (simp add: upd_row_def apply_sets_def)

lemma upd_row_keys:
  "schema_ok sch \<Longrightarrow> payload sch as \<Longrightarrow> row_keys sch (upd_row sch now as r) = row_keys sch r"
  using fold_sets_keys [of sch as r r]
  by (simp add: upd_row_def apply_sets_def schema_ok_def)

lemma upd_row_id: "schema_ok sch \<Longrightarrow> payload sch as \<Longrightarrow> bm_Id (upd_row sch now as r) = bm_Id r"
  by (rule row_keys_id [OF _ upd_row_keys])

lemma table_inv_upd_rows:
  assumes "schema_ok sch" "payload sch as" and inv: "table_inv co sch R"
  shows "table_inv co sch (upd_rows co sch now q as R)"
proof (rule table_inv_cong [OF assms(1) _ inv])
  show "map (row_keys sch) R = map (row_keys sch) (upd_rows co sch now q as R)"
    using assms by (auto simp: upd_rows_def upd_row_keys)
  show "list_all (\<lambda>r. 0 \<le> bm_DeletedAt r) (upd_rows co sch now q as R)"
    using assms by (auto simp: upd_rows_def table_inv_def list_all_iff intro!: upd_row_mark)
qed

lemma sorted_wrt_filter_keep: "sorted_wrt P xs \<Longrightarrow> sorted_wrt P (filter Q xs)"
  by (induction xs) auto

lemma table_inv_del_rows:
  assumes ok: "schema_ok sch" and inv: "table_inv co sch R" and now: "0 < now"
  shows "table_inv co sch (del_rows co sch now q R)"
proof (cases "q_unscoped q")
  case True
  then show ?thesis
    using inv by (auto simp: del_rows_def table_inv_def distinct_map_filter list_all_iff
        sorted_wrt_filter_keep)
next
  case False
  show ?thesis
  proof (rule table_inv_cong [OF ok _ inv])
    show "map (row_keys sch) R = map (row_keys sch) (del_rows co sch now q R)"
      using ok False by (simp add: del_rows_def schema_ok_def)
    show "list_all (\<lambda>r. 0 \<le> bm_DeletedAt r) (del_rows co sch now q R)"
      using inv now False by (auto simp: del_rows_def table_inv_def list_all_iff)
  qed
qed

lemma table_inv_append:
  assumes ok: "schema_ok sch" and inv: "table_inv co sch R"
    and fresh: "i \<notin> bm_Id ` set R" "\<forall>y \<in> set R. \<not> same_key co sch y x"
    and mark: "0 \<le> bm_DeletedAt x"
  shows "table_inv co sch (R @ [stamped i now x])"
proof -
  have "same_key co sch y (stamped i now x) = same_key co sch y x" for y
  proof -
    have "map (\<lambda>g. sc_get sch g (stamped i now x)) (sc_unique sch) =
        map (\<lambda>g. sc_get sch g x) (sc_unique sch)"
      using ok by (simp add: schema_ok_def)
    then show ?thesis by (auto simp: same_key_def list_all_iff)
  qed
  with inv fresh mark show ?thesis
    by (auto simp: table_inv_def sorted_wrt_append stamped_def)
qed

lemma payload_append [simp]: "payload sch (as @ bs) \<longleftrightarrow> payload sch as \<and> payload sch bs"
  by (simp add: payload_def)

lemma payload_Nil [simp]: "payload sch []"
  by (simp add: payload_def)

lemma payload_Cons [simp]:
  "payload sch (a # as) \<longleftrightarrow>
     fst a \<notin> set (key_fields sch) \<and> (fst a = DbFieldDeletedAt \<longrightarrow> snd a = Lit (VInt 0)) \<and>
     payload sch as"
  by (simp add: payload_def)

lemma key_fields_simps [simp]:
  "key_fields task_schema = [DbFieldId, DbFieldName, DbFieldBizId]"
  "key_fields srv_schema = [DbFieldId, DbFieldName]"
  "key_fields route_schema =
     [DbFieldId, DbFieldSrvSchema, DbFieldHost, DbFieldPort, DbFieldSrvId]"
  "key_fields log_schema = [DbFieldId, DbFieldTaskId, DbFieldRunTimes]"
  by (simp_all add: key_fields_def schema_defs)

lemma table_inv_unique:
  assumes "table_inv co sch R" "x \<in> set R" "y \<in> set R"
    and "same_key co sch x y" "\<And>x y. same_key co sch x y \<Longrightarrow> same_key co sch y x"
  shows "x = y"
proof -
  obtain i j where "i < length R" "x = R ! i" "j < length R" "y = R ! j"
    using assms(2,3) by (auto simp: in_set_conv_nth)
  moreover have "\<forall>i j. i < j \<longrightarrow> j < length R \<longrightarrow> \<not> same_key co sch (R ! i) (R ! j)"
    using assms(1) by (simp add: table_inv_def sorted_wrt_iff_nth_less)
  ultimately show ?thesis
    using assms(4,5) by (metis linorder_neqE_nat)
qed

lemma table_inv_id:
  "table_inv co sch R \<Longrightarrow> x \<in> set R \<Longrightarrow> y \<in> set R \<Longrightarrow> bm_Id x = bm_Id y \<Longrightarrow> x = y"
  unfolding table_inv_def by (blast intro: distinct_map_eq)

section \<open>Every statement keeps the invariant\<close>

context sql_store
begin

abbreviation inv_db :: "'db \<Rightarrow> bool" where
  "inv_db db \<equiv> store_inv co (view db)"

lemma inv_unchanged: "view db' = view db \<Longrightarrow> inv_db db \<Longrightarrow> inv_db db'"
  by simp

lemma pres_task_updates [pres]:
  assumes "payload task_schema as"
  shows "pres_io inv_db (op_updates (st_task S) q as)"
proof (rule pres_ioI)
  fix s r t
  assume "op_updates (st_task S) q as s = (r, t)" "inv_db s"
  then show "inv_db t"
    using assms
    by (cases r) (auto simp: store_inv_def table_inv_upd_rows schemas_ok
        dest: stmt_err dest!: task_updates)
qed

lemma pres_srv_updates [pres]:
  assumes "payload srv_schema as"
  shows "pres_io inv_db (op_updates (st_srv S) q as)"
proof (rule pres_ioI)
  fix s r t
  assume "op_updates (st_srv S) q as s = (r, t)" "inv_db s"
  then show "inv_db t"
    using assms
    by (cases r) (auto simp: store_inv_def table_inv_upd_rows schemas_ok
        dest: stmt_err dest!: srv_updates)
qed

lemma pres_route_updates [pres]:
  assumes "payload route_schema as"
  shows "pres_io inv_db (op_updates (st_route S) q as)"
proof (rule pres_ioI)
  fix s r t
  assume "op_updates (st_route S) q as s = (r, t)" "inv_db s"
  then show "inv_db t"
    using assms
    by (cases r) (auto simp: store_inv_def table_inv_upd_rows schemas_ok
        dest: stmt_err dest!: route_updates)
qed

lemma pres_log_updates [pres]:
  assumes "payload log_schema as"
  shows "pres_io inv_db (op_updates (st_log S) q as)"
proof (rule pres_ioI)
  fix s r t
  assume "op_updates (st_log S) q as s = (r, t)" "inv_db s"
  then show "inv_db t"
    using assms
    by (cases r) (auto simp: store_inv_def table_inv_upd_rows schemas_ok
        dest: stmt_err dest!: log_updates)
qed

lemma pres_deletes [pres]:
  "pres_io inv_db (op_delete (st_task S) q)"
  "pres_io inv_db (op_delete (st_srv S) q)"
  "pres_io inv_db (op_delete (st_route S) q)"
proof -
  show "pres_io inv_db (op_delete (st_task S) q)"
  proof (rule pres_ioI)
    fix s r t
    assume "op_delete (st_task S) q s = (r, t)" "inv_db s"
    then show "inv_db t"
      by (cases r) (auto simp: store_inv_def table_inv_del_rows schemas_ok tk.clk_pos
          dest: stmt_err dest!: task_delete)
  qed
  show "pres_io inv_db (op_delete (st_srv S) q)"
  proof (rule pres_ioI)
    fix s r t
    assume "op_delete (st_srv S) q s = (r, t)" "inv_db s"
    then show "inv_db t"
      by (cases r) (auto simp: store_inv_def table_inv_del_rows schemas_ok tk.clk_pos
          dest: stmt_err dest!: srv_delete)
  qed
  show "pres_io inv_db (op_delete (st_route S) q)"
  proof (rule pres_ioI)
    fix s r t
    assume "op_delete (st_route S) q s = (r, t)" "inv_db s"
    then show "inv_db t"
      by (cases r) (auto simp: store_inv_def table_inv_del_rows schemas_ok tk.clk_pos
          dest: stmt_err dest!: route_delete)
  qed
qed

lemma pres_log_create [pres]:
  assumes "0 \<le> bm_DeletedAt x"
  shows "pres_io inv_db (op_create (st_log S) x)"
proof (rule pres_ioI)
  fix s r t
  assume "op_create (st_log S) x s = (r, t)" "inv_db s"
  then show "inv_db t"
    using assms
    by (cases r) (auto simp: store_inv_def table_inv_append schemas_ok
        dest: stmt_err elim!: log_create)
qed

lemma pres_task_foc [pres]:
  assumes "0 \<le> bm_DeletedAt x"
  shows "pres_io inv_db (op_first_or_create (st_task S) q x)"
proof (rule pres_ioI)
  fix s r t
  assume "op_first_or_create (st_task S) q x s = (r, t)" "inv_db s"
  then show "inv_db t"
    using assms
    by (cases r) (auto simp: store_inv_def table_inv_append schemas_ok
        dest: stmt_err elim!: task_first_or_create)
qed

lemma pres_srv_foc [pres]:
  assumes "0 \<le> bm_DeletedAt x"
  shows "pres_io inv_db (op_first_or_create (st_srv S) q x)"
proof (rule pres_ioI)
  fix s r t
  assume "op_first_or_create (st_srv S) q x s = (r, t)" "inv_db s"
  then show "inv_db t"
    using assms
    by (cases r) (auto simp: store_inv_def table_inv_append schemas_ok
        dest: stmt_err elim!: srv_first_or_create)
qed

lemma pres_route_foc [pres]:
  assumes "0 \<le> bm_DeletedAt x"
  shows "pres_io inv_db (op_first_or_create (st_route S) q x)"
proof (rule pres_ioI)
  fix s r t
  assume "op_first_or_create (st_route S) q x s = (r, t)" "inv_db s"
  then show "inv_db t"
    using assms
    by (cases r) (auto simp: store_inv_def table_inv_append schemas_ok
        dest: stmt_err elim!: route_first_or_create)
qed

lemma pres_reads [pres]:
  "pres_io inv_db (op_find (st_task S) q)" "pres_io inv_db (op_find (st_srv S) q)"
  "pres_io inv_db (op_find (st_route S) q)" "pres_io inv_db (op_take (st_task S) q)"
  "pres_io inv_db (op_take (st_srv S) q)" "pres_io inv_db (op_counts (st_route S) q aggs)"
  by (rule pres_ioI, rule inv_unchanged, case_tac r,
      auto dest: stmt_err task_find srv_find route_find task_take srv_take route_counts)+

lemma pres_untracked [pres]: "pres_io inv_db (st_delete_untracked S tab q)"
  by (rule pres_ioI) (auto dest: delete_untracked)

end

end
