(* ===== verification/Biz_Errs.thy ===== *)
theory Biz_Errs
  imports Prelude
begin

text \<open>
  The error codes the API answers (\<open>pkg/errs/err.go\<close>), the message table, and the errors of
  \<open>internal/util/errs\<close>. A \<open>*BizError\<close> is the constructor \<open>BizError code msg\<close> of \<open>go_err\<close>.
\<close>

definition ErrCodeInternal :: int where "ErrCodeInternal = 500"
definition ErrCodeRouteNotFound :: int where "ErrCodeRouteNotFound = 404"
definition ErrCodeRouteMethodNotAllow :: int where "ErrCodeRouteMethodNotAllow = 405"
definition ErrCodeArgsInvalid :: int where "ErrCodeArgsInvalid = 10001"
definition ErrCodeTaskNotFound :: int where "ErrCodeTaskNotFound = 10002"
definition ErrCodeTaskCallbackSrvNotFound :: int where "ErrCodeTaskCallbackSrvNotFound = 10003"
definition ErrCodeServerStopped :: int where "ErrCodeServerStopped = 10004"

lemmas err_code_defs =
  ErrCodeInternal_def ErrCodeRouteNotFound_def ErrCodeRouteMethodNotAllow_def
  ErrCodeArgsInvalid_def ErrCodeTaskNotFound_def ErrCodeTaskCallbackSrvNotFound_def
  ErrCodeServerStopped_def

definition errMap :: "int \<rightharpoonup> string" where
  "errMap = map_of
     [(ErrCodeInternal, ''internal error''),
      (ErrCodeRouteNotFound, ''route not found''),
      (ErrCodeArgsInvalid, ''request arguments are invalid''),
      (ErrCodeTaskNotFound, ''task not found''),
      (ErrCodeTaskCallbackSrvNotFound, ''task callback server not found''),
      (ErrCodeServerStopped, ''task server is stopped'')]"

text \<open>Reading a missing key of a Go map answers the zero value.\<close>

definition getErrMsg :: "int \<Rightarrow> string" where
  "getErrMsg code = (case errMap code of Some m \<Rightarrow> m | None \<Rightarrow> [])"

definition newBizErrWithMsg :: "int \<Rightarrow> string \<Rightarrow> go_err" where
  "newBizErrWithMsg code msg = BizError code msg"

definition newBizErr :: "int \<Rightarrow> go_err" where
  "newBizErr code = newBizErrWithMsg code (getErrMsg code)"

definition errCurrentNodeNoMaster :: go_err where
  "errCurrentNodeNoMaster = PlainErr ''current node is not master''"

definition errServerStarted :: go_err where
  "errServerStarted = PlainErr ''server started''"

lemma newBizErr_eq: "newBizErr code = BizError code (getErrMsg code)"
  by (simp add: newBizErr_def newBizErrWithMsg_def)

lemma getErrMsg_simps:
  "getErrMsg ErrCodeInternal = ''internal error''"
  "getErrMsg ErrCodeTaskCallbackSrvNotFound = ''task callback server not found''"
  "getErrMsg ErrCodeTaskNotFound = ''task not found''"
  "getErrMsg ErrCodeRouteMethodNotAllow = []"
  by (simp_all add: getErrMsg_def errMap_def err_code_defs)

lemma newBizErr_not [simp]:
  "newBizErr code \<noteq> RecordNotFound" "newBizErr code \<noteq> DbErr s" "newBizErr code \<noteq> NumErr n"
  by (simp_all add: newBizErr_eq)

end
