(* ===== verification/Repo_Interfaces.thy ===== *)
theory Repo_Interfaces
  imports Store_Inv Biz_Errs
begin

text \<open>
  The Go interfaces of \<open>internal/task/repo.go\<close> as records of operations over the state of the
  database, the query options of \<open>repo_query_opt.go\<close>, and the third-party functions the
  repositories call (\<open>libs\<close>). The arguments of type \<open>int\<close> that precede an operation's own are
  the answers of its calls of \<open>time.Now().Unix()\<close>, in the order of the calls.

  An option stream is the sequence of options that its processor hands to the handlers.

  The contracts are locales. \<open>task_log_repo\<close> and \<open>callback_srv_repo\<close> say what the task repository
  relies on; \<open>task_repo_contract\<close> says what the worker engine relies on: a lock is granted only
  on the current run number of a task and consumes it, and nothing ever lowers a run number.
\<close>

section \<open>Query options\<close>

datatype query_opt =
    QueryOptKeyCheckedHealthLt int
  | QueryOptKeyEnabledHeathCheck
  | QueryOptKeyInIds "string list"
  | QueryOptKeyEqName string

datatype stream_opt =
    QueryOptKeyCreatedExceed int
  | QueryOptKeyTaskFinished

record query_stream =
  qs_opts :: "query_opt list"
  qs_limit :: int
  qs_offset :: int

section \<open>The repositories\<close>

record 's task_repo =
  ir_TimeoutTasks :: "int \<Rightarrow> int \<Rightarrow> string \<Rightarrow> ('s, task list \<times> string) io"
  ir_LockTask :: "int \<Rightarrow> int \<Rightarrow> int \<Rightarrow> task \<Rightarrow> 's \<Rightarrow> (go_err + bool) \<times> task \<times> 's"
  ir_ConfirmTask :: "int \<Rightarrow> int \<Rightarrow> task_resp \<Rightarrow> ('s, unit) io"
  ir_AddTask :: "int \<Rightarrow> task \<Rightarrow> ('s, string) io"
  ir_GetTaskById :: "string \<Rightarrow> ('s, task) io"
  ir_DelTaskById :: "string \<Rightarrow> ('s, unit) io"
  ir_DelTasks :: "stream_opt list \<Rightarrow> ('s, unit) io"

record 's srv_repo =
  is_AddSrvRoutes :: "callback_srv \<Rightarrow> ('s, unit) io"
  is_DelSrvRoutes :: "callback_srv \<Rightarrow> ('s, unit) io"
  is_SetSrvRoutesPassHealthCheck :: "int \<Rightarrow> callback_srv \<Rightarrow> ('s, unit) io"
  is_GetSrvsByIds :: "string list \<Rightarrow> ('s, callback_srv list) io"
  is_GetSrvs :: "query_stream \<Rightarrow> ('s, callback_srv list) io"

record 's log_repo =
  il_SaveTaskStartedLog :: "int \<Rightarrow> started_detail \<Rightarrow> ('s, unit) io"
  il_SaveTaskCallbackLog :: "int \<Rightarrow> int \<Rightarrow> callback_detail \<Rightarrow> ('s, unit) io"
  il_SaveTaskConfirmedLog :: "int \<Rightarrow> confirmed_detail \<Rightarrow> ('s, unit) io"
  il_DelLogs :: "stream_opt list \<Rightarrow> ('s, unit) io"

section \<open>Third-party functions\<close>

record libs =
  lb_cron :: cron_lib
  lb_vld :: validator
  lb_pluck_srv_ids :: "task_model list \<Rightarrow> u64 list"
  lb_pluck_ids :: "srv_model list \<Rightarrow> u64 list"

definition libs_law :: "libs \<Rightarrow> bool" where
  "libs_law L \<longleftrightarrow>
     validator_law (lb_vld L) \<and> lb_pluck_srv_ids L = map tm_CallbackSrvId \<and>
     lb_pluck_ids L = map bm_Id"

definition ref_libs :: libs where
  "ref_libs =
     \<lparr>lb_cron = (\<lambda>s. if s = [] then Inl ''empty'' else Inr (\<lambda>now. now + 60)),
      lb_vld = ref_validator, lb_pluck_srv_ids = map tm_CallbackSrvId, lb_pluck_ids = map bm_Id\<rparr>"

lemma ref_libs_law: "libs_law ref_libs"
  by (simp add: libs_law_def ref_libs_def ref_validator_law)

section \<open>Contracts\<close>

text \<open>What a task repository relies on when it writes the log of a run.\<close>

locale task_log_repo =
  fixes LR :: "'s log_repo"
    and view :: "'s \<Rightarrow> tables"
  assumes started_frame: "il_SaveTaskStartedLog LR now d s = (r, s') \<Longrightarrow>
      (view s')\<lparr>tb_log := []\<rparr> = (view s)\<lparr>tb_log := []\<rparr>"
    and confirmed_frame: "il_SaveTaskConfirmedLog LR now f s = (r, s') \<Longrightarrow>
      (view s')\<lparr>tb_log := []\<rparr> = (view s)\<lparr>tb_log := []\<rparr>"
    and callback_frame: "il_SaveTaskCallbackLog LR now1 now2 c s = (r, s') \<Longrightarrow>
      (view s')\<lparr>tb_log := []\<rparr> = (view s)\<lparr>tb_log := []\<rparr>"
begin

lemma frame_tables:
  assumes "(view s')\<lparr>tb_log := []\<rparr> = (view s)\<lparr>tb_log := []\<rparr>"
  shows "tb_task (view s') = tb_task (view s)" "tb_srv (view s') = tb_srv (view s)"
    "tb_route (view s') = tb_route (view s)"
  using assms by (cases "view s"; cases "view s'"; simp)+

lemmas started_tables = frame_tables [OF started_frame]
lemmas confirmed_tables = frame_tables [OF confirmed_frame]
lemmas callback_tables = frame_tables [OF callback_frame]

end

text \<open>What a task repository relies on when it looks up the services of its tasks.\<close>

locale callback_srv_repo =
  fixes SR :: "'s srv_repo"
    and view :: "'s \<Rightarrow> tables"
  assumes by_ids_frame: "is_GetSrvsByIds SR ids s = (r, s') \<Longrightarrow> view s' = view s"
    and by_ids_sound: "is_GetSrvsByIds SR (map toTaskCallbackSrvEntityId ws) s = (Inr srvs, s') \<Longrightarrow>
      ws \<noteq> [] \<Longrightarrow> srv \<in> set srvs \<Longrightarrow>
      \<exists>m \<in> set (tb_srv (view s)). bm_DeletedAt m = 0 \<and> bm_Id m \<in> set ws \<and>
        cs_id srv = toTaskCallbackSrvEntityId (bm_Id m) \<and> cs_name srv = sm_Name m"
    and by_ids_complete: "is_GetSrvsByIds SR (map toTaskCallbackSrvEntityId ws) s = (Inr srvs, s') \<Longrightarrow>
      distinct (map bm_Id (tb_srv (view s))) \<Longrightarrow> distinct ws \<Longrightarrow> ws \<noteq> [] \<Longrightarrow>
      m \<in> set (tb_srv (view s)) \<Longrightarrow> bm_DeletedAt m = 0 \<Longrightarrow> bm_Id m \<in> set ws \<Longrightarrow>
      \<exists>srv \<in> set srvs. cs_id srv = toTaskCallbackSrvEntityId (bm_Id m)"

text \<open>
  What a worker relies on. \<open>run_no s w\<close> is the number of started runs of the task with
  identifier \<open>w\<close>, if there is such a task.
\<close>

locale task_repo_contract =
  fixes TR :: "'s task_repo"
    and run_no :: "'s \<Rightarrow> u64 \<Rightarrow> int option"
    and inv :: "'s \<Rightarrow> bool"
  assumes lock_true: "inv s \<Longrightarrow> ir_LockTask TR n1 n2 n3 t s = (Inr True, t', s') \<Longrightarrow>
      \<exists>w. checkedTaskModelId (t_id t) = Inr w \<and> run_no s w = Some (t_runTimes t) \<and>
        run_no s' w = Some (t_runTimes t + 1) \<and> t' = t\<lparr>t_runTimes := wrap64 (t_runTimes t + 1)\<rparr>"
    and lock_inv: "inv s \<Longrightarrow> ir_LockTask TR n1 n2 n3 t s = (b, t', s') \<Longrightarrow> inv s'"
    and lock_mono: "inv s \<Longrightarrow> ir_LockTask TR n1 n2 n3 t s = (b, t', s') \<Longrightarrow>
      run_no s w = Some k \<Longrightarrow> \<exists>k'. run_no s' w = Some k' \<and> k \<le> k'"
    and confirm_inv: "inv s \<Longrightarrow> ir_ConfirmTask TR n1 n2 p s = (c, s') \<Longrightarrow> inv s'"
    and confirm_mono: "inv s \<Longrightarrow> ir_ConfirmTask TR n1 n2 p s = (c, s') \<Longrightarrow>
      run_no s w = Some k \<Longrightarrow> \<exists>k'. run_no s' w = Some k' \<and> k \<le> k'"
    and timeout_inv: "inv s \<Longrightarrow> ir_TimeoutTasks TR n1 sz cur s = (ts, s') \<Longrightarrow> inv s'"
    and timeout_mono: "inv s \<Longrightarrow> ir_TimeoutTasks TR n1 sz cur s = (ts, s') \<Longrightarrow>
      run_no s w = Some k \<Longrightarrow> \<exists>k'. run_no s' w = Some k' \<and> k \<le> k'"
    and add_inv: "inv s \<Longrightarrow> ir_AddTask TR n1 t s = (a, s') \<Longrightarrow> inv s'"
    and add_mono: "inv s \<Longrightarrow> ir_AddTask TR n1 t s = (a, s') \<Longrightarrow>
      run_no s w = Some k \<Longrightarrow> \<exists>k'. run_no s' w = Some k' \<and> k \<le> k'"
    and stop_inv: "inv s \<Longrightarrow> ir_DelTaskById TR i s = (d, s') \<Longrightarrow> inv s'"
    and stop_mono: "inv s \<Longrightarrow> ir_DelTaskById TR i s = (d, s') \<Longrightarrow>
      run_no s w = Some k \<Longrightarrow> \<exists>k'. run_no s' w = Some k' \<and> k \<le> k'"

end
