(* ===== verification/Task_Log_Repo.thy ===== *)
theory Task_Log_Repo
  imports Repo_Interfaces
begin

text \<open>
  \<open>internal/task/impl/repo/mysql/task_log_repo.go\<close>: one log row per run of a task, keyed by the
  task's identifier and the run number. \<open>SaveTaskStartedLog\<close> inserts the row, the callback and
  the confirmation update it. The lemmas say what each operation does to the log table and that
  it leaves the other tables alone; \<open>DelLogs\<close> is the exception, as its statement is built for
  the task table.
\<close>

section \<open>Operations\<close>

definition save_task_started_log :: "'db store \<Rightarrow> int \<Rightarrow> started_detail \<Rightarrow> ('db, unit) io" where
  "save_task_started_log S now d =
     bind_io (lift_io (checkedTaskModelId (t_id (sd_task d)))) (\<lambda>taskModelId.
     bind_io (lift_io (toCallbackSrvRouteModelId (cs_id (t_callbackSrv (sd_task d))))) (\<lambda>srvModelId.
       op_create (st_log S)
         (zero_log_model\<lparr>lm_TaskId := taskModelId, lm_StartedAt := now,
            lm_TaskStatus := statusRunning, lm_RunTimes := t_runTimes (sd_task d),
            lm_SrvId := srvModelId\<rparr>)))"

definition callback_status_sets :: "int \<Rightarrow> status \<Rightarrow> assign list" where
  "callback_status_sets nowEnd st =
     (if is_task_success st then
        [(DbFieldTaskStatus, Lit (VInt statusSuccess)), (DbFieldEndedAt, Lit (VInt nowEnd))]
      else if is_task_failed st then
        [(DbFieldTaskStatus, Lit (VInt statusFailed)), (DbFieldEndedAt, Lit (VInt nowEnd))]
      else [])"

definition callback_err_sets :: "go_err option \<Rightarrow> assign list" where
  "callback_err_sets e = (case e of None \<Rightarrow> [] | Some x \<Rightarrow> [(DbFieldCallbackErr, Lit (VErr x))])"

definition callback_log_sets :: "int \<Rightarrow> int \<Rightarrow> callback_detail \<Rightarrow> assign list" where
  "callback_log_sets nowCall nowEnd d =
     [(DbFieldIsRunInAsync, Lit (VBool (cd_isRunInAsync d))),
      (DbFieldReqSnapshot, Lit (VReqSnap
         \<lparr>qs_SrvSchema = rt_scheme (cd_route d), qs_Host = rt_host (cd_route d),
          qs_Port = rt_port (cd_route d),
          qs_TimeoutSec = rt_callbackTimeoutSec (cd_route d), qs_CallbackAt = nowCall,
          qs_CallbackPath = cd_callbackPath d\<rparr>)),
      (DbFieldRespSnapshot, Lit (VRespSnap \<lparr>ps_RespRaw = cd_respRaw d\<rparr>))] @
     callback_status_sets nowEnd (cd_taskStatus d) @
     callback_err_sets (cd_err d)"

text \<open>The rows of one run: both operations select them by the task's textual identifier.\<close>

definition log_run_query :: "string \<Rightarrow> int \<Rightarrow> query" where
  "log_run_query taskId runTimes =
     where_q [CEq DbFieldTaskId (VText taskId), CEq DbFieldRunTimes (VInt runTimes)]"

definition save_task_callback_log :: "'db store \<Rightarrow> int \<Rightarrow> int \<Rightarrow> callback_detail \<Rightarrow> ('db, unit) io" where
  "save_task_callback_log S nowCall nowEnd d =
     bind_io
       (op_updates (st_log S) (log_run_query (cd_taskId d) (cd_runTimes d))
         (callback_log_sets nowCall nowEnd d))
       (\<lambda>_. ret_io ())"

definition confirmed_log_sets :: "int \<Rightarrow> task_resp \<Rightarrow> assign list" where
  "confirmed_log_sets now p =
     [(DbFieldEndedAt, Lit (VInt now)), (DbFieldRespExtra, Lit (VText (tr_extra p)))] @
     (if is_task_success (tr_taskStatus p) then [(DbFieldTaskStatus, Lit (VInt statusSuccess))]
      else if is_task_failed (tr_taskStatus p) then [(DbFieldTaskStatus, Lit (VInt statusFailed))]
      else [])"

definition save_task_confirmed_log :: "'db store \<Rightarrow> int \<Rightarrow> confirmed_detail \<Rightarrow> ('db, unit) io" where
  "save_task_confirmed_log S now d =
     bind_io
       (op_updates (st_log S)
         (log_run_query (tr_taskId (fd_taskResp d)) (tr_taskRunTimes (fd_taskResp d)))
         (confirmed_log_sets now (fd_taskResp d)))
       (\<lambda>_. ret_io ())"

text \<open>The handlers of \<open>DelLogs\<close> react to one of the stream's options.\<close>

fun del_logs_conds :: "stream_opt list \<Rightarrow> cond list" where
  "del_logs_conds [] = []"
| "del_logs_conds (QueryOptKeyCreatedExceed val # opts) =
     CGt DbFieldCreatedAt val # del_logs_conds opts"
| "del_logs_conds (QueryOptKeyTaskFinished # opts) = del_logs_conds opts"

definition del_logs :: "'db store \<Rightarrow> stream_opt list \<Rightarrow> ('db, unit) io" where
  "del_logs S opts =
     bind_io (op_delete (st_task S) (unscoped_q (del_logs_conds opts))) (\<lambda>_. ret_io ())"

definition mysql_log_repo :: "'db store \<Rightarrow> 'db log_repo" where
  "mysql_log_repo S =
     \<lparr>il_SaveTaskStartedLog = save_task_started_log S,
      il_SaveTaskCallbackLog = save_task_callback_log S,
      il_SaveTaskConfirmedLog = save_task_confirmed_log S,
      il_DelLogs = del_logs S\<rparr>"

section \<open>Lemmas\<close>

lemma mysql_log_repo_simps [simp]:
  "il_SaveTaskStartedLog (mysql_log_repo S) = save_task_started_log S"
  "il_SaveTaskCallbackLog (mysql_log_repo S) = save_task_callback_log S"
  "il_SaveTaskConfirmedLog (mysql_log_repo S) = save_task_confirmed_log S"
  "il_DelLogs (mysql_log_repo S) = del_logs S"
  by (simp_all add: mysql_log_repo_def)

lemma same_key_log [simp]:
  "same_key co log_schema x y \<longleftrightarrow> lm_TaskId x = lm_TaskId y \<and> lm_RunTimes x = lm_RunTimes y"
  by (simp add: same_key_def log_schema_def log_get_def)

definition log_key :: "log_model \<Rightarrow> u64 \<times> int" where
  "log_key r = (lm_TaskId r, lm_RunTimes r)"

text \<open>What an update of the callback and of the confirmation does to a row it selects.\<close>

definition callback_row :: "int \<Rightarrow> int \<Rightarrow> callback_detail \<Rightarrow> log_model \<Rightarrow> log_model" where
  "callback_row nowCall nowEnd d r =
     r\<lparr>lm_IsRunInAsync := cd_isRunInAsync d,
       lm_ReqSnapshot := Some
         \<lparr>qs_SrvSchema = rt_scheme (cd_route d), qs_Host = rt_host (cd_route d),
          qs_Port = rt_port (cd_route d), qs_TimeoutSec = rt_callbackTimeoutSec (cd_route d),
          qs_CallbackAt = nowCall, qs_CallbackPath = cd_callbackPath d\<rparr>,
       lm_RespSnapshot := Some \<lparr>ps_RespRaw = cd_respRaw d\<rparr>,
       lm_TaskStatus := (if is_task_success (cd_taskStatus d) then statusSuccess
                         else if is_task_failed (cd_taskStatus d) then statusFailed
                         else lm_TaskStatus r),
       lm_EndedAt := (if is_task_success (cd_taskStatus d) \<or> is_task_failed (cd_taskStatus d)
                      then nowEnd else lm_EndedAt r)\<rparr>"

definition confirmed_row :: "int \<Rightarrow> task_resp \<Rightarrow> log_model \<Rightarrow> log_model" where
  "confirmed_row now p r =
     r\<lparr>lm_EndedAt := now, lm_RespExtra := tr_extra p,
       lm_TaskStatus := (if is_task_success (tr_taskStatus p) then statusSuccess
                         else if is_task_failed (tr_taskStatus p) then statusFailed
                         else lm_TaskStatus r)\<rparr>"

definition log_run :: "collation \<Rightarrow> string \<Rightarrow> int \<Rightarrow> log_model \<Rightarrow> bool" where
  "log_run co taskId k r \<longleftrightarrow>
     bm_DeletedAt r = 0 \<and> co_num co (uint (lm_TaskId r)) taskId \<and> lm_RunTimes r = k"

lemma selected_log_run:
  "selected co log_schema (log_run_query taskId k) r \<longleftrightarrow> log_run co taskId k r"
  by (simp add: log_run_query_def log_run_def log_schema_def log_get_def)

lemma apply_confirmed: "apply_sets log_schema (confirmed_log_sets now p) r = confirmed_row now p r"
  by (cases "tr_taskStatus p")
    (simp_all add: apply_sets_def confirmed_log_sets_def confirmed_row_def
      task_status_defs)

lemma apply_callback:
  "cd_err d = None \<Longrightarrow>
     apply_sets log_schema (callback_log_sets nowCall nowEnd d) r = callback_row nowCall nowEnd d r"
  by (cases "cd_taskStatus d")
    (simp_all add: apply_sets_def callback_log_sets_def callback_status_sets_def
      callback_err_sets_def callback_row_def task_status_defs)

lemma log_sets_payload:
  "payload log_schema (callback_log_sets n1 n2 d)"
  "payload log_schema (confirmed_log_sets n1 p)"
  by (auto simp: callback_log_sets_def callback_status_sets_def callback_err_sets_def
      confirmed_log_sets_def split: option.splits)

lemma distinct_log_keys:
  assumes "store_inv co v"
  shows "distinct (map log_key (tb_log v))"
  using assms
  by (auto simp: store_inv_def table_inv_def distinct_conv_nth sorted_wrt_iff_nth_less log_key_def)
    (metis linorder_neqE_nat)

context sql_store
begin

lemma save_started_ok:
  assumes "save_task_started_log S now d db = (Inr u, db')"
  obtains w v i where "checkedTaskModelId (t_id (sd_task d)) = Inr w"
    "toCallbackSrvRouteModelId (cs_id (t_callbackSrv (sd_task d))) = Inr v"
    "i \<noteq> 0" "i \<notin> bm_Id ` set (tb_log (view db))"
    "view db' = (view db)\<lparr>tb_log := tb_log (view db) @
       [stamped i (clk db) (zero_log_model\<lparr>lm_TaskId := w, lm_StartedAt := now,
          lm_TaskStatus := statusRunning, lm_RunTimes := t_runTimes (sd_task d), lm_SrvId := v\<rparr>)]\<rparr>"
    "\<forall>y \<in> set (tb_log (view db)). \<not> (lm_TaskId y = w \<and> lm_RunTimes y = t_runTimes (sd_task d))"
  using assms by (auto simp: save_task_started_log_def bind_io_ok elim!: log_create)

lemma save_started_err:
  "save_task_started_log S now d db = (Inl e, db') \<Longrightarrow> view db' = view db"
  by (auto simp: save_task_started_log_def bind_io_err dest: stmt_err)

lemma save_callback_ok:
  assumes "save_task_callback_log S n1 n2 d db = (Inr u, db')" and "cd_err d = None"
  shows "view db' = (view db)\<lparr>tb_log :=
     map (\<lambda>r. if log_run co (cd_taskId d) (cd_runTimes d) r
              then (callback_row n1 n2 d r)\<lparr>bm_UpdatedAt := clk db\<rparr> else r) (tb_log (view db))\<rparr>"
  using assms(1)
  by (auto simp: save_task_callback_log_def bind_io_ok upd_rows_def upd_row_def selected_log_run
      apply_callback [OF assms(2)] dest!: log_updates)

lemma save_confirmed_ok:
  assumes "save_task_confirmed_log S now d db = (Inr u, db')"
  shows "view db' = (view db)\<lparr>tb_log :=
     map (\<lambda>r. if log_run co (tr_taskId (fd_taskResp d)) (tr_taskRunTimes (fd_taskResp d)) r
              then (confirmed_row now (fd_taskResp d) r)\<lparr>bm_UpdatedAt := clk db\<rparr> else r)
       (tb_log (view db))\<rparr>"
  using assms
  by (auto simp: save_task_confirmed_log_def bind_io_ok upd_rows_def upd_row_def selected_log_run
      apply_confirmed dest!: log_updates)

lemma save_callback_err:
  "save_task_callback_log S n1 n2 d db = (Inl e, db') \<Longrightarrow> view db' = view db"
  by (auto simp: save_task_callback_log_def bind_io_err dest: stmt_err)

lemma save_confirmed_err:
  "save_task_confirmed_log S now d db = (Inl e, db') \<Longrightarrow> view db' = view db"
  by (auto simp: save_task_confirmed_log_def bind_io_err dest: stmt_err)

lemma save_callback_frame:
  "save_task_callback_log S n1 n2 d db = (r, db') \<Longrightarrow>
     (view db')\<lparr>tb_log := []\<rparr> = (view db)\<lparr>tb_log := []\<rparr>"
  by (cases r) (auto simp: save_task_callback_log_def bind_io_ok bind_io_err
      dest: stmt_err dest!: log_updates)

lemma pres_log_ops [pres]:
  "pres_io inv_db (save_task_started_log S now sd)"
  "pres_io inv_db (save_task_callback_log S n1 n2 d)"
  "pres_io inv_db (save_task_confirmed_log S now c)"
  "pres_io inv_db (del_logs S opts)"
  by (auto simp: save_task_started_log_def save_task_callback_log_def save_task_confirmed_log_def
      del_logs_def log_sets_payload intro!: pres)

end

sublocale sql_store \<subseteq> logs: task_log_repo "mysql_log_repo S" view
proof
  show "il_SaveTaskStartedLog (mysql_log_repo S) now d s = (r, s') \<Longrightarrow>
      (view s')\<lparr>tb_log := []\<rparr> = (view s)\<lparr>tb_log := []\<rparr>" for now d s r s'
    by (cases r) (auto dest: save_started_err elim!: save_started_ok)
  show "il_SaveTaskConfirmedLog (mysql_log_repo S) now f s = (r, s') \<Longrightarrow>
      (view s')\<lparr>tb_log := []\<rparr> = (view s)\<lparr>tb_log := []\<rparr>" for now f s r s'
    by (cases r) (auto dest: save_confirmed_err dest!: save_confirmed_ok)
  show "il_SaveTaskCallbackLog (mysql_log_repo S) now1 now2 c s = (r, s') \<Longrightarrow>
      (view s')\<lparr>tb_log := []\<rparr> = (view s)\<lparr>tb_log := []\<rparr>" for now1 now2 c s r s'
    by (auto dest: save_callback_frame)
qed

end
