(* ===== verification/Task_Srv_Repo.thy ===== *)
theory Task_Srv_Repo
  imports Repo_Interfaces
begin

text \<open>
  \<open>internal/task/impl/repo/mysql/task_srv_repo.go\<close>: the registry's data, one row per callback
  service and one row per route of a service. Registering adds or revives rows, unregistering
  soft-deletes the routes (and the service with its last route), and \<open>GetSrvs\<close> joins the two
  tables in the program.
\<close>

section \<open>Operations\<close>

text \<open>First half of \<open>AddSrvRoutes\<close>: the service's row, revived when it was deleted.\<close>

definition add_srv_row :: "'db store \<Rightarrow> string \<Rightarrow> ('db, srv_model) io" where
  "add_srv_row S name =
     bind_io (op_first_or_create (st_srv S) (unscoped_q [CEq DbFieldName (VText name)])
                (zero_srv_model\<lparr>sm_Name := name\<rparr>)) (\<lambda>(srvModel, rowsAffected).
       if rowsAffected = 0 \<and> bm_DeletedAt srvModel > 0 then
         bind_io (op_updates (st_srv S)
                    (unscoped_q [CEq DbFieldId (VId (bm_Id srvModel))])
                    [(DbFieldDeletedAt, Lit (VInt 0))])
           (\<lambda>_. ret_io srvModel)
       else ret_io srvModel)"

text \<open>The body of the loop over the routes.\<close>

definition route_query :: "u64 \<Rightarrow> srv_route \<Rightarrow> query" where
  "route_query srvId route =
     unscoped_q [CEq DbFieldSrvId (VId srvId), CEq DbFieldHost (VText (rt_host route)),
                 CEq DbFieldPort (VInt (rt_port route)),
                 CEq DbFieldSrvSchema (VText (rt_scheme route))]"

definition new_route_row :: "u64 \<Rightarrow> srv_route \<Rightarrow> route_model" where
  "new_route_row srvId route =
     zero_route_model\<lparr>rm_SrvSchema := rt_scheme route, rm_Host := rt_host route,
       rm_Port := rt_port route, rm_SrvId := srvId,
       rm_CallbackTimeoutSec := rt_callbackTimeoutSec route,
       rm_EnableHealthCheck := rt_isEnableHealthCheck route\<rparr>"

definition route_update_sets :: "srv_route \<Rightarrow> route_model \<Rightarrow> assign list" where
  "route_update_sets route routeModel =
     [(DbFieldDeletedAt, Lit (VInt 0)),
      (DbFieldEnableHealthCheck, Lit (VBool (rt_isEnableHealthCheck route)))] @
     (if rt_callbackTimeoutSec route \<noteq> rm_CallbackTimeoutSec routeModel
      then [(DbFieldCallbackTimeoutSec, Lit (VInt (rt_callbackTimeoutSec route)))] else [])"

definition add_route_row :: "'db store \<Rightarrow> u64 \<Rightarrow> srv_route \<Rightarrow> ('db, unit) io" where
  "add_route_row S srvId route =
     bind_io (op_first_or_create (st_route S) (route_query srvId route) (new_route_row srvId route))
       (\<lambda>(routeModel, rowsAffected).
         if rowsAffected > 0 then ret_io ()
         else bind_io (op_updates (st_route S)
                         (unscoped_q [CEq DbFieldId (VId (bm_Id routeModel))])
                         (route_update_sets route routeModel))
                (\<lambda>_. ret_io ()))"

fun add_route_rows :: "'db store \<Rightarrow> u64 \<Rightarrow> srv_route list \<Rightarrow> bool \<Rightarrow> ('db, bool) io" where
  "add_route_rows S srvId [] hasEnableHealthCheck = ret_io hasEnableHealthCheck"
| "add_route_rows S srvId (route # routes) hasEnableHealthCheck =
     bind_io (add_route_row S srvId route) (\<lambda>_.
       add_route_rows S srvId routes (hasEnableHealthCheck \<or> rt_isEnableHealthCheck route))"

definition add_srv_routes :: "'db store \<Rightarrow> callback_srv \<Rightarrow> ('db, unit) io" where
  "add_srv_routes S srv =
     bind_io (add_srv_row S (cs_name srv)) (\<lambda>srvModel.
     bind_io (add_route_rows S (bm_Id srvModel) (cs_routes srv) False) (\<lambda>hasEnableHealthCheck.
       if hasEnableHealthCheck \<and> \<not> sm_HasEnableHealthCheck srvModel then
         bind_io (op_updates (st_srv S) (where_q [CEq DbFieldId (VId (bm_Id srvModel))])
                    [(DbFieldHasEnableHealthCheck, Lit (VBool True))])
           (\<lambda>_. ret_io ())
       else ret_io ()))"

text \<open>\<open>Take\<close> of a service by name; both callers translate the missing record.\<close>

definition take_srv :: "'db store \<Rightarrow> string \<Rightarrow> ('db, srv_model) io" where
  "take_srv S name = (\<lambda>db.
     case op_take (st_srv S) (where_q [CEq DbFieldName (VText name)]) db of
       (Inl e, db') \<Rightarrow>
         (Inl (if e = RecordNotFound then newBizErr ErrCodeTaskCallbackSrvNotFound else e), db')
     | (Inr srvModel, db') \<Rightarrow> (Inr srvModel, db'))"

fun route_model_ids :: "srv_route list \<Rightarrow> go_err + u64 list" where
  "route_model_ids [] = Inr []"
| "route_model_ids (route # routes) =
     (case toCallbackSrvRouteModelId (rt_id route) of
        Inl e \<Rightarrow> Inl e
      | Inr w \<Rightarrow> (case route_model_ids routes of Inl e \<Rightarrow> Inl e | Inr ws \<Rightarrow> Inr (w # ws)))"

definition routes_in_query :: "u64 \<Rightarrow> u64 list \<Rightarrow> query" where
  "routes_in_query srvId ids =
     where_q [CEq DbFieldSrvId (VId srvId), CIn DbFieldId (map VId ids)]"

text \<open>The two counts of \<open>DelSrvRoutes\<close>, with the source's \<open>COUNT(IF(enable_health_check > 0, 1, 0))\<close>.\<close>

definition route_nums_aggs :: "agg list" where
  "route_nums_aggs =
     [CountConst (VInt 1), CountIfPos DbFieldEnableHealthCheck (VInt 1) (VInt 0)]"

definition del_srv_routes :: "'db store \<Rightarrow> callback_srv \<Rightarrow> ('db, unit) io" where
  "del_srv_routes S srv =
     bind_io (take_srv S (cs_name srv)) (\<lambda>srvModel.
     bind_io (lift_io (route_model_ids (cs_routes srv))) (\<lambda>routeModelIds.
     bind_io (op_delete (st_route S) (routes_in_query (bm_Id srvModel) routeModelIds)) (\<lambda>_.
     bind_io (op_counts (st_route S) (where_q [CEq DbFieldSrvId (VId (bm_Id srvModel))])
                route_nums_aggs) (\<lambda>nums.
       case nums of
         [totalNum, enabledCheckHealthNum] \<Rightarrow>
           if totalNum = 0 then
             bind_io (op_delete (st_srv S) (where_q [CEq DbFieldId (VId (bm_Id srvModel))]))
               (\<lambda>_. ret_io ())
           else if enabledCheckHealthNum = 0 \<and> sm_HasEnableHealthCheck srvModel then
             bind_io (op_updates (st_srv S) (where_q [CEq DbFieldId (VId (bm_Id srvModel))])
                        [(DbFieldHasEnableHealthCheck, Lit (VBool False))])
               (\<lambda>_. ret_io ())
           else ret_io ()
       | _ \<Rightarrow> throw_io (DbErr ''scan'')))))"

definition set_srv_routes_pass_health_check :: "'db store \<Rightarrow> int \<Rightarrow> callback_srv \<Rightarrow> ('db, unit) io" where
  "set_srv_routes_pass_health_check S now srv =
     (if cs_routes srv = [] then ret_io ()
      else
        bind_io (take_srv S (cs_name srv)) (\<lambda>srvModel.
        bind_io (lift_io (route_model_ids (cs_routes srv))) (\<lambda>routeModelIds.
        bind_io (op_updates (st_route S) (routes_in_query (bm_Id srvModel) routeModelIds)
                   [(DbFieldCheckedHealthAt, Lit (VInt now))]) (\<lambda>_.
        bind_io (op_updates (st_srv S) (where_q [CEq DbFieldId (VId (bm_Id srvModel))])
                   [(DbFieldCheckedHealthAt, Lit (VInt now))]) (\<lambda>_. ret_io ())))))"

text \<open>The handlers of \<open>GetSrvs\<close>: the conditions so far and the health-check restriction.\<close>

fun id_strings :: "string list \<Rightarrow> go_err + u64 list" where
  "id_strings [] = Inr []"
| "id_strings (s # ss) =
     (case toTackCallbackSrvRouteModelId s of
        Inl e \<Rightarrow> Inl e
      | Inr w \<Rightarrow> (case id_strings ss of Inl e \<Rightarrow> Inl e | Inr ws \<Rightarrow> Inr (w # ws)))"

fun srv_query_opts :: "query_opt list \<Rightarrow> cond list \<Rightarrow> bool \<Rightarrow> go_err + cond list \<times> bool" where
  "srv_query_opts [] conds only = Inr (conds, only)"
| "srv_query_opts (QueryOptKeyInIds val # opts) conds only =
     (case id_strings val of
        Inl e \<Rightarrow> Inl e
      | Inr ids \<Rightarrow> srv_query_opts opts (conds @ [CIn DbFieldId (map VId ids)]) only)"
| "srv_query_opts (QueryOptKeyEnabledHeathCheck # opts) conds only =
     srv_query_opts opts (conds @ [CEq DbFieldHasEnableHealthCheck (VInt 1)]) True"
| "srv_query_opts (QueryOptKeyCheckedHealthLt val # opts) conds only =
     srv_query_opts opts (conds @ [CLt DbFieldCheckedHealthAt val]) only"
| "srv_query_opts (QueryOptKeyEqName val # opts) conds only =
     srv_query_opts opts (conds @ [CEq DbFieldName (VText val)]) only"

definition srv_page_query :: "cond list \<Rightarrow> query_stream \<Rightarrow> query" where
  "srv_page_query conds qs =
     (where_q conds)\<lparr>q_limit := Some (qs_limit qs), q_offset := Some (qs_offset qs)\<rparr>"

definition routes_query :: "u64 list \<Rightarrow> bool \<Rightarrow> query" where
  "routes_query ids only =
     where_q (CIn DbFieldSrvId (map VId ids) #
              (if only then [CEq DbFieldEnableHealthCheck (VInt 1)] else []))"

definition join_routes :: "srv_model list \<Rightarrow> route_model list \<Rightarrow> callback_srv list" where
  "join_routes srvModels routeModels =
     map (\<lambda>m. srv_to_entity
                (map route_to_entity (filter (\<lambda>r. rm_SrvId r = bm_Id m) routeModels)) m) srvModels"

definition get_srvs :: "libs \<Rightarrow> 'db store \<Rightarrow> query_stream \<Rightarrow> ('db, callback_srv list) io" where
  "get_srvs L S qs =
     bind_io (lift_io (srv_query_opts (qs_opts qs) [] False)) (\<lambda>(conds, onlyEnabled).
     bind_io (op_find (st_srv S) (srv_page_query conds qs)) (\<lambda>srvModels.
       if srvModels = [] then ret_io []
       else
         bind_io (op_find (st_route S) (routes_query (lb_pluck_ids L srvModels) onlyEnabled))
           (\<lambda>routeModels. ret_io (join_routes srvModels routeModels))))"

definition get_srvs_by_ids :: "libs \<Rightarrow> 'db store \<Rightarrow> string list \<Rightarrow> ('db, callback_srv list) io" where
  "get_srvs_by_ids L S ids =
     get_srvs L S \<lparr>qs_opts = [QueryOptKeyInIds ids], qs_limit = int (length ids), qs_offset = 0\<rparr>"

definition mysql_srv_repo :: "libs \<Rightarrow> 'db store \<Rightarrow> 'db srv_repo" where
  "mysql_srv_repo L S =
     \<lparr>is_AddSrvRoutes = add_srv_routes S, is_DelSrvRoutes = del_srv_routes S,
      is_SetSrvRoutesPassHealthCheck = set_srv_routes_pass_health_check S,
      is_GetSrvsByIds = get_srvs_by_ids L S, is_GetSrvs = get_srvs L S\<rparr>"

section \<open>Lemmas on the pure parts\<close>

lemma mysql_srv_repo_simps [simp]:
  "is_AddSrvRoutes (mysql_srv_repo L S) = add_srv_routes S"
  "is_DelSrvRoutes (mysql_srv_repo L S) = del_srv_routes S"
  "is_SetSrvRoutesPassHealthCheck (mysql_srv_repo L S) = set_srv_routes_pass_health_check S"
  "is_GetSrvsByIds (mysql_srv_repo L S) = get_srvs_by_ids L S"
  "is_GetSrvs (mysql_srv_repo L S) = get_srvs L S"
  by (simp_all add: mysql_srv_repo_def)

lemma id_strings_map [simp]: "id_strings (map toTaskCallbackSrvEntityId ws) = Inr ws"
  by (induction ws) simp_all

lemma route_model_ids_entities [simp]:
  "route_model_ids (map route_to_entity rs) = Inr (map bm_Id rs)"
  by (induction rs) (simp_all add: id_defs)

lemma id_in_simps [simp]:
  "list_ex (sql_eq co (VId w)) (map VId ws) \<longleftrightarrow> w \<in> set ws"
  by (auto simp: list_ex_iff)

lemma sql_eq_bool [simp]: "sql_eq co (VBool b) (VInt 1) \<longleftrightarrow> b"
  by simp

lemma route_upd_row:
  "upd_row route_schema now (route_update_sets route m) m =
     m\<lparr>bm_DeletedAt := 0, rm_EnableHealthCheck := rt_isEnableHealthCheck route,
       rm_CallbackTimeoutSec := rt_callbackTimeoutSec route, bm_UpdatedAt := now\<rparr>"
  by (simp add: upd_row_def apply_sets_def route_update_sets_def route_schema_def route_set_def
      base_set_def)

lemma srv_upd_row:
  "upd_row srv_schema now [(DbFieldDeletedAt, Lit (VInt 0))] m = m\<lparr>bm_DeletedAt := 0, bm_UpdatedAt := now\<rparr>"
  "upd_row srv_schema now [(DbFieldHasEnableHealthCheck, Lit (VBool b))] m =
     m\<lparr>sm_HasEnableHealthCheck := b, bm_UpdatedAt := now\<rparr>"
  "upd_row srv_schema now [(DbFieldCheckedHealthAt, Lit (VInt n))] m =
     m\<lparr>sm_CheckedHealthAt := n, bm_UpdatedAt := now\<rparr>"
  by (simp_all add: upd_row_def apply_sets_def srv_schema_def srv_set_def base_set_def)

lemma route_checked_row:
  "upd_row route_schema now [(DbFieldCheckedHealthAt, Lit (VInt n))] m =
     m\<lparr>rm_CheckedHealthAt := n, bm_UpdatedAt := now\<rparr>"
  by (simp add: upd_row_def apply_sets_def route_schema_def route_set_def)

lemma route_update_sets_payload [simp]: "payload route_schema (route_update_sets route m)"
  by (simp add: route_update_sets_def)

lemma same_key_srv [simp]: "same_key co srv_schema x y \<longleftrightarrow> co_eq co (sm_Name x) (sm_Name y)"
  by (simp add: same_key_def srv_schema_def srv_get_def)

lemma same_key_route [simp]:
  "same_key co route_schema x y \<longleftrightarrow>
     co_eq co (rm_SrvSchema x) (rm_SrvSchema y) \<and> co_eq co (rm_Host x) (rm_Host y) \<and>
     rm_Port x = rm_Port y \<and> rm_SrvId x = rm_SrvId y"
  by (auto simp: same_key_def route_schema_def route_get_def)

section \<open>Lemmas on the operations\<close>

text \<open>A live route row of service \<open>w\<close> at the address of \<open>route\<close>.\<close>

definition route_at :: "collation \<Rightarrow> u64 \<Rightarrow> srv_route \<Rightarrow> route_model \<Rightarrow> bool" where
  "route_at co w route r \<longleftrightarrow>
     bm_DeletedAt r = 0 \<and> rm_SrvId r = w \<and> co_eq co (rm_Host r) (rt_host route) \<and>
     rm_Port r = rt_port route \<and> co_eq co (rm_SrvSchema r) (rt_scheme route)"

definition route_as :: "srv_route \<Rightarrow> route_model \<Rightarrow> bool" where
  "route_as route r \<longleftrightarrow>
     rm_EnableHealthCheck r = rt_isEnableHealthCheck route \<and>
     rm_CallbackTimeoutSec r = rt_callbackTimeoutSec route"

definition live_routes :: "tables \<Rightarrow> u64 \<Rightarrow> route_model list" where
  "live_routes v w = filter (\<lambda>r. bm_DeletedAt r = 0 \<and> rm_SrvId r = w) (tb_route v)"

context sql_store
begin

lemma pres_add_route_rows [pres]: "pres_io inv_db (add_route_rows S w routes b)"
  by (induction routes arbitrary: b) (auto simp: add_route_row_def new_route_row_def intro!: pres)

lemma pres_take_srv [pres]: "pres_io inv_db (take_srv S name)"
  by (rule pres_ioI)
    (auto simp: take_srv_def split: prod.splits sum.splits dest: srv_take srv_take_err)

lemma pres_srv_ops [pres]:
  "pres_io inv_db (add_srv_routes S srv)"
  "pres_io inv_db (del_srv_routes S srv)"
  "pres_io inv_db (set_srv_routes_pass_health_check S now srv)"
  "pres_io inv_db (get_srvs L S qs)"
proof -
  show "pres_io inv_db (add_srv_routes S srv)"
    by (auto simp: add_srv_routes_def add_srv_row_def intro!: pres)
  show "pres_io inv_db (del_srv_routes S srv)"
    by (auto simp: del_srv_routes_def intro!: pres split: list.splits)
  show "pres_io inv_db (set_srv_routes_pass_health_check S now srv)"
    by (auto simp: set_srv_routes_pass_health_check_def intro!: pres)
  show "pres_io inv_db (get_srvs L S qs)"
    by (auto simp: get_srvs_def intro!: pres)
qed

text \<open>The operations of the registry touch neither the tasks nor the logs.\<close>

abbreviation task_log_are :: "task_model list \<Rightarrow> log_model list \<Rightarrow> 'db \<Rightarrow> bool" where
  "task_log_are A B db \<equiv> tb_task (view db) = A \<and> tb_log (view db) = B"

lemma pres_srv_frame [pres]:
  "pres_io (task_log_are A B) (op_updates (st_srv S) q as)"
  "pres_io (task_log_are A B) (op_updates (st_route S) q as)"
  "pres_io (task_log_are A B) (op_delete (st_srv S) q)"
  "pres_io (task_log_are A B) (op_delete (st_route S) q)"
  "pres_io (task_log_are A B) (op_first_or_create (st_srv S) q x)"
  "pres_io (task_log_are A B) (op_first_or_create (st_route S) q y)"
  "pres_io (task_log_are A B) (op_counts (st_route S) q aggs)"
  "pres_io (task_log_are A B) (op_find (st_srv S) q)"
  "pres_io (task_log_are A B) (op_find (st_route S) q)"
  "pres_io (task_log_are A B) (take_srv S name)"
  by (rule pres_ioI, case_tac r,
      auto simp: take_srv_def split: prod.splits sum.splits if_splits
        dest: stmt_err srv_find route_find route_counts srv_take srv_take_err
        dest!: srv_updates route_updates srv_delete route_delete
        elim!: srv_first_or_create route_first_or_create)+

lemma pres_add_route_rows_frame [pres]: "pres_io (task_log_are A B) (add_route_rows S w routes b)"
  by (induction routes arbitrary: b) (auto simp: add_route_row_def new_route_row_def intro!: pres)

lemma srv_ops_frame:
  "pres_io (task_log_are A B) (add_srv_routes S srv)"
  "pres_io (task_log_are A B) (del_srv_routes S srv)"
  "pres_io (task_log_are A B) (set_srv_routes_pass_health_check S now srv)"
  "pres_io (task_log_are A B) (get_srvs L S qs)"
proof -
  show "pres_io (task_log_are A B) (add_srv_routes S srv)"
    by (auto simp: add_srv_routes_def add_srv_row_def intro!: pres)
  show "pres_io (task_log_are A B) (del_srv_routes S srv)"
    by (auto simp: del_srv_routes_def intro!: pres split: list.splits)
  show "pres_io (task_log_are A B) (set_srv_routes_pass_health_check S now srv)"
    by (auto simp: set_srv_routes_pass_health_check_def intro!: pres)
  show "pres_io (task_log_are A B) (get_srvs L S qs)"
    by (auto simp: get_srvs_def intro!: pres)
qed

text \<open>Registration.\<close>

lemma srv_mark: "inv_db db \<Longrightarrow> m \<in> set (tb_srv (view db)) \<Longrightarrow> 0 \<le> bm_DeletedAt m"
  by (auto simp: store_inv_def table_inv_def list_all_iff)

lemma route_mark: "inv_db db \<Longrightarrow> r \<in> set (tb_route (view db)) \<Longrightarrow> 0 \<le> bm_DeletedAt r"
  by (auto simp: store_inv_def table_inv_def list_all_iff)

lemma srv_id_eq:
  "inv_db db \<Longrightarrow> x \<in> set (tb_srv (view db)) \<Longrightarrow> y \<in> set (tb_srv (view db)) \<Longrightarrow>
     bm_Id x = bm_Id y \<Longrightarrow> x = y"
  by (auto simp: store_inv_def dest: table_inv_id)

lemma route_id_eq:
  "inv_db db \<Longrightarrow> x \<in> set (tb_route (view db)) \<Longrightarrow> y \<in> set (tb_route (view db)) \<Longrightarrow>
     bm_Id x = bm_Id y \<Longrightarrow> x = y"
  by (auto simp: store_inv_def dest: table_inv_id)

lemma srv_name_eq:
  "inv_db db \<Longrightarrow> x \<in> set (tb_srv (view db)) \<Longrightarrow> y \<in> set (tb_srv (view db)) \<Longrightarrow>
     co_eq co (sm_Name x) (sm_Name y) \<Longrightarrow> x = y"
  by (rule table_inv_unique [of co srv_schema "tb_srv (view db)"])
    (auto simp: store_inv_def intro: co_sym)

lemma add_srv_row_ok:
  assumes run: "add_srv_row S name db = (Inr m, db')" and inv: "inv_db db"
  obtains m' where "m' \<in> set (tb_srv (view db'))" "bm_Id m' = bm_Id m" "bm_DeletedAt m' = 0"
    "co_eq co (sm_Name m') name" "sm_HasEnableHealthCheck m' = sm_HasEnableHealthCheck m"
    "tb_route (view db') = tb_route (view db)"
proof -
  obtain n db1 where foc: "op_first_or_create (st_srv S) (unscoped_q [CEq DbFieldName (VText name)])
      (zero_srv_model\<lparr>sm_Name := name\<rparr>) db = (Inr (m, n), db1)"
    and rest: "(if n = 0 \<and> bm_DeletedAt m > 0 then
         bind_io (op_updates (st_srv S) (unscoped_q [CEq DbFieldId (VId (bm_Id m))])
                    [(DbFieldDeletedAt, Lit (VInt 0))]) (\<lambda>_. ret_io m)
       else ret_io m) db1 = (Inr m, db')"
    using run by (auto simp: add_srv_row_def bind_io_ok split: if_splits)
  from foc show thesis
  proof (cases rule: srv_first_or_create)
    case found
    show thesis
    proof (cases "bm_DeletedAt m > 0")
      case True
      with rest found(1) obtain k where
        "op_updates (st_srv S) (unscoped_q [CEq DbFieldId (VId (bm_Id m))])
           [(DbFieldDeletedAt, Lit (VInt 0))] db1 = (Inr k, db')"
        by (auto simp: bind_io_ok)
      from srv_updates [OF this] found show thesis
        by (intro that [of "m\<lparr>bm_DeletedAt := 0, bm_UpdatedAt := clk db1\<rparr>"])
          (auto simp: set_upd_rows srv_upd_row intro!: image_eqI [of _ _ m])
    next
      case False
      with rest found srv_mark [OF inv found(2)] show thesis
        by (intro that [of m]) auto
    qed
  next
    case (created i)
    with rest show thesis
      by (intro that [of m]) (auto simp: stamped_def)
  qed
qed

lemma add_route_row_ok:
  assumes run: "add_route_row S w route db = (Inr u, db')" and inv: "inv_db db"
  obtains r where "r \<in> set (tb_route (view db'))" "route_at co w route r" "route_as route r"
    "tb_srv (view db') = tb_srv (view db)"
    "\<And>w' route' x. x \<in> set (tb_route (view db)) \<Longrightarrow> route_at co w' route' x \<Longrightarrow>
       \<exists>y \<in> set (tb_route (view db')). route_at co w' route' y"
    "\<And>x. bm_Id x \<noteq> bm_Id r \<Longrightarrow> x \<in> set (tb_route (view db')) \<longleftrightarrow> x \<in> set (tb_route (view db))"
proof -
  obtain m n db1 where foc: "op_first_or_create (st_route S) (route_query w route)
      (new_route_row w route) db = (Inr (m, n), db1)"
    and rest: "(if n > 0 then ret_io ()
         else bind_io (op_updates (st_route S) (unscoped_q [CEq DbFieldId (VId (bm_Id m))])
                (route_update_sets route m)) (\<lambda>_. ret_io ())) db1 = (Inr u, db')"
    using run by (auto simp: add_route_row_def bind_io_ok)
  from foc show thesis
  proof (cases rule: route_first_or_create)
    case found
    let ?m' = "m\<lparr>bm_DeletedAt := 0, rm_EnableHealthCheck := rt_isEnableHealthCheck route,
       rm_CallbackTimeoutSec := rt_callbackTimeoutSec route, bm_UpdatedAt := clk db1\<rparr>"
    from found(1) rest obtain k where
      "op_updates (st_route S) (unscoped_q [CEq DbFieldId (VId (bm_Id m))])
         (route_update_sets route m) db1 = (Inr k, db')"
      by (auto simp: bind_io_ok)
    from route_updates [OF this] have v: "view db' = (view db)\<lparr>tb_route :=
        map (\<lambda>r. if bm_Id r = bm_Id m then upd_row route_schema (clk db1) (route_update_sets route m) r
                 else r) (tb_route (view db))\<rparr>"
      using found by (simp add: upd_rows_def)
    have only: "bm_Id r = bm_Id m \<longleftrightarrow> r = m" if "r \<in> set (tb_route (view db))" for r
      using route_id_eq [OF inv that found(2)] by auto
    have tb: "tb_route (view db') = map (\<lambda>r. if r = m then ?m' else r) (tb_route (view db))"
      using v only by (auto simp: route_upd_row)
    have addr: "route_at co w route ?m'"
      using found(3) by (simp add: route_at_def route_query_def)
    show thesis
    proof (rule that [of ?m'])
      show "?m' \<in> set (tb_route (view db'))" using tb found(2) by auto
      show "tb_srv (view db') = tb_srv (view db)" using v by simp
      show "route_at co w route ?m'" by (rule addr)
      show "route_as route ?m'" by (simp add: route_as_def)
      show "\<exists>y \<in> set (tb_route (view db')). route_at co w' route' y"
        if "x \<in> set (tb_route (view db))" "route_at co w' route' x" for w' route' x
      proof (cases "x = m")
        case True
        with that(2) have "route_at co w' route' ?m'" by (simp add: route_at_def)
        then show ?thesis using tb found(2) by auto
      next
        case False
        then show ?thesis using tb that by (intro bexI [of _ x]) auto
      qed
      show "x \<in> set (tb_route (view db')) \<longleftrightarrow> x \<in> set (tb_route (view db))"
        if "bm_Id x \<noteq> bm_Id ?m'" for x
        using that tb by (auto split: if_splits)
    qed
  next
    case (created i)
    with rest have v: "view db' = (view db)\<lparr>tb_route := tb_route (view db) @ [m]\<rparr>"
      by auto
    show thesis
      by (rule that [of m])
        (use v created(5) in \<open>auto simp: route_at_def route_as_def stamped_def new_route_row_def
          zero_route_model_def\<close>)
  qed
qed

lemma add_route_rows_ok:
  assumes "add_route_rows S w routes b db = (Inr has, db')" "inv_db db"
  shows "has = (b \<or> list_ex rt_isEnableHealthCheck routes) \<and>
    tb_srv (view db') = tb_srv (view db) \<and>
    (\<forall>route \<in> set routes. \<exists>r \<in> set (tb_route (view db')). route_at co w route r) \<and>
    (\<forall>w' route' x. x \<in> set (tb_route (view db)) \<longrightarrow> route_at co w' route' x \<longrightarrow>
       (\<exists>y \<in> set (tb_route (view db')). route_at co w' route' y))"
  using assms
proof (induction routes arbitrary: b db)
  case Nil
  then show ?case by auto
next
  case (Cons route routes)
  then obtain db1 where one: "add_route_row S w route db = (Inr (), db1)"
    and more: "add_route_rows S w routes (b \<or> rt_isEnableHealthCheck route) db1 = (Inr has, db')"
    by (auto simp: bind_io_ok)
  have "pres_io inv_db (add_route_row S w route)"
    by (auto simp: add_route_row_def new_route_row_def intro!: pres)
  from pres_ioD [OF this one Cons.prems(2)] have inv1: "inv_db db1" .
  note IH = Cons.IH [OF more inv1]
  from one Cons.prems(2) show ?case
  proof (rule add_route_row_ok)
    fix r
    assume r: "r \<in> set (tb_route (view db1))" "route_at co w route r"
      and srv: "tb_srv (view db1) = tb_srv (view db)"
      and keep: "\<And>w' route' x. x \<in> set (tb_route (view db)) \<Longrightarrow> route_at co w' route' x \<Longrightarrow>
        \<exists>y \<in> set (tb_route (view db1)). route_at co w' route' y"
    show ?case
      using IH r srv keep by (auto, blast+)
  qed
qed

lemma add_srv_routes_ok:
  assumes run: "add_srv_routes S srv db = (Inr u, db')" and inv: "inv_db db"
  obtains m where "m \<in> set (tb_srv (view db'))" "bm_DeletedAt m = 0" "co_eq co (sm_Name m) (cs_name srv)"
    "list_ex rt_isEnableHealthCheck (cs_routes srv) \<longrightarrow> sm_HasEnableHealthCheck m"
    "\<forall>route \<in> set (cs_routes srv). \<exists>r \<in> set (tb_route (view db')). route_at co (bm_Id m) route r"
proof -
  obtain m0 db1 has db2 where one: "add_srv_row S (cs_name srv) db = (Inr m0, db1)"
    and two: "add_route_rows S (bm_Id m0) (cs_routes srv) False db1 = (Inr has, db2)"
    and three: "(if has \<and> \<not> sm_HasEnableHealthCheck m0 then
         bind_io (op_updates (st_srv S) (where_q [CEq DbFieldId (VId (bm_Id m0))])
                    [(DbFieldHasEnableHealthCheck, Lit (VBool True))]) (\<lambda>_. ret_io ())
       else ret_io ()) db2 = (Inr u, db')"
    using run by (auto simp: add_srv_routes_def bind_io_ok)
  have "pres_io inv_db (add_srv_row S (cs_name srv))"
    by (auto simp: add_srv_row_def intro!: pres)
  from pres_ioD [OF this one inv] have inv1: "inv_db db1" .
  note routes = add_route_rows_ok [OF two inv1]
  from one inv show thesis
  proof (rule add_srv_row_ok)
    fix m
    assume m: "m \<in> set (tb_srv (view db1))" "bm_Id m = bm_Id m0" "bm_DeletedAt m = 0"
      "co_eq co (sm_Name m) (cs_name srv)" "sm_HasEnableHealthCheck m = sm_HasEnableHealthCheck m0"
    show thesis
    proof (cases "has \<and> \<not> sm_HasEnableHealthCheck m0")
      case True
      with three obtain k where
        "op_updates (st_srv S) (where_q [CEq DbFieldId (VId (bm_Id m0))])
           [(DbFieldHasEnableHealthCheck, Lit (VBool True))] db2 = (Inr k, db')"
        by (auto simp: bind_io_ok)
      from srv_updates [OF this] m routes show thesis
        by (intro that [of "m\<lparr>sm_HasEnableHealthCheck := True, bm_UpdatedAt := clk db2\<rparr>"])
          (auto simp: set_upd_rows srv_upd_row(2) [of _ True, simplified]
            intro!: image_eqI [of _ _ m])
    next
      case False
      with three m routes show thesis
        by (intro that [of m]) auto
    qed
  qed
qed

text \<open>Unregistration.\<close>

lemma take_srv_ok:
  "take_srv S name db = (Inr m, db') \<Longrightarrow>
     view db' = view db \<and> m \<in> set (tb_srv (view db)) \<and> bm_DeletedAt m = 0 \<and>
     co_eq co (sm_Name m) name"
  by (auto simp: take_srv_def split: prod.splits sum.splits dest!: srv_take)

lemma take_srv_missing:
  assumes "\<forall>m \<in> set (tb_srv (view db)). bm_DeletedAt m = 0 \<longrightarrow> \<not> co_eq co (sm_Name m) name"
  shows "\<exists>e. fst (take_srv S name db) = Inl e"
  using assms take_srv_ok [of name db] by (cases "take_srv S name db"; cases "fst (take_srv S name db)") auto

lemma route_nums:
  "map (count_agg route_schema R) route_nums_aggs = [int (length R), int (length R)]"
  by (simp add: route_nums_aggs_def count_agg_def)

lemma selected_route_srv:
  "selected co route_schema (where_q [CEq DbFieldSrvId (VId w)]) =
     (\<lambda>r. bm_DeletedAt r = 0 \<and> rm_SrvId r = w)"
  by (rule ext) (auto simp: selected_def where_q_def)

text \<open>
  After a successful call the listed routes of the service are gone, and the service goes with
  its last route. The two counts are equal, so the service's health-check flag is never reset.
\<close>

lemma del_srv_routes_ok:
  assumes run: "del_srv_routes S srv db = (Inr u, db')" and inv: "inv_db db"
  obtains m ids n n' where "m \<in> set (tb_srv (view db))" "bm_DeletedAt m = 0"
    "co_eq co (sm_Name m) (cs_name srv)" "route_model_ids (cs_routes srv) = Inr ids" "0 < n" "0 < n'"
    "tb_route (view db') =
       map (\<lambda>r. if bm_DeletedAt r = 0 \<and> rm_SrvId r = bm_Id m \<and> bm_Id r \<in> set ids
                then r\<lparr>bm_DeletedAt := n\<rparr> else r) (tb_route (view db))"
    "tb_srv (view db') =
       (if live_routes (view db') (bm_Id m) = []
        then map (\<lambda>x. if x = m then m\<lparr>bm_DeletedAt := n'\<rparr> else x) (tb_srv (view db))
        else tb_srv (view db))"
proof -
  obtain m db1 ids k db2 nums db3 where one: "take_srv S (cs_name srv) db = (Inr m, db1)"
    and ids: "route_model_ids (cs_routes srv) = Inr ids"
    and two: "op_delete (st_route S) (routes_in_query (bm_Id m) ids) db1 = (Inr k, db2)"
    and three: "op_counts (st_route S) (where_q [CEq DbFieldSrvId (VId (bm_Id m))])
      route_nums_aggs db2 = (Inr nums, db3)"
    and four: "(case nums of
         [totalNum, enabledCheckHealthNum] \<Rightarrow>
           if totalNum = 0 then
             bind_io (op_delete (st_srv S) (where_q [CEq DbFieldId (VId (bm_Id m))])) (\<lambda>_. ret_io ())
           else if enabledCheckHealthNum = 0 \<and> sm_HasEnableHealthCheck m then
             bind_io (op_updates (st_srv S) (where_q [CEq DbFieldId (VId (bm_Id m))])
                        [(DbFieldHasEnableHealthCheck, Lit (VBool False))]) (\<lambda>_. ret_io ())
           else ret_io ()
       | _ \<Rightarrow> throw_io (DbErr ''scan'')) db3 = (Inr u, db')"
    using run by (auto simp: del_srv_routes_def bind_io_ok)
  note m = take_srv_ok [OF one]
  from route_delete [OF two] m have v2: "view db2 = (view db)\<lparr>tb_route :=
      map (\<lambda>r. if bm_DeletedAt r = 0 \<and> rm_SrvId r = bm_Id m \<and> bm_Id r \<in> set ids
               then r\<lparr>bm_DeletedAt := clk db1\<rparr> else r) (tb_route (view db))\<rparr>"
    by (simp add: del_rows_def routes_in_query_def)
  from route_counts [OF three]
  have v3: "view db3 = view db2" and nums: "nums = [int (length (live_routes (view db2) (bm_Id m))),
      int (length (live_routes (view db2) (bm_Id m)))]"
    by (simp_all add: route_nums live_routes_def selected_route_srv)
  show thesis
  proof (cases "live_routes (view db2) (bm_Id m) = []")
    case True
    with four nums obtain j where
      "op_delete (st_srv S) (where_q [CEq DbFieldId (VId (bm_Id m))]) db3 = (Inr j, db')"
      by (auto simp: bind_io_ok)
    from srv_delete [OF this] v3 v2 have v': "view db' = (view db2)\<lparr>tb_srv :=
        map (\<lambda>x. if bm_DeletedAt x = 0 \<and> bm_Id x = bm_Id m then x\<lparr>bm_DeletedAt := clk db3\<rparr> else x)
          (tb_srv (view db))\<rparr>"
      by (simp add: del_rows_def)
    have only: "bm_DeletedAt x = 0 \<and> bm_Id x = bm_Id m \<longleftrightarrow> x = m" if "x \<in> set (tb_srv (view db))" for x
      using m srv_id_eq [OF inv that] by auto
    have "tb_srv (view db') = map (\<lambda>x. if x = m then m\<lparr>bm_DeletedAt := clk db3\<rparr> else x) (tb_srv (view db))"
      using v' only by auto
    moreover have "live_routes (view db') (bm_Id m) = []"
      using True v' by (simp add: live_routes_def)
    ultimately show thesis
      using m ids v2 v' tk.clk_pos by (intro that [of m ids "clk db1" "clk db3"]) auto
  next
    case False
    with four nums v3 have "view db' = view db2" by auto
    with False v2 show thesis
      using m ids tk.clk_pos by (intro that [of m ids "clk db1" 1]) auto
  qed
qed

lemma set_pass_health_check_ok:
  assumes run: "set_srv_routes_pass_health_check S now srv db = (Inr u, db')" and inv: "inv_db db"
    and some: "cs_routes srv \<noteq> []"
  obtains m ids n n' where "m \<in> set (tb_srv (view db))" "bm_DeletedAt m = 0"
    "co_eq co (sm_Name m) (cs_name srv)" "route_model_ids (cs_routes srv) = Inr ids"
    "tb_route (view db') =
       map (\<lambda>r. if bm_DeletedAt r = 0 \<and> rm_SrvId r = bm_Id m \<and> bm_Id r \<in> set ids
                then r\<lparr>rm_CheckedHealthAt := now, bm_UpdatedAt := n\<rparr> else r) (tb_route (view db))"
    "tb_srv (view db') =
       map (\<lambda>x. if x = m then m\<lparr>sm_CheckedHealthAt := now, bm_UpdatedAt := n'\<rparr> else x) (tb_srv (view db))"
proof -
  obtain m db1 ids k db2 j where one: "take_srv S (cs_name srv) db = (Inr m, db1)"
    and ids: "route_model_ids (cs_routes srv) = Inr ids"
    and two: "op_updates (st_route S) (routes_in_query (bm_Id m) ids)
      [(DbFieldCheckedHealthAt, Lit (VInt now))] db1 = (Inr k, db2)"
    and three: "op_updates (st_srv S) (where_q [CEq DbFieldId (VId (bm_Id m))])
      [(DbFieldCheckedHealthAt, Lit (VInt now))] db2 = (Inr j, db')"
    using run some by (auto simp: set_srv_routes_pass_health_check_def bind_io_ok)
  note m = take_srv_ok [OF one]
  have v2: "view db2 = (view db)\<lparr>tb_route :=
      map (\<lambda>r. if bm_DeletedAt r = 0 \<and> rm_SrvId r = bm_Id m \<and> bm_Id r \<in> set ids
               then r\<lparr>rm_CheckedHealthAt := now, bm_UpdatedAt := clk db1\<rparr> else r) (tb_route (view db))\<rparr>"
    using route_updates [OF two] m by (simp add: upd_rows_def routes_in_query_def route_checked_row)
  have only: "bm_DeletedAt x = 0 \<and> bm_Id x = bm_Id m \<longleftrightarrow> x = m" if "x \<in> set (tb_srv (view db))" for x
    using m srv_id_eq [OF inv that] by auto
  have v': "view db' = (view db2)\<lparr>tb_srv :=
      map (\<lambda>x. if bm_DeletedAt x = 0 \<and> bm_Id x = bm_Id m
               then x\<lparr>sm_CheckedHealthAt := now, bm_UpdatedAt := clk db2\<rparr> else x) (tb_srv (view db))\<rparr>"
    using srv_updates [OF three] v2 by (simp add: upd_rows_def srv_upd_row)
  have srvs: "tb_srv (view db') =
      map (\<lambda>x. if x = m then m\<lparr>sm_CheckedHealthAt := now, bm_UpdatedAt := clk db2\<rparr> else x) (tb_srv (view db))"
    using m by (simp add: v', intro ballI, frule_tac x = x in only) auto
  have routes: "tb_route (view db') = tb_route (view db2)"
    using v' by simp
  show thesis
    by (rule that [of m ids "clk db1" "clk db2"], insert m, simp, simp, simp, rule ids)
      (simp add: routes v2, rule srvs)
qed

text \<open>Queries.\<close>

lemma selected_routes_query:
  "selected co route_schema (routes_query ids only) r \<longleftrightarrow>
     bm_DeletedAt r = 0 \<and> rm_SrvId r \<in> set ids \<and> (only \<longrightarrow> rm_EnableHealthCheck r)"
  by (cases only) (auto simp: routes_query_def list_ex_iff)

lemma get_srvs_ok:
  assumes L: "libs_law L" and run: "get_srvs L S qs db = (Inr srvs, db')"
    and opts: "srv_query_opts (qs_opts qs) [] False = Inr (conds, only)" and lim: "qs_limit qs \<noteq> 0"
  obtains ms rs where "view db' = view db"
    "find_result co srv_schema (srv_page_query conds qs) (tb_srv (view db)) ms"
    "srvs = join_routes ms rs"
    "set rs = {r \<in> set (tb_route (view db)). bm_DeletedAt r = 0 \<and> rm_SrvId r \<in> bm_Id ` set ms \<and>
                 (only \<longrightarrow> rm_EnableHealthCheck r)}"
proof -
  obtain ms db1 where one: "op_find (st_srv S) (srv_page_query conds qs) db = (Inr ms, db1)"
    and two: "(if ms = [] then ret_io []
       else bind_io (op_find (st_route S) (routes_query (lb_pluck_ids L ms) only))
              (\<lambda>rs. ret_io (join_routes ms rs))) db1 = (Inr srvs, db')"
    using run opts by (auto simp: get_srvs_def bind_io_ok)
  from srv_find [OF one] lim have v1: "view db1 = view db"
    and ms: "find_result co srv_schema (srv_page_query conds qs) (tb_srv (view db)) ms"
    by (auto simp: srv_page_query_def)
  show thesis
  proof (cases "ms = []")
    case True
    with two v1 ms show thesis
      by (intro that [of ms "[]"]) (auto simp: join_routes_def)
  next
    case False
    with two obtain rs where "op_find (st_route S) (routes_query (lb_pluck_ids L ms) only) db1 = (Inr rs, db')"
      and srvs: "srvs = join_routes ms rs"
      by (auto simp: bind_io_ok)
    from route_find [OF this(1)] v1 L have "view db' = view db"
      and "find_result co route_schema (routes_query (map bm_Id ms) only) (tb_route (view db)) rs"
      by (auto simp: libs_law_def routes_query_def)
    have v: "view db' = view db" and
      fr: "find_result co route_schema (routes_query (map bm_Id ms) only) (tb_route (view db)) rs"
      by fact+
    have "set rs = {r \<in> set (tb_route (view db)). selected co route_schema (routes_query (map bm_Id ms) only) r}"
      by (rule find_result_all_set [OF fr]) (simp_all add: routes_query_def)
    also have "\<dots> = {r \<in> set (tb_route (view db)). bm_DeletedAt r = 0 \<and> rm_SrvId r \<in> bm_Id ` set ms \<and>
                 (only \<longrightarrow> rm_EnableHealthCheck r)}"
      by (rule Collect_cong) (simp add: selected_routes_query)
    finally show thesis
      using v ms srvs by (intro that [of ms rs])
  qed
qed

lemma srv_find_frame: "op_find (st_srv S) q db = (r, db') \<Longrightarrow> view db' = view db"
  by (cases r) (auto dest: stmt_err srv_find)

lemma route_find_frame: "op_find (st_route S) q db = (r, db') \<Longrightarrow> view db' = view db"
  by (cases r) (auto dest: stmt_err route_find)

lemma get_srvs_frame:
  assumes "get_srvs L S qs db = (r, db')"
  shows "view db' = view db"
proof (cases "srv_query_opts (qs_opts qs) [] False")
  case (Inl e)
  with assms show ?thesis by (simp add: get_srvs_def bind_io_def)
next
  case (Inr p)
  obtain conds only where p: "p = (conds, only)" by (cases p)
  obtain x db1 where one: "op_find (st_srv S) (srv_page_query conds qs) db = (x, db1)"
    by (cases "op_find (st_srv S) (srv_page_query conds qs) db")
  have v1: "view db1 = view db" by (rule srv_find_frame [OF one])
  obtain y db2 where two: "op_find (st_route S) (routes_query (lb_pluck_ids L (projr x)) only) db1 = (y, db2)"
    by (cases "op_find (st_route S) (routes_query (lb_pluck_ids L (projr x)) only) db1")
  have v2: "view db2 = view db1" by (rule route_find_frame [OF two])
  show ?thesis
    using assms Inr p one two v1 v2
    by (cases x; cases y) (auto simp: get_srvs_def bind_io_def ret_io_def split: if_splits)
qed

end

text \<open>The store together with the third-party functions the repositories call.\<close>

locale easytask_store = sql_store +
  fixes L :: libs
  assumes libs: "libs_law L"
begin

lemma get_srvs_by_ids_ok:
  assumes "get_srvs_by_ids L S (map toTaskCallbackSrvEntityId ws) db = (Inr srvs, db')" and "ws \<noteq> []"
  obtains ms rs where "view db' = view db" "srvs = join_routes ms rs"
    "find_result co srv_schema (srv_page_query [CIn DbFieldId (map VId ws)]
       \<lparr>qs_opts = [QueryOptKeyInIds (map toTaskCallbackSrvEntityId ws)], qs_limit = int (length ws),
        qs_offset = 0\<rparr>) (tb_srv (view db)) ms"
    "set rs = {r \<in> set (tb_route (view db)). bm_DeletedAt r = 0 \<and> rm_SrvId r \<in> bm_Id ` set ms}"
proof -
  have opts: "srv_query_opts [QueryOptKeyInIds (map toTaskCallbackSrvEntityId ws)] [] False =
      Inr ([CIn DbFieldId (map VId ws)], False)"
    by simp
  show thesis
    by (rule get_srvs_ok [OF libs assms(1) [unfolded get_srvs_by_ids_def]])
      (use opts assms(2) in \<open>auto intro: that\<close>)
qed

lemma join_routes_in:
  assumes "s \<in> set (join_routes ms rs)"
  obtains m where "m \<in> set ms"
    "s = srv_to_entity (map route_to_entity (filter (\<lambda>r. rm_SrvId r = bm_Id m) rs)) m"
  using assms by (auto simp: join_routes_def)

text \<open>
  The page of \<open>GetSrvsByIds\<close> is as long as the list of identifiers, so no service is cut off.
\<close>

lemma by_ids_page:
  assumes "find_result co srv_schema (srv_page_query [CIn DbFieldId (map VId ws)]
       \<lparr>qs_opts = x, qs_limit = int (length ws), qs_offset = 0\<rparr>) R ms"
    and "distinct (map bm_Id R)" "m \<in> set R" "bm_DeletedAt m = 0" "bm_Id m \<in> set ws"
  shows "m \<in> set ms"
proof -
  let ?q = "srv_page_query [CIn DbFieldId (map VId ws)] \<lparr>qs_opts = x, qs_limit = int (length ws), qs_offset = 0\<rparr>"
  obtain xs where xs: "mset xs = mset (filter (selected co srv_schema ?q) R)" and ms: "ms = page ?q xs"
    using assms(1) by (auto simp: find_result_def)
  have sel: "selected co srv_schema ?q r \<longleftrightarrow> bm_DeletedAt r = 0 \<and> bm_Id r \<in> set ws" for r
    by (simp add: selected_def srv_page_query_def)
  have set_xs: "set xs = {r \<in> set R. bm_DeletedAt r = 0 \<and> bm_Id r \<in> set ws}"
    using arg_cong [OF xs, of set_mset] sel by simp
  have "mset (map bm_Id xs) = mset (map bm_Id (filter (selected co srv_schema ?q) R))"
    using xs by (metis mset_map)
  moreover have "distinct (map bm_Id (filter (selected co srv_schema ?q) R))"
    using assms(2) by (rule distinct_map_filter)
  ultimately have "distinct (map bm_Id xs)"
    using mset_eq_imp_distinct_iff by blast
  moreover have "set (map bm_Id xs) \<subseteq> set ws"
    using set_xs by auto
  ultimately have "length xs \<le> length ws"
    by (metis card_length card_mono distinct_card finite_set length_map order_trans)
  then have "ms = xs"
    by (simp add: ms page_def srv_page_query_def)
  with set_xs assms(3-5) show ?thesis by simp
qed

end

sublocale easytask_store \<subseteq> srvs: callback_srv_repo "mysql_srv_repo L S" view
proof
  show "is_GetSrvsByIds (mysql_srv_repo L S) ids s = (r, s') \<Longrightarrow> view s' = view s" for ids s r s'
    by (auto simp: get_srvs_by_ids_def dest: get_srvs_frame)
next
  fix ws s srvs s' srv
  assume run: "is_GetSrvsByIds (mysql_srv_repo L S) (map toTaskCallbackSrvEntityId ws) s = (Inr srvs, s')"
    and srv: "srv \<in> set srvs"
  assume ws: "ws \<noteq> []"
  obtain ms rs where srvs: "srvs = join_routes ms rs"
    and ms: "find_result co srv_schema (srv_page_query [CIn DbFieldId (map VId ws)]
       \<lparr>qs_opts = [QueryOptKeyInIds (map toTaskCallbackSrvEntityId ws)], qs_limit = int (length ws),
        qs_offset = 0\<rparr>) (tb_srv (view s)) ms"
    using run ws by (auto elim: get_srvs_by_ids_ok)
  obtain m where m: "m \<in> set ms" "cs_id srv = toTaskCallbackSrvEntityId (bm_Id m)" "cs_name srv = sm_Name m"
    using srv srvs by (auto elim!: join_routes_in simp: id_defs)
  from find_result_set [OF ms m(1)] m
  show "\<exists>m \<in> set (tb_srv (view s)). bm_DeletedAt m = 0 \<and> bm_Id m \<in> set ws \<and>
      cs_id srv = toTaskCallbackSrvEntityId (bm_Id m) \<and> cs_name srv = sm_Name m"
    by (intro bexI [of _ m]) (auto simp: srv_page_query_def selected_def)
next
  fix ws s srvs s' m
  assume "is_GetSrvsByIds (mysql_srv_repo L S) (map toTaskCallbackSrvEntityId ws) s = (Inr srvs, s')"
    and "distinct (map bm_Id (tb_srv (view s)))" "distinct ws" "ws \<noteq> []"
    and "m \<in> set (tb_srv (view s))" "bm_DeletedAt m = 0" "bm_Id m \<in> set ws"
  then show "\<exists>srv \<in> set srvs. cs_id srv = toTaskCallbackSrvEntityId (bm_Id m)"
    by (auto elim!: get_srvs_by_ids_ok dest!: by_ids_page simp: join_routes_def id_defs)
qed

end
