(* ===== verification/Task_Repo.thy ===== *)
theory Task_Repo
  imports Task_Log_Repo Task_Srv_Repo
begin

text \<open>
  \<open>internal/task/impl/repo/mysql/task_repo.go\<close>: the task table. \<open>AddTask\<close> inserts a task or
  overwrites the row of the same name and business id, \<open>TimeoutTasks\<close> pages through the due
  tasks, \<open>LockTask\<close> is a compare-and-swap on the run number and the last run time, and
  \<open>ConfirmTask\<close> records the outcome of a run.

  The file ends with the contract \<open>task_repo_contract\<close> proved for the repository over any
  database that meets \<open>easytask_store\<close>.
\<close>

section \<open>Operations\<close>

definition del_task_by_id :: "'db store \<Rightarrow> string \<Rightarrow> ('db, unit) io" where
  "del_task_by_id S taskId =
     bind_io (lift_io (checkedTaskModelId taskId)) (\<lambda>modelId.
     bind_io (op_delete (st_task S) (where_q [CEq DbFieldId (VId modelId)])) (\<lambda>_. ret_io ()))"

definition take_task :: "'db store \<Rightarrow> u64 \<Rightarrow> ('db, task_model) io" where
  "take_task S taskModelId db =
     (case op_take (st_task S) (where_q [CEq DbFieldId (VId taskModelId)]) db of
        (Inl e, db') \<Rightarrow> (Inl (if e = RecordNotFound then newBizErr ErrCodeTaskNotFound else e), db')
      | (Inr m, db') \<Rightarrow> (Inr m, db'))"

definition time_spec_at :: "task_model \<Rightarrow> int" where
  "time_spec_at m = (if tm_SchedMode m = schedModeTimeSpec then tm_PlanSchedNextAt m else 0)"

text \<open>The request both readers build from a row; \<open>TimeoutTasks\<close> adds the business id.\<close>

definition task_req_of :: "task_model \<Rightarrow> callback_srv \<Rightarrow> sched_mode \<Rightarrow> new_task_req" where
  "task_req_of m srv schedMode =
     zero_task_req
       \<lparr>nt_Id := toTaskEntityId (bm_Id m), nt_CallbackSrv := Some srv,
        nt_CallbackPath := tm_CallbackPath m, nt_Name := tm_Name m, nt_Arg := tm_Arg m,
        nt_RunTimes := tm_RunTimes m, nt_LastRunAt := tm_LastRunAt m,
        nt_AllowMaxRunTimes := tm_AllowMaxRunTimes m, nt_SchedMode := schedMode,
        nt_TimeCronExpr := tm_TimeCronExpr m, nt_TimeIntervalSec := tm_TimeIntervalSec m,
        nt_TimeSpecAt := time_spec_at m\<rparr>"

definition get_task_by_id :: "libs \<Rightarrow> 'db store \<Rightarrow> 'db srv_repo \<Rightarrow> string \<Rightarrow> ('db, task) io" where
  "get_task_by_id L S SR taskId =
     bind_io (lift_io (checkedTaskModelId taskId)) (\<lambda>taskModelId.
     bind_io (take_task S taskModelId) (\<lambda>taskModel.
     bind_io (is_GetSrvsByIds SR [toTaskCallbackSrvEntityId (tm_CallbackSrvId taskModel)]) (\<lambda>srvs.
       case srvs of
         [] \<Rightarrow> throw_io (newBizErr ErrCodeTaskCallbackSrvNotFound)
       | srv # _ \<Rightarrow>
           bind_io (lift_io (toTaskEntitySchedMode (tm_SchedMode taskModel))) (\<lambda>schedMode.
           lift_io (new_task (lb_vld L) (task_req_of taskModel srv schedMode))))))"

definition allow_max_run_times :: "sched_mode \<Rightarrow> int" where
  "allow_max_run_times m =
     (case m of
        SchedModeTimeSpec \<Rightarrow> 1
      | SchedModeTimeCron \<Rightarrow> max_int
      | SchedModeTimeInterval \<Rightarrow> max_int
      | SchedModeNil \<Rightarrow> 0)"

definition new_task_row :: "u64 \<Rightarrow> int \<Rightarrow> int \<Rightarrow> task \<Rightarrow> task_model" where
  "new_task_row srvId schedMode schedNextAt t =
     zero_task_model
       \<lparr>tm_Name := t_name t, tm_Arg := t_arg t, tm_SchedMode := schedMode,
        tm_TimeCronExpr := t_timeCronExpr t, tm_TimeIntervalSec := t_timeIntervalSec t,
        tm_PlanSchedNextAt := schedNextAt,
        tm_AllowMaxRunTimes := allow_max_run_times (t_schedMode t),
        tm_CallbackPath := t_callbackPath t, tm_CallbackSrvId := srvId, tm_BizId := t_bizId t,
        tm_MaxRunTimeSec := t_timeIntervalSec t\<rparr>"

text \<open>The assignments for a task that exists already; \<open>m\<close> is the row \<open>FirstOrCreate\<close> answered.\<close>

definition readd_sets :: "u64 \<Rightarrow> int \<Rightarrow> int \<Rightarrow> task \<Rightarrow> task_model \<Rightarrow> assign list" where
  "readd_sets srvId schedMode schedNextAt t m =
     [(DbFieldSchedMode, Lit (VInt schedMode)),
      (DbFieldTimeCronExpr, Lit (VText (t_timeCronExpr t))),
      (DbFieldTimeIntervalSec, Lit (VInt (t_timeIntervalSec t))),
      (DbFieldPlanSchedNextAt, Lit (VInt schedNextAt)),
      (DbFieldCallbackSrvId, Lit (VId srvId)),
      (DbFieldCallbackPath, Lit (VText (t_callbackPath t))),
      (DbFieldAllowMaxRunTimes,
         if schedMode = schedModeTimeSpec \<and>
            (tm_SchedMode m \<noteq> schedModeTimeSpec \<or> tm_PlanSchedNextAt m \<noteq> schedNextAt)
         then FieldPlus DbFieldRunTimes (allow_max_run_times (t_schedMode t))
         else Lit (VInt (allow_max_run_times (t_schedMode t)))),
      (DbFieldMaxRunTimeSec, Lit (VInt (tm_MaxRunTimeSec m))),
      (DbFieldDeletedAt, Lit (VInt 0)),
      (DbFieldArg, Lit (VText (t_arg t)))]"

text \<open>
  A failed \<open>FirstOrCreate\<close> is reported with the outer \<open>err\<close>, which is nil at that point: the
  caller gets an empty identifier and no error.
\<close>

definition upsert_task ::
    "'db store \<Rightarrow> u64 \<Rightarrow> int \<Rightarrow> int \<Rightarrow> task \<Rightarrow> ('db, string) io" where
  "upsert_task S srvId schedMode schedNextAt t db =
     (case op_first_or_create (st_task S)
             (unscoped_q [CEq DbFieldName (VText (t_name t)), CEq DbFieldBizId (VText (t_bizId t))])
             (new_task_row srvId schedMode schedNextAt t) db of
        (Inl e, db') \<Rightarrow> (Inr [], db')
      | (Inr (taskModel, rowsAffected), db') \<Rightarrow>
          if rowsAffected = 0 then
            bind_io
              (op_updates (st_task S) (unscoped_q [CEq DbFieldId (VId (bm_Id taskModel))])
                 (readd_sets srvId schedMode schedNextAt t taskModel))
              (\<lambda>_. ret_io (toTaskEntityId (bm_Id taskModel))) db'
          else (Inr (toTaskEntityId (bm_Id taskModel)), db'))"

definition add_task :: "libs \<Rightarrow> 'db store \<Rightarrow> int \<Rightarrow> task \<Rightarrow> ('db, string) io" where
  "add_task L S now t =
     bind_io (lift_io (toCallbackSrvRouteModelId (cs_id (t_callbackSrv t)))) (\<lambda>srvId.
     bind_io (lift_io (toTaskModelSchedMode (t_schedMode t))) (\<lambda>schedMode.
     bind_io (lift_io (get_sched_next_at (lb_cron L) now t)) (\<lambda>schedNextAt.
       upsert_task S srvId schedMode schedNextAt t)))"

definition cursor_task_model_id :: "string \<Rightarrow> go_err + u64" where
  "cursor_task_model_id cursor = (if cursor \<noteq> [] then checkedTaskModelId cursor else Inr 0)"

definition timeout_query :: "int \<Rightarrow> int \<Rightarrow> u64 \<Rightarrow> query" where
  "timeout_query now lim cursorId =
     (where_q
        [CGt DbFieldId (uint cursorId), CLtField DbFieldRunTimes DbFieldAllowMaxRunTimes,
         CLe DbFieldPlanSchedNextAt now])\<lparr>q_limit := Some lim, q_order_id := True\<rparr>"

text \<open>The loop that drops repeated service identifiers, and the one that fills the map.\<close>

fun dedup_srv_ids :: "u64 list \<Rightarrow> string list \<Rightarrow> string set \<Rightarrow> string list" where
  "dedup_srv_ids [] callbackSrvIds callbackSrvIdSet = callbackSrvIds"
| "dedup_srv_ids (w # ws) callbackSrvIds callbackSrvIdSet =
     (let callbackSrvId = toCallbackSrvRouteEntityId w
      in if callbackSrvId \<in> callbackSrvIdSet then dedup_srv_ids ws callbackSrvIds callbackSrvIdSet
         else dedup_srv_ids ws (callbackSrvIds @ [callbackSrvId])
                (insert callbackSrvId callbackSrvIdSet))"

definition callback_srv_map :: "callback_srv list \<Rightarrow> (string \<rightharpoonup> callback_srv)" where
  "callback_srv_map srvs = fold (\<lambda>srv m. m(cs_id srv \<mapsto> srv)) srvs Map.empty"

text \<open>A row whose service is unknown is skipped; the first row that fails ends the loop.\<close>

fun build_tasks :: "libs \<Rightarrow> (string \<rightharpoonup> callback_srv) \<Rightarrow> task_model list \<Rightarrow> go_err + task list" where
  "build_tasks L srvMap [] = Inr []"
| "build_tasks L srvMap (m # ms) =
     (case srvMap (toTaskCallbackSrvEntityId (tm_CallbackSrvId m)) of
        None \<Rightarrow> build_tasks L srvMap ms
      | Some srv \<Rightarrow>
          (case toTaskEntitySchedMode (tm_SchedMode m) of
             Inl e \<Rightarrow> Inl e
           | Inr schedMode \<Rightarrow>
               (case new_task (lb_vld L)
                       ((task_req_of m srv schedMode)\<lparr>nt_BizId := tm_BizId m\<rparr>) of
                  Inl e \<Rightarrow> Inl e
                | Inr t \<Rightarrow>
                    (case build_tasks L srvMap ms of Inl e \<Rightarrow> Inl e | Inr ts \<Rightarrow> Inr (t # ts)))))"

definition next_cursor :: "task list \<Rightarrow> string" where
  "next_cursor tasks = (if tasks = [] then [] else t_id (last tasks))"

definition timeout_tasks ::
    "libs \<Rightarrow> 'db store \<Rightarrow> 'db srv_repo \<Rightarrow> int \<Rightarrow> int \<Rightarrow> string \<Rightarrow> ('db, task list \<times> string) io" where
  "timeout_tasks L S SR now lim cursor =
     bind_io (lift_io (cursor_task_model_id cursor)) (\<lambda>cursorTaskModelId.
     bind_io (op_find (st_task S) (timeout_query now lim cursorTaskModelId)) (\<lambda>taskModels.
       if taskModels = [] then ret_io ([], [])
       else
         bind_io (is_GetSrvsByIds SR (dedup_srv_ids (lb_pluck_srv_ids L taskModels) [] {}))
           (\<lambda>callbackSrvs.
         bind_io (lift_io (build_tasks L (callback_srv_map callbackSrvs) taskModels)) (\<lambda>tasks.
         ret_io (tasks, next_cursor tasks)))))"

definition lock_query :: "u64 \<Rightarrow> task \<Rightarrow> query" where
  "lock_query taskModelId t =
     where_q [CEq DbFieldId (VId taskModelId), CEq DbFieldLastRunAt (VInt (t_lastRunAt t)),
              CEq DbFieldRunTimes (VInt (t_runTimes t))]"

definition lock_sets :: "int \<Rightarrow> int \<Rightarrow> assign list" where
  "lock_sets now schedNextAt =
     [(DbFieldLastRunAt, Lit (VInt now)), (DbFieldRunTimes, FieldPlus DbFieldRunTimes 1),
      (DbFieldPlanSchedNextAt, Lit (VInt schedNextAt))]"

text \<open>
  \<open>LockTask\<close> increments the run number of the caller's task object, so the object is returned
  next to the answer.
\<close>

definition lock_task ::
    "libs \<Rightarrow> 'db store \<Rightarrow> 'db log_repo \<Rightarrow> int \<Rightarrow> int \<Rightarrow> int \<Rightarrow> task \<Rightarrow> 'db \<Rightarrow>
       (go_err + bool) \<times> task \<times> 'db" where
  "lock_task L S LR now nowSched nowLog t db =
     (case get_sched_next_at (lb_cron L) nowSched t of
        Inl e \<Rightarrow> (Inl e, t, db)
      | Inr schedNextAt \<Rightarrow>
          (case checkedTaskModelId (t_id t) of
             Inl e \<Rightarrow> (Inl e, t, db)
           | Inr taskModelId \<Rightarrow>
               (case op_updates (st_task S) (lock_query taskModelId t) (lock_sets now schedNextAt) db of
                  (Inl e, db1) \<Rightarrow> (Inl e, t, db1)
                | (Inr rowsAffected, db1) \<Rightarrow>
                    if rowsAffected = 0 then (Inr False, t, db1)
                    else
                      (case il_SaveTaskStartedLog LR nowLog \<lparr>sd_task = incr_run_times t\<rparr> db1 of
                         (Inl e, db2) \<Rightarrow> (Inl e, incr_run_times t, db2)
                       | (Inr _, db2) \<Rightarrow> (Inr True, incr_run_times t, db2)))))"

text \<open>
  The error of the identifier's conversion is overwritten before it is looked at, so the value
  goes into the statements whatever it is.
\<close>

definition confirm_task ::
    "'db store \<Rightarrow> 'db log_repo \<Rightarrow> int \<Rightarrow> int \<Rightarrow> task_resp \<Rightarrow> ('db, unit) io" where
  "confirm_task S LR now nowLog resp =
     (let taskModelId = fst (toTaskModelId (tr_taskId resp));
          upd = (\<lambda>f. op_updates (st_task S) (where_q [CEq DbFieldId (VId taskModelId)])
                       [(f, Lit (VInt now))])
      in bind_io (if is_task_success (tr_taskStatus resp)
                  then bind_io (upd DbFieldLastSuccessAt) (\<lambda>_. ret_io ()) else ret_io ()) (\<lambda>_.
         bind_io (if is_task_failed (tr_taskStatus resp)
                  then bind_io (upd DbFieldLastFailedAt) (\<lambda>_. ret_io ()) else ret_io ()) (\<lambda>_.
           il_SaveTaskConfirmedLog LR nowLog \<lparr>fd_taskResp = resp\<rparr>)))"

fun del_tasks_conds :: "stream_opt list \<Rightarrow> cond list" where
  "del_tasks_conds [] = []"
| "del_tasks_conds (QueryOptKeyCreatedExceed val # opts) =
     CGt DbFieldCreatedAt val # del_tasks_conds opts"
| "del_tasks_conds (QueryOptKeyTaskFinished # opts) =
     CLeField DbFieldAllowMaxRunTimes DbFieldRunTimes # del_tasks_conds opts"

text \<open>The statement is built from the struct \<open>TaskLogRepo\<close>, which is the row of no table.\<close>

definition del_tasks :: "'db store \<Rightarrow> stream_opt list \<Rightarrow> ('db, unit) io" where
  "del_tasks S opts =
     bind_io (st_delete_untracked S ''task_log_repos'' (unscoped_q (del_tasks_conds opts)))
       (\<lambda>_. ret_io ())"

definition mysql_task_repo ::
    "libs \<Rightarrow> 'db store \<Rightarrow> 'db srv_repo \<Rightarrow> 'db log_repo \<Rightarrow> 'db task_repo" where
  "mysql_task_repo L S SR LR =
     \<lparr>ir_TimeoutTasks = timeout_tasks L S SR, ir_LockTask = lock_task L S LR,
      ir_ConfirmTask = confirm_task S LR, ir_AddTask = add_task L S,
      ir_GetTaskById = get_task_by_id L S SR, ir_DelTaskById = del_task_by_id S,
      ir_DelTasks = del_tasks S\<rparr>"

text \<open>The task repository as \<open>main\<close> builds it.\<close>

definition easytask_repo :: "libs \<Rightarrow> 'db store \<Rightarrow> 'db task_repo" where
  "easytask_repo L S = mysql_task_repo L S (mysql_srv_repo L S) (mysql_log_repo S)"

section \<open>Lemmas on the pure parts\<close>

lemma mysql_task_repo_simps [simp]:
  "ir_TimeoutTasks (mysql_task_repo L S SR LR) = timeout_tasks L S SR"
  "ir_LockTask (mysql_task_repo L S SR LR) = lock_task L S LR"
  "ir_ConfirmTask (mysql_task_repo L S SR LR) = confirm_task S LR"
  "ir_AddTask (mysql_task_repo L S SR LR) = add_task L S"
  "ir_GetTaskById (mysql_task_repo L S SR LR) = get_task_by_id L S SR"
  "ir_DelTaskById (mysql_task_repo L S SR LR) = del_task_by_id S"
  "ir_DelTasks (mysql_task_repo L S SR LR) = del_tasks S"
  by (simp_all add: mysql_task_repo_def)

text \<open>The domain object that stands for a row: what a worker knows of the task.\<close>

definition snapshot :: "task_model \<Rightarrow> task \<Rightarrow> bool" where
  "snapshot m t \<longleftrightarrow>
     t_id t = toTaskEntityId (bm_Id m) \<and> t_name t = tm_Name m \<and> t_arg t = tm_Arg m \<and>
     t_callbackPath t = tm_CallbackPath m \<and> t_runTimes t = tm_RunTimes m \<and>
     t_lastRunAt t = tm_LastRunAt m \<and> t_allowMaxRunTimes t = tm_AllowMaxRunTimes m \<and>
     toTaskEntitySchedMode (tm_SchedMode m) = Inr (t_schedMode t) \<and>
     t_timeCronExpr t = tm_TimeCronExpr m \<and> t_timeIntervalSec t = tm_TimeIntervalSec m \<and>
     t_timeSpecAt t = time_spec_at m \<and> t_maxRunTimeSec t = 0 \<and>
     cs_id (t_callbackSrv t) = toTaskCallbackSrvEntityId (tm_CallbackSrvId m)"

lemma dedup_srv_ids_gen:
  "\<exists>vs. dedup_srv_ids ws (map toTaskCallbackSrvEntityId us) (toTaskCallbackSrvEntityId ` set us) =
        map toTaskCallbackSrvEntityId vs \<and>
      set vs = set us \<union> set ws \<and> (distinct us \<longrightarrow> distinct vs)"
proof (induction ws arbitrary: us)
  case Nil
  then show ?case by auto
next
  case (Cons w ws)
  show ?case
  proof (cases "w \<in> set us")
    case True
    then have "toCallbackSrvRouteEntityId w \<in> toTaskCallbackSrvEntityId ` set us"
      by (auto simp: id_defs)
    with Cons.IH [of us] True show ?thesis by (auto simp: Let_def insert_absorb)
  next
    case False
    then have "toCallbackSrvRouteEntityId w \<notin> toTaskCallbackSrvEntityId ` set us"
      by (auto simp: id_defs)
    with Cons.IH [of "us @ [w]"] False show ?thesis
      by (auto simp: Let_def id_defs)
  qed
qed

lemma dedup_srv_ids_ok:
  obtains vs where "dedup_srv_ids ws [] {} = map toTaskCallbackSrvEntityId vs" "set vs = set ws"
    "distinct vs"
  using dedup_srv_ids_gen [of ws "[]"] by auto

lemma callback_srv_map_gen:
  "fold (\<lambda>srv m. m(cs_id srv \<mapsto> srv)) srvs M k = Some s \<Longrightarrow>
     (s \<in> set srvs \<and> cs_id s = k) \<or> M k = Some s"
  by (induction srvs arbitrary: M) (force split: if_splits)+

lemma callback_srv_map_Some: "callback_srv_map srvs k = Some s \<Longrightarrow> s \<in> set srvs \<and> cs_id s = k"
  using callback_srv_map_gen [of srvs Map.empty k s] by (simp add: callback_srv_map_def)

lemma callback_srv_map_dom: "dom (callback_srv_map srvs) = cs_id ` set srvs"
proof -
  have "dom (fold (\<lambda>srv m. m(cs_id srv \<mapsto> srv)) srvs M) = cs_id ` set srvs \<union> dom M" for M
    by (induction srvs arbitrary: M) auto
  then show ?thesis by (simp add: callback_srv_map_def)
qed

lemma new_task_snapshot:
  assumes "new_task vld ((task_req_of m srv mode)\<lparr>nt_BizId := b\<rparr>) = Inr t"
    and "cs_id srv = toTaskCallbackSrvEntityId (tm_CallbackSrvId m)"
    and "toTaskEntitySchedMode (tm_SchedMode m) = Inr mode"
  shows "snapshot m t" "t_callbackSrv t = srv" "t_bizId t = b"
  using new_task_fields [OF assms(1)] assms(2,3)
  by (auto simp: snapshot_def task_req_of_def zero_task_req_def)

lemma new_task_srv:
  "new_task vld ((task_req_of m srv mode)\<lparr>nt_BizId := b\<rparr>) = Inr t \<Longrightarrow> srv = t_callbackSrv t"
  by (drule new_task_fields) (simp add: task_req_of_def zero_task_req_def)

lemma build_tasks_ok:
  assumes "build_tasks L M ms = Inr ts" and "\<And>k s. M k = Some s \<Longrightarrow> cs_id s = k"
  shows "list_all2 (\<lambda>m t. snapshot m t \<and> t_bizId t = tm_BizId m \<and>
             M (toTaskCallbackSrvEntityId (tm_CallbackSrvId m)) = Some (t_callbackSrv t))
           (filter (\<lambda>m. M (toTaskCallbackSrvEntityId (tm_CallbackSrvId m)) \<noteq> None) ms) ts"
  using assms(1)
proof (induction ms arbitrary: ts)
  case Nil
  then show ?case by simp
next
  case (Cons m ms)
  then show ?case
    by (auto split: option.splits sum.splits intro: new_task_snapshot
        dest: assms(2) new_task_srv)
qed

text \<open>A row that \<open>AddTask\<close> wrote never makes the loop fail.\<close>

lemma build_tasks_total:
  assumes "validator_law (lb_vld L)"
    and "\<forall>m \<in> set ms. tm_Name m \<noteq> [] \<and> tm_SchedMode m \<in> {1, 2, 3}"
  shows "\<exists>ts. build_tasks L M ms = Inr ts"
  using assms(2)
proof (induction ms)
  case Nil
  then show ?case by simp
next
  case (Cons m ms)
  then obtain ts where ts: "build_tasks L M ms = Inr ts" by auto
  from Cons.prems obtain mode where mode: "toTaskEntitySchedMode (tm_SchedMode m) = Inr mode"
    by (auto simp: toTaskEntitySchedMode_def sched_mode_consts)
  have "mode \<noteq> SchedModeNil" using mode toTaskEntitySchedMode_not_nil by metis
  then have "\<exists>t. new_task (lb_vld L) ((task_req_of m srv mode)\<lparr>nt_BizId := tm_BizId m\<rparr>) = Inr t" for srv
    using Cons.prems
    by (auto simp: new_task_ok_iff [OF assms(1)] task_req_of_def zero_task_req_def)
  then obtain f where "new_task (lb_vld L) ((task_req_of m srv mode)\<lparr>nt_BizId := tm_BizId m\<rparr>) = Inr (f srv)" for srv
    by metis
  with ts mode show ?case
    by (cases "M (toTaskCallbackSrvEntityId (tm_CallbackSrvId m))") simp_all
qed

section \<open>Locking\<close>

definition locked_row :: "int \<Rightarrow> int \<Rightarrow> int \<Rightarrow> task_model \<Rightarrow> task_model" where
  "locked_row now schedNextAt stamp r =
     r\<lparr>tm_LastRunAt := now, tm_RunTimes := tm_RunTimes r + 1, tm_PlanSchedNextAt := schedNextAt,
       bm_UpdatedAt := stamp\<rparr>"

definition run_no :: "tables \<Rightarrow> u64 \<Rightarrow> int option" where
  "run_no v w = map_option tm_RunTimes (find (\<lambda>r. bm_Id r = w) (tb_task v))"

lemma upd_row_lock: "upd_row task_schema stamp (lock_sets now nxt) r = locked_row now nxt stamp r"
  by (simp add: upd_row_def apply_sets_def lock_sets_def locked_row_def)

lemma locked_row_changes: "locked_row now nxt stamp r \<noteq> r"
proof
  assume "locked_row now nxt stamp r = r"
  from arg_cong [OF this, of tm_RunTimes] show False by (simp add: locked_row_def)
qed

lemma locked_row_id [simp]: "bm_Id (locked_row now nxt stamp r) = bm_Id r"
  by (simp add: locked_row_def)

lemma find_distinct:
  "distinct (map f xs) \<Longrightarrow> x \<in> set xs \<Longrightarrow> find (\<lambda>y. f y = f x) xs = Some x"
  by (induction xs) (auto simp: rev_image_eqI)

lemma run_no_Some:
  "distinct (map bm_Id (tb_task v)) \<Longrightarrow> r \<in> set (tb_task v) \<Longrightarrow>
     run_no v (bm_Id r) = Some (tm_RunTimes r)"
  by (simp add: run_no_def find_distinct)

lemma run_no_SomeD: "run_no v w = Some k \<Longrightarrow> \<exists>r \<in> set (tb_task v). bm_Id r = w \<and> tm_RunTimes r = k"
  by (auto simp: run_no_def find_Some_iff intro!: nth_mem bexI [of _ "tb_task v ! _"])

definition run_keys :: "tables \<Rightarrow> (u64 \<times> int) list" where
  "run_keys v = map (\<lambda>r. (bm_Id r, tm_RunTimes r)) (tb_task v)"

lemma run_no_find: "run_no v w = map_option snd (find (\<lambda>p. fst p = w) (run_keys v))"
proof -
  have "map_option tm_RunTimes (find (\<lambda>r. bm_Id r = w) R) =
      map_option snd (find (\<lambda>p. fst p = w) (map (\<lambda>r. (bm_Id r, tm_RunTimes r)) R))" for R :: "task_model list"
    by (induction R) auto
  then show ?thesis by (simp add: run_no_def run_keys_def)
qed

text \<open>No run number goes down.\<close>

definition run_no_le :: "tables \<Rightarrow> tables \<Rightarrow> bool" where
  "run_no_le v v' \<longleftrightarrow> (\<forall>w k. run_no v w = Some k \<longrightarrow> (\<exists>k'. run_no v' w = Some k' \<and> k \<le> k'))"

lemma run_no_le_refl [simp]: "run_no_le v v"
  by (simp add: run_no_le_def)

lemma run_no_le_trans: "run_no_le u v \<Longrightarrow> run_no_le v w \<Longrightarrow> run_no_le u w"
  by (fastforce simp: run_no_le_def)

lemma run_no_le_prefix: "run_keys v' = run_keys v @ ks \<Longrightarrow> run_no_le v v'"
proof -
  assume eq: "run_keys v' = run_keys v @ ks"
  have "find P (xs @ ys) = (case find P xs of Some x \<Rightarrow> Some x | None \<Rightarrow> find P ys)"
    for P and xs ys :: "(u64 \<times> int) list"
    by (induction xs) auto
  then show ?thesis by (auto simp: run_no_le_def run_no_find eq)
qed

lemma run_no_le_same: "run_keys v' = run_keys v \<Longrightarrow> run_no_le v v'"
  using run_no_le_prefix [of v' v "[]"] by simp

lemma run_keys_cong: "tb_task v' = tb_task v \<Longrightarrow> run_keys v' = run_keys v"
  by (simp add: run_keys_def)

lemma store_inv_ids: "store_inv co v \<Longrightarrow> distinct (map bm_Id (tb_task v))"
  by (simp add: store_inv_def table_inv_def)

lemma run_no_iff:
  assumes "store_inv co v"
  shows "run_no v w = Some k \<longleftrightarrow> (\<exists>r \<in> set (tb_task v). bm_Id r = w \<and> tm_RunTimes r = k)"
  using run_no_SomeD run_no_Some [OF store_inv_ids [OF assms]] by blast

context sql_store
begin

lemma task_id_eq:
  "inv_db db \<Longrightarrow> x \<in> set (tb_task (view db)) \<Longrightarrow> y \<in> set (tb_task (view db)) \<Longrightarrow>
     bm_Id x = bm_Id y \<Longrightarrow> x = y"
  by (auto simp: store_inv_def dest: table_inv_id)

lemma selected_lock:
  "selected co task_schema (lock_query w t) r \<longleftrightarrow>
     bm_DeletedAt r = 0 \<and> bm_Id r = w \<and> tm_LastRunAt r = t_lastRunAt t \<and> tm_RunTimes r = t_runTimes t"
  by (auto simp: lock_query_def)

text \<open>The number of rows affected is the number of rows selected: the update always changes a row.\<close>

lemma lock_update:
  assumes "op_updates (st_task S) (lock_query w t) (lock_sets now nxt) db = (Inr n, db1)"
  shows "n = length (filter (selected co task_schema (lock_query w t)) (tb_task (view db)))"
    and "view db1 = (view db)\<lparr>tb_task :=
      map (\<lambda>r. if bm_DeletedAt r = 0 \<and> bm_Id r = w \<and> tm_LastRunAt r = t_lastRunAt t \<and>
                  tm_RunTimes r = t_runTimes t
               then locked_row now nxt (clk db) r else r) (tb_task (view db))\<rparr>"
proof -
  show "n = length (filter (selected co task_schema (lock_query w t)) (tb_task (view db)))"
    using tk.updates_ok [OF assms] by (simp add: upd_row_lock locked_row_changes)
  show "view db1 = (view db)\<lparr>tb_task :=
      map (\<lambda>r. if bm_DeletedAt r = 0 \<and> bm_Id r = w \<and> tm_LastRunAt r = t_lastRunAt t \<and>
                  tm_RunTimes r = t_runTimes t
               then locked_row now nxt (clk db) r else r) (tb_task (view db))\<rparr>"
    using task_updates [OF assms] by (simp add: upd_rows_def upd_row_lock selected_lock)
qed

text \<open>The three outcomes of \<open>LockTask\<close>.\<close>

lemma lock_task_cases:
  assumes "lock_task L S (mysql_log_repo S) now nowSched nowLog t db = (b, t', db')" and inv: "inv_db db"
  obtains (error) e where "b = Inl e" "t' = t" "view db' = view db"
  | (refused) w nxt where "b = Inr False" "t' = t" "view db' = view db"
      "get_sched_next_at (lb_cron L) nowSched t = Inr nxt" "checkedTaskModelId (t_id t) = Inr w"
      "\<forall>r \<in> set (tb_task (view db)). \<not> (bm_DeletedAt r = 0 \<and> bm_Id r = w \<and>
         tm_LastRunAt r = t_lastRunAt t \<and> tm_RunTimes r = t_runTimes t)"
  | (taken) w nxt r db1 where "t' = incr_run_times t" "checkedTaskModelId (t_id t) = Inr w"
      "get_sched_next_at (lb_cron L) nowSched t = Inr nxt" "r \<in> set (tb_task (view db))"
      "bm_DeletedAt r = 0" "bm_Id r = w" "tm_LastRunAt r = t_lastRunAt t" "tm_RunTimes r = t_runTimes t"
      "view db1 = (view db)\<lparr>tb_task :=
         map (\<lambda>x. if x = r then locked_row now nxt (clk db) r else x) (tb_task (view db))\<rparr>"
      "(\<exists>u. save_task_started_log S nowLog \<lparr>sd_task = t'\<rparr> db1 = (Inr u, db') \<and> b = Inr True) \<or>
       (\<exists>e. save_task_started_log S nowLog \<lparr>sd_task = t'\<rparr> db1 = (Inl e, db') \<and> b = Inl e)"
proof (cases "get_sched_next_at (lb_cron L) nowSched t")
  case (Inl e)
  with assms(1) show thesis by (intro error) (auto simp: lock_task_def)
next
  case nxt: (Inr nxt)
  show thesis
  proof (cases "checkedTaskModelId (t_id t)")
    case (Inl e)
    with assms(1) nxt show thesis by (intro error) (auto simp: lock_task_def)
  next
    case w: (Inr w)
    obtain x db1 where upd: "op_updates (st_task S) (lock_query w t) (lock_sets now nxt) db = (x, db1)"
      by (cases "op_updates (st_task S) (lock_query w t) (lock_sets now nxt) db")
    show thesis
    proof (cases x)
      case (Inl e)
      with assms(1) nxt w upd show thesis
        by (intro error) (auto simp: lock_task_def dest: stmt_err)
    next
      case n: (Inr n)
      note upd' = lock_update [OF upd [unfolded n]]
      show thesis
      proof (cases "n = 0")
        case True
        with upd'(1) have none: "\<forall>r \<in> set (tb_task (view db)). \<not> (bm_DeletedAt r = 0 \<and> bm_Id r = w \<and>
           tm_LastRunAt r = t_lastRunAt t \<and> tm_RunTimes r = t_runTimes t)"
          by (simp add: filter_empty_conv selected_lock)
        then have "view db1 = view db"
          by (simp add: upd'(2) map_if_none)
        with True none assms(1) nxt w upd n show thesis
          by (intro refused [of nxt w]) (auto simp: lock_task_def)
      next
        case False
        then obtain r where r: "r \<in> set (tb_task (view db))" "bm_DeletedAt r = 0" "bm_Id r = w"
            "tm_LastRunAt r = t_lastRunAt t" "tm_RunTimes r = t_runTimes t"
          using upd'(1) by (auto simp: filter_empty_conv selected_lock)
        have "(bm_DeletedAt x = 0 \<and> bm_Id x = w \<and> tm_LastRunAt x = t_lastRunAt t \<and>
            tm_RunTimes x = t_runTimes t) \<longleftrightarrow> x = r" if "x \<in> set (tb_task (view db))" for x
          using task_id_eq [OF inv that r(1)] r by auto
        then have v1: "view db1 = (view db)\<lparr>tb_task :=
           map (\<lambda>x. if x = r then locked_row now nxt (clk db) r else x) (tb_task (view db))\<rparr>"
          by (simp add: upd'(2) cong: map_cong)
        obtain y db2 where "save_task_started_log S nowLog \<lparr>sd_task = incr_run_times t\<rparr> db1 = (y, db2)"
          by (cases "save_task_started_log S nowLog \<lparr>sd_task = incr_run_times t\<rparr> db1")
        with assms(1) False nxt w upd n r v1 show thesis
          by (intro taken [of w nxt r db1]) (auto simp: lock_task_def split: sum.splits)
      qed
    qed
  qed
qed

lemma lock_task_True:
  assumes "lock_task L S (mysql_log_repo S) now nowSched nowLog t db = (Inr True, t', db')" and "inv_db db"
  obtains w nxt r i n v where "t' = incr_run_times t" "checkedTaskModelId (t_id t) = Inr w"
    "get_sched_next_at (lb_cron L) nowSched t = Inr nxt" "r \<in> set (tb_task (view db))"
    "bm_DeletedAt r = 0" "bm_Id r = w" "tm_LastRunAt r = t_lastRunAt t" "tm_RunTimes r = t_runTimes t"
    "tb_task (view db') =
       map (\<lambda>x. if x = r then locked_row now nxt (clk db) r else x) (tb_task (view db))"
    "tb_srv (view db') = tb_srv (view db)" "tb_route (view db') = tb_route (view db)"
    "tb_log (view db') = tb_log (view db) @
       [stamped i n (zero_log_model\<lparr>lm_TaskId := w, lm_StartedAt := nowLog,
          lm_TaskStatus := statusRunning, lm_RunTimes := t_runTimes t', lm_SrvId := v\<rparr>)]"
    "toCallbackSrvRouteModelId (cs_id (t_callbackSrv t)) = Inr v"
    "\<forall>y \<in> set (tb_log (view db)). \<not> (lm_TaskId y = w \<and> lm_RunTimes y = t_runTimes t')"
  using assms
proof (rule lock_task_cases)
  fix w nxt r db1
  assume c: "t' = incr_run_times t" "checkedTaskModelId (t_id t) = Inr w"
      "get_sched_next_at (lb_cron L) nowSched t = Inr nxt" "r \<in> set (tb_task (view db))"
      "bm_DeletedAt r = 0" "bm_Id r = w" "tm_LastRunAt r = t_lastRunAt t" "tm_RunTimes r = t_runTimes t"
      "view db1 = (view db)\<lparr>tb_task :=
         map (\<lambda>x. if x = r then locked_row now nxt (clk db) r else x) (tb_task (view db))\<rparr>"
      "(\<exists>u. save_task_started_log S nowLog \<lparr>sd_task = t'\<rparr> db1 = (Inr u, db') \<and> Inr True = Inr True) \<or>
       (\<exists>e. save_task_started_log S nowLog \<lparr>sd_task = t'\<rparr> db1 = (Inl e, db') \<and> Inr True = Inl e)"
  then obtain u where "save_task_started_log S nowLog \<lparr>sd_task = t'\<rparr> db1 = (Inr u, db')"
    by auto
  then show thesis
  proof (rule save_started_ok)
    fix w' v i
    assume l: "checkedTaskModelId (t_id (sd_task \<lparr>sd_task = t'\<rparr>)) = Inr w'"
      "toCallbackSrvRouteModelId (cs_id (t_callbackSrv (sd_task \<lparr>sd_task = t'\<rparr>))) = Inr v"
      "view db' = (view db1)\<lparr>tb_log := tb_log (view db1) @
         [stamped i (clk db1) (zero_log_model\<lparr>lm_TaskId := w', lm_StartedAt := nowLog,
            lm_TaskStatus := statusRunning, lm_RunTimes := t_runTimes (sd_task \<lparr>sd_task = t'\<rparr>),
            lm_SrvId := v\<rparr>)]\<rparr>"
      "\<forall>y \<in> set (tb_log (view db1)). \<not> (lm_TaskId y = w' \<and>
         lm_RunTimes y = t_runTimes (sd_task \<lparr>sd_task = t'\<rparr>))"
    have "w' = w" using l(1) c(1,2) by (simp add: incr_run_times_def)
    with l c(1-9) show thesis
      by (intro that [of w nxt r i "clk db1" v]) (simp_all add: incr_run_times_def)
  qed
qed auto

text \<open>What any call leaves behind: the row is taken or the task table is as before.\<close>

lemma lock_task_effect:
  assumes "lock_task L S (mysql_log_repo S) now nowSched nowLog t db = (b, t', db')" and inv: "inv_db db"
  shows "inv_db db'"
    and "tb_task (view db') = tb_task (view db) \<or>
      (\<exists>r n nxt. r \<in> set (tb_task (view db)) \<and> bm_DeletedAt r = 0 \<and>
         tb_task (view db') = map (\<lambda>x. if x = r then locked_row now nxt n r else x) (tb_task (view db)))"
proof -
  have tables: "store_inv co ((view db)\<lparr>tb_task :=
      map (\<lambda>x. if x = r then locked_row now nxt n r else x) (tb_task (view db))\<rparr>)" for r n nxt
  proof -
    have "table_inv co task_schema (map (\<lambda>x. if x = r then locked_row now nxt n r else x) (tb_task (view db)))"
    proof (rule table_inv_cong [OF task_schema_ok])
      show "map (row_keys task_schema) (tb_task (view db)) = map (row_keys task_schema)
          (map (\<lambda>x. if x = r then locked_row now nxt n r else x) (tb_task (view db)))"
        by (auto simp: row_keys_def locked_row_def)
      show "table_inv co task_schema (tb_task (view db))"
        using inv by (simp add: store_inv_def)
      then show "list_all (\<lambda>r. 0 \<le> bm_DeletedAt r)
          (map (\<lambda>x. if x = r then locked_row now nxt n r else x) (tb_task (view db)))"
        by (auto simp: table_inv_def list_all_iff locked_row_def)
    qed
    with inv show ?thesis by (simp add: store_inv_def)
  qed
  have "inv_db db' \<and> (tb_task (view db') = tb_task (view db) \<or>
      (\<exists>r n nxt. r \<in> set (tb_task (view db)) \<and> bm_DeletedAt r = 0 \<and>
         tb_task (view db') = map (\<lambda>x. if x = r then locked_row now nxt n r else x) (tb_task (view db))))"
    using assms
  proof (cases rule: lock_task_cases)
    case (taken w nxt r db1)
    have inv1: "inv_db db1" using tables taken(9) by simp
    from taken(10) obtain x where x: "save_task_started_log S nowLog \<lparr>sd_task = t'\<rparr> db1 = (x, db')"
      by auto
    have "inv_db db'"
      by (rule pres_ioD [OF pres_log_ops(1) x inv1])
    moreover have "tb_task (view db') = tb_task (view db1)"
      using logs.started_tables(1) [of nowLog _ db1 x db'] x by simp
    ultimately show ?thesis using taken(4,5,9) by auto
  qed (use inv in auto)
  then show "inv_db db'" "tb_task (view db') = tb_task (view db) \<or>
      (\<exists>r n nxt. r \<in> set (tb_task (view db)) \<and> bm_DeletedAt r = 0 \<and>
         tb_task (view db') = map (\<lambda>x. if x = r then locked_row now nxt n r else x) (tb_task (view db)))"
    by auto
qed

section \<open>Confirming, stopping, cleaning up\<close>

lemma pres_task_ops [pres]:
  "pres_io inv_db (del_task_by_id S i)" "pres_io inv_db (confirm_task S (mysql_log_repo S) n1 n2 p)"
  "pres_io inv_db (del_tasks S opts)" "pres_io inv_db (add_task L S n1 t)"
proof -
  show "pres_io inv_db (del_task_by_id S i)"
    by (auto simp: del_task_by_id_def intro!: pres)
  show "pres_io inv_db (confirm_task S (mysql_log_repo S) n1 n2 p)"
    by (auto simp: confirm_task_def Let_def intro!: pres)
  show "pres_io inv_db (del_tasks S opts)"
    by (auto simp: del_tasks_def intro!: pres)
  have "pres_io inv_db (upsert_task S w m k t)" for w m k
  proof (rule pres_ioI)
    fix s r t'
    assume run: "upsert_task S w m k t s = (r, t')" and inv: "inv_db s"
    let ?foc = "op_first_or_create (st_task S)
        (unscoped_q [CEq DbFieldName (VText (t_name t)), CEq DbFieldBizId (VText (t_bizId t))])
        (new_task_row w m k t)"
    obtain x s1 where foc: "?foc s = (x, s1)" by (cases "?foc s")
    have "pres_io inv_db ?foc"
      by (rule pres_task_foc) (simp add: new_task_row_def)
    from pres_ioD [OF this foc inv] have inv1: "inv_db s1" .
    have "pres_io inv_db (bind_io (op_updates (st_task S) (unscoped_q [CEq DbFieldId (VId (bm_Id a))])
        (readd_sets w m k t a)) (\<lambda>_. ret_io (toTaskEntityId (bm_Id a))))" for a
      by (auto simp: readd_sets_def intro!: pres)
    from pres_ioD [OF this _ inv1] run foc inv1 show "inv_db t'"
      by (auto simp: upsert_task_def split: sum.splits prod.splits if_splits)
  qed
  then show "pres_io inv_db (add_task L S n1 t)"
    by (auto simp: add_task_def intro!: pres)
qed

lemma run_keys_upd:
  assumes "payload task_schema as" "\<forall>a \<in> set as. fst a \<noteq> DbFieldRunTimes"
  shows "map (\<lambda>r. (bm_Id r, tm_RunTimes r)) (upd_rows co task_schema n q as R) =
    map (\<lambda>r. (bm_Id r, tm_RunTimes r)) R"
proof -
  have set: "tm_RunTimes (task_set f x y) = tm_RunTimes y" if "f \<noteq> DbFieldRunTimes" for f x y
    using that by (cases f) (simp_all add: task_set_def base_set_def)
  have "tm_RunTimes (fold (\<lambda>(f, e) x. sc_set task_schema f (eval_expr task_schema r e) x) as y) =
      tm_RunTimes y" for r y
    using assms(2) by (induction as arbitrary: y) (auto simp: task_schema_def set)
  then show ?thesis
    using upd_row_id [OF task_schema_ok assms(1)]
    by (auto simp: upd_rows_def upd_row_def apply_sets_def)
qed

lemma task_updates_run_keys:
  assumes "op_updates (st_task S) q as db = (x, db')"
    and "payload task_schema as" "\<forall>a \<in> set as. fst a \<noteq> DbFieldRunTimes"
  shows "run_keys (view db') = run_keys (view db)"
  using assms(1) run_keys_upd [OF assms(2,3)]
  by (cases x) (auto simp: run_keys_def dest: stmt_err dest!: task_updates)

lemma lock_task_mono:
  assumes "lock_task L S (mysql_log_repo S) now nowSched nowLog t db = (b, t', db')" and inv: "inv_db db"
  shows "run_no_le (view db) (view db')"
  unfolding run_no_le_def
proof (intro allI impI)
  fix w k
  assume "run_no (view db) w = Some k"
  then obtain r where r: "r \<in> set (tb_task (view db))" "bm_Id r = w" "tm_RunTimes r = k"
    using run_no_iff [OF inv] by auto
  note inv' = lock_task_effect(1) [OF assms]
  from lock_task_effect(2) [OF assms]
  have "\<exists>r' \<in> set (tb_task (view db')). bm_Id r' = w \<and> k \<le> tm_RunTimes r'"
  proof
    assume "tb_task (view db') = tb_task (view db)"
    with r show ?thesis by auto
  next
    assume "\<exists>r n nxt. r \<in> set (tb_task (view db)) \<and> bm_DeletedAt r = 0 \<and>
      tb_task (view db') = map (\<lambda>x. if x = r then locked_row now nxt n r else x) (tb_task (view db))"
    then obtain r0 n nxt where
      eq: "tb_task (view db') = map (\<lambda>x. if x = r0 then locked_row now nxt n r0 else x) (tb_task (view db))"
      by auto
    show ?thesis
      by (rule bexI [of _ "if r = r0 then locked_row now nxt n r0 else r"])
        (use r in \<open>auto simp: eq locked_row_def\<close>)
  qed
  then show "\<exists>k'. run_no (view db') w = Some k' \<and> k \<le> k'"
    using run_no_iff [OF inv'] by blast
qed

lemma confirm_task_run_keys:
  assumes "confirm_task S (mysql_log_repo S) n1 n2 p db = (x, db')"
  shows "run_keys (view db') = run_keys (view db)"
proof -
  let ?P = "\<lambda>s. run_keys (view s) = run_keys (view db)"
  have log: "pres_io ?P (save_task_confirmed_log S n2 d)" for d
  proof (rule pres_ioI)
    fix a b y
    assume run: "save_task_confirmed_log S n2 d a = (y, b)" and P: "?P a"
    have "tb_task (view b) = tb_task (view a)"
      using logs.confirmed_tables(1) [of n2 d a y b] run by simp
    with P show "?P b" by (simp add: run_keys_def)
  qed
  have upd: "pres_io ?P (op_updates (st_task S) q [(f, Lit (VInt n1))])"
    if f: "f = DbFieldLastSuccessAt \<or> f = DbFieldLastFailedAt" for q f
  proof (rule pres_ioI)
    fix a b y
    assume run: "op_updates (st_task S) q [(f, Lit (VInt n1))] a = (y, b)" and P: "?P a"
    have "run_keys (view b) = run_keys (view a)"
      by (rule task_updates_run_keys [OF run]) (use f in auto)
    with P show "?P b" by simp
  qed
  have "pres_io ?P (confirm_task S (mysql_log_repo S) n1 n2 p)"
    by (auto simp: confirm_task_def Let_def intro!: pres log upd)
  from pres_ioD [OF this assms] show ?thesis by simp
qed

lemma del_task_run_keys:
  assumes "del_task_by_id S i db = (x, db')"
  shows "run_keys (view db') = run_keys (view db)"
proof -
  have "run_keys (view b) = run_keys (view a)"
    if "op_delete (st_task S) (where_q [CEq DbFieldId (VId w)]) a = (y, b)" for a b y w
    using that
    by (cases y) (auto simp: run_keys_def del_rows_def dest: stmt_err dest!: task_delete)
  with assms show ?thesis
    by (cases x) (auto simp: del_task_by_id_def bind_io_ok bind_io_err)
qed

end

section \<open>Adding\<close>

definition readd_row :: "u64 \<Rightarrow> int \<Rightarrow> int \<Rightarrow> task \<Rightarrow> int \<Rightarrow> task_model \<Rightarrow> task_model" where
  "readd_row srvId schedMode schedNextAt t stamp m =
     m\<lparr>tm_SchedMode := schedMode, tm_TimeCronExpr := t_timeCronExpr t,
       tm_TimeIntervalSec := t_timeIntervalSec t, tm_PlanSchedNextAt := schedNextAt,
       tm_CallbackSrvId := srvId, tm_CallbackPath := t_callbackPath t,
       tm_AllowMaxRunTimes :=
         (if schedMode = schedModeTimeSpec \<and>
             (tm_SchedMode m \<noteq> schedModeTimeSpec \<or> tm_PlanSchedNextAt m \<noteq> schedNextAt)
          then tm_RunTimes m + allow_max_run_times (t_schedMode t)
          else allow_max_run_times (t_schedMode t)),
       bm_DeletedAt := 0, tm_Arg := t_arg t, bm_UpdatedAt := stamp\<rparr>"

lemma upd_row_readd:
  "upd_row task_schema stamp (readd_sets srvId schedMode schedNextAt t m) m =
     readd_row srvId schedMode schedNextAt t stamp m"
  by (auto simp: upd_row_def apply_sets_def readd_sets_def readd_row_def)

lemma readd_payload: "payload task_schema (readd_sets srvId schedMode schedNextAt t m)"
  by (simp add: readd_sets_def)

definition same_task :: "collation \<Rightarrow> task \<Rightarrow> task_model \<Rightarrow> bool" where
  "same_task co t m \<longleftrightarrow> co_eq co (tm_Name m) (t_name t) \<and> co_eq co (tm_BizId m) (t_bizId t)"

lemma selected_same_task:
  "selected co task_schema
     (unscoped_q [CEq DbFieldName (VText (t_name t)), CEq DbFieldBizId (VText (t_bizId t))]) m \<longleftrightarrow>
   same_task co t m"
  by (simp add: same_task_def)

lemma same_task_fun:
  "selected co task_schema
     (unscoped_q [CEq DbFieldName (VText (t_name t)), CEq DbFieldBizId (VText (t_bizId t))]) =
   same_task co t"
  by (rule ext) (rule selected_same_task)

context sql_store
begin

lemma upsert_task_Inl:
  assumes "upsert_task S srvId schedMode nxt t db = (Inl e, db')"
  shows "view db' = view db"
proof -
  obtain x db1 where foc: "op_first_or_create (st_task S)
      (unscoped_q [CEq DbFieldName (VText (t_name t)), CEq DbFieldBizId (VText (t_bizId t))])
      (new_task_row srvId schedMode nxt t) db = (x, db1)"
    by (rule prod.exhaust)
  with assms obtain m where "x = Inr (m, 0)"
    and upd: "op_updates (st_task S) (unscoped_q [CEq DbFieldId (VId (bm_Id m))])
       (readd_sets srvId schedMode nxt t m) db1 = (Inl e, db')"
    by (cases x) (auto simp: upsert_task_def bind_io_err split: if_splits)
  from foc [unfolded this(1)] have "view db1 = view db"
    by (cases rule: task_first_or_create) auto
  with stmt_err(12) [OF upd] show ?thesis by simp
qed

lemma add_task_Inl: "add_task L S now t db = (Inl e, db') \<Longrightarrow> view db' = view db"
  by (auto simp: add_task_def bind_io_err dest: upsert_task_Inl)

lemma add_task_cases:
  assumes run: "add_task L S now t db = (Inr taskId, db')" and inv: "inv_db db"
  obtains (swallowed) "taskId = []" "view db' = view db"
  | (created) srvId schedMode nxt i where
      "toCallbackSrvRouteModelId (cs_id (t_callbackSrv t)) = Inr srvId"
      "toTaskModelSchedMode (t_schedMode t) = Inr schedMode"
      "get_sched_next_at (lb_cron L) now t = Inr nxt"
      "\<forall>m \<in> set (tb_task (view db)). \<not> same_task co t m"
      "i \<noteq> 0" "i \<notin> bm_Id ` set (tb_task (view db))" "taskId = toTaskEntityId i"
      "view db' = (view db)\<lparr>tb_task := tb_task (view db) @
         [stamped i (clk db) (new_task_row srvId schedMode nxt t)]\<rparr>"
  | (readded) srvId schedMode nxt m stamp where
      "toCallbackSrvRouteModelId (cs_id (t_callbackSrv t)) = Inr srvId"
      "toTaskModelSchedMode (t_schedMode t) = Inr schedMode"
      "get_sched_next_at (lb_cron L) now t = Inr nxt"
      "m \<in> set (tb_task (view db))" "same_task co t m" "taskId = toTaskEntityId (bm_Id m)"
      "view db' = (view db)\<lparr>tb_task :=
         map (\<lambda>x. if x = m then readd_row srvId schedMode nxt t stamp m else x) (tb_task (view db))\<rparr>"
proof -
  obtain srvId schedMode nxt where
    pre: "toCallbackSrvRouteModelId (cs_id (t_callbackSrv t)) = Inr srvId"
      "toTaskModelSchedMode (t_schedMode t) = Inr schedMode"
      "get_sched_next_at (lb_cron L) now t = Inr nxt"
    and ups: "upsert_task S srvId schedMode nxt t db = (Inr taskId, db')"
    using run by (auto simp: add_task_def bind_io_ok)
  obtain x db1 where foc: "op_first_or_create (st_task S)
      (unscoped_q [CEq DbFieldName (VText (t_name t)), CEq DbFieldBizId (VText (t_bizId t))])
      (new_task_row srvId schedMode nxt t) db = (x, db1)"
    by (rule prod.exhaust)
  show thesis
  proof (cases x)
    case (Inl e)
    with ups foc show thesis
      by (intro swallowed) (auto simp: upsert_task_def dest: stmt_err)
  next
    case x: (Inr y)
    obtain m n where y: "y = (m, n)" by (cases y)
    note foc' = foc [unfolded x y]
    from foc' show thesis
    proof (cases rule: task_first_or_create)
      case found
      with ups foc x y obtain k where
        upd: "op_updates (st_task S) (unscoped_q [CEq DbFieldId (VId (bm_Id m))])
           (readd_sets srvId schedMode nxt t m) db1 = (Inr k, db')"
        and taskId: "taskId = toTaskEntityId (bm_Id m)"
        by (auto simp: upsert_task_def bind_io_ok)
      have m: "m \<in> set (tb_task (view db))" "same_task co t m"
        using found selected_same_task by auto
      have "view db' = (view db)\<lparr>tb_task :=
          map (\<lambda>x. if bm_Id x = bm_Id m then upd_row task_schema (clk db1)
            (readd_sets srvId schedMode nxt t m) x else x) (tb_task (view db))\<rparr>"
        using task_updates [OF upd] found by (simp add: upd_rows_def)
      moreover have "bm_Id x = bm_Id m \<longleftrightarrow> x = m" if "x \<in> set (tb_task (view db))" for x
        using task_id_eq [OF inv that m(1)] by auto
      ultimately have "view db' = (view db)\<lparr>tb_task :=
          map (\<lambda>x. if x = m then readd_row srvId schedMode nxt t (clk db1) m else x) (tb_task (view db))\<rparr>"
        by (simp add: upd_row_readd cong: map_cong)
      with pre m taskId show thesis by (intro readded)
    next
      case (created i)
      with ups foc x y have "taskId = toTaskEntityId i" "db' = db1"
        by (auto simp: upsert_task_def stamped_def)
      moreover have "\<forall>m \<in> set (tb_task (view db)). \<not> same_task co t m"
        using created(2) by (simp add: filter_empty_conv same_task_def)
      ultimately show thesis
        using pre created(3,4,5,7) by (intro that(2) [of srvId schedMode nxt i]) auto
    qed
  qed
qed

lemma add_task_mono:
  assumes "add_task L S now t db = (x, db')" and inv: "inv_db db"
  shows "run_no_le (view db) (view db')"
proof (cases x)
  case (Inl e)
  with assms show ?thesis using add_task_Inl by simp
next
  case (Inr i)
  from assms(1) [unfolded Inr] inv show ?thesis
  proof (cases rule: add_task_cases)
    case created
    then show ?thesis by (intro run_no_le_prefix) (simp add: run_keys_def)
  next
    case readded
    then show ?thesis by (intro run_no_le_same) (auto simp: run_keys_def readd_row_def)
  qed simp
qed

end

section \<open>Timeouts\<close>

definition due :: "int \<Rightarrow> task_model \<Rightarrow> bool" where
  "due now m \<longleftrightarrow>
     bm_DeletedAt m = 0 \<and> tm_RunTimes m < tm_AllowMaxRunTimes m \<and> tm_PlanSchedNextAt m \<le> now"

text \<open>The task's service is registered.\<close>

definition served :: "tables \<Rightarrow> task_model \<Rightarrow> bool" where
  "served v m \<longleftrightarrow> (\<exists>s \<in> set (tb_srv v). bm_DeletedAt s = 0 \<and> bm_Id s = tm_CallbackSrvId m)"

text \<open>A page of due tasks: the first \<open>lim\<close> by identifier behind the cursor.\<close>

definition due_page :: "int \<Rightarrow> int \<Rightarrow> u64 \<Rightarrow> task_model list \<Rightarrow> task_model list \<Rightarrow> bool" where
  "due_page now lim c R ms \<longleftrightarrow>
     (\<exists>xs. mset xs = mset (filter (\<lambda>m. uint c < uint (bm_Id m) \<and> due now m) R) \<and>
           sorted (map bm_Id xs) \<and> ms = take (nat lim) xs)"

lemma selected_timeout:
  "selected co task_schema (timeout_query now lim c) m \<longleftrightarrow> uint c < uint (bm_Id m) \<and> due now m"
  by (auto simp: selected_def timeout_query_def due_def)

lemma find_result_due_page:
  assumes "find_result co task_schema (timeout_query now lim c) R ms" "0 < lim"
  shows "due_page now lim c R ms"
proof -
  have "selected co task_schema (timeout_query now lim c) = (\<lambda>m. uint c < uint (bm_Id m) \<and> due now m)"
    by (rule ext) (rule selected_timeout)
  with assms show ?thesis
    by (auto simp: find_result_def due_page_def page_def timeout_query_def)
qed

lemma due_page_set:
  "due_page now lim c R ms \<Longrightarrow> m \<in> set ms \<Longrightarrow> m \<in> set R \<and> uint c < uint (bm_Id m) \<and> due now m"
  unfolding due_page_def by (metis (no_types, lifting) in_set_takeD mem_Collect_eq set_filter set_mset_mset)

text \<open>What a page leaves out is either not due or behind its last row.\<close>

lemma due_page_complete:
  assumes "due_page now lim c R ms" "distinct (map bm_Id R)" "m \<in> set R" "due now m"
    and "uint c < uint (bm_Id m)" "l \<in> set ms" "bm_Id m \<le> bm_Id l"
  shows "m \<in> set ms"
proof -
  obtain xs where xs: "mset xs = mset (filter (\<lambda>m. uint c < uint (bm_Id m) \<and> due now m) R)"
    "sorted (map bm_Id xs)" "ms = take (nat lim) xs"
    using assms(1) by (auto simp: due_page_def)
  have set_xs: "set xs = {m \<in> set R. uint c < uint (bm_Id m) \<and> due now m}"
    using arg_cong [OF xs(1), of set_mset] by simp
  have m: "m \<in> set xs" using assms(3-5) set_xs by simp
  show ?thesis
  proof (rule ccontr)
    assume not: "m \<notin> set ms"
    have app: "xs = take (nat lim) xs @ drop (nat lim) xs" by simp
    have "m \<in> set (drop (nat lim) xs)"
      using m not xs(3) by (metis Un_iff app set_append)
    moreover have "sorted (map bm_Id (take (nat lim) xs) @ map bm_Id (drop (nat lim) xs))"
      using xs(2) by (metis app map_append)
    ultimately have "bm_Id l \<le> bm_Id m"
      using assms(6) xs(3) by (auto simp: sorted_append)
    with assms(7) have "bm_Id m = bm_Id l" by simp
    moreover have "l \<in> set R" using assms(1,6) due_page_set by blast
    ultimately have "m = l" using assms(2,3) distinct_map_eq by metis
    with not assms(6) show False by simp
  qed
qed

context easytask_store
begin

lemma timeout_tasks_ok:
  assumes run: "timeout_tasks L S (mysql_srv_repo L S) now lim cursor db = (Inr (ts, nxt), db')"
    and inv: "inv_db db" and lim: "0 < lim"
  obtains c ms where "cursor_task_model_id cursor = Inr c" "view db' = view db"
    "due_page now lim c (tb_task (view db)) ms"
    "list_all2 (\<lambda>m t. snapshot m t \<and> t_bizId t = tm_BizId m) (filter (served (view db)) ms) ts"
    "nxt = next_cursor ts"
proof -
  obtain c where c: "cursor_task_model_id cursor = Inr c"
    using run by (auto simp: timeout_tasks_def bind_io_ok)
  with run obtain ms db1 where find: "op_find (st_task S) (timeout_query now lim c) db = (Inr ms, db1)"
    and more: "(if ms = [] then ret_io ([], [])
       else bind_io (is_GetSrvsByIds (mysql_srv_repo L S) (dedup_srv_ids (lb_pluck_srv_ids L ms) [] {}))
           (\<lambda>srvs. bind_io (lift_io (build_tasks L (callback_srv_map srvs) ms)) (\<lambda>tasks.
             ret_io (tasks, next_cursor tasks)))) db1 = (Inr (ts, nxt), db')"
    by (auto simp: timeout_tasks_def bind_io_ok)
  from task_find [OF find] lim have v1: "view db1 = view db"
    and page: "due_page now lim c (tb_task (view db)) ms"
    by (auto intro!: find_result_due_page simp: timeout_query_def)
  show thesis
  proof (cases "ms = []")
    case True
    with more v1 page c that show thesis by (auto simp: next_cursor_def)
  next
    case False
    obtain vs where vs: "dedup_srv_ids (lb_pluck_srv_ids L ms) [] {} = map toTaskCallbackSrvEntityId vs"
      "set vs = set (lb_pluck_srv_ids L ms)" "distinct vs"
      by (rule dedup_srv_ids_ok)
    have set_vs: "set vs = tm_CallbackSrvId ` set ms" and ne: "vs \<noteq> []"
      using vs(2) libs False by (auto simp: libs_law_def)
    from more False vs(1) obtain srvs db2 where
      get: "is_GetSrvsByIds (mysql_srv_repo L S) (map toTaskCallbackSrvEntityId vs) db1 = (Inr srvs, db2)"
      and build: "build_tasks L (callback_srv_map srvs) ms = Inr ts" and rest: "db' = db2" "nxt = next_cursor ts"
      by (auto simp: bind_io_ok)
    have v2: "view db2 = view db"
      using srvs.by_ids_frame [OF get] v1 by simp
    have dist: "distinct (map bm_Id (tb_srv (view db1)))"
      using inv v1 by (simp add: store_inv_def table_inv_def)
    have dom: "callback_srv_map srvs (toTaskCallbackSrvEntityId (tm_CallbackSrvId m)) \<noteq> None \<longleftrightarrow>
        served (view db) m" if m: "m \<in> set ms" for m
    proof
      assume "callback_srv_map srvs (toTaskCallbackSrvEntityId (tm_CallbackSrvId m)) \<noteq> None"
      then obtain srv where "srv \<in> set srvs" "cs_id srv = toTaskCallbackSrvEntityId (tm_CallbackSrvId m)"
        using callback_srv_map_Some by blast
      with srvs.by_ids_sound [OF get ne] v1 show "served (view db) m"
        by (fastforce simp: served_def id_defs)
    next
      assume "served (view db) m"
      then obtain s where "s \<in> set (tb_srv (view db1))" "bm_DeletedAt s = 0" "bm_Id s = tm_CallbackSrvId m"
        using v1 by (auto simp: served_def)
      with srvs.by_ids_complete [OF get dist vs(3) ne this(1,2)] set_vs m
      have "toTaskCallbackSrvEntityId (tm_CallbackSrvId m) \<in> dom (callback_srv_map srvs)"
        by (auto simp: callback_srv_map_dom intro: rev_image_eqI)
      then show "callback_srv_map srvs (toTaskCallbackSrvEntityId (tm_CallbackSrvId m)) \<noteq> None"
        by (simp add: domIff)
    qed
    have "list_all2 (\<lambda>m t. snapshot m t \<and> t_bizId t = tm_BizId m) (filter (served (view db)) ms) ts"
      using build_tasks_ok [OF build] callback_srv_map_Some filter_cong [OF refl dom, of ms]
      by (auto elim!: list_all2_mono)
    with c v2 page rest show thesis by (intro that) auto
  qed
qed

lemma timeout_tasks_frame:
  assumes "timeout_tasks L S (mysql_srv_repo L S) now lim cursor db = (x, db')"
  shows "view db' = view db"
proof -
  let ?P = "\<lambda>s. view s = view db"
  have find: "pres_io ?P (op_find (st_task S) q)" for q
  proof (rule pres_ioI)
    fix s r t
    assume "op_find (st_task S) q s = (r, t)" and P: "?P s"
    then have "view t = view s" by (cases r) (auto dest: stmt_err task_find)
    with P show "?P t" by simp
  qed
  have get: "pres_io ?P (get_srvs_by_ids L S ids)" for ids
    by (rule pres_ioI) (use srvs.by_ids_frame in auto)
  have "pres_io ?P (timeout_tasks L S (mysql_srv_repo L S) now lim cursor)"
    by (auto simp: timeout_tasks_def intro!: pres find get)
  from pres_ioD [OF this assms] show ?thesis by simp
qed

lemma run_no_leD:
  "run_no_le v v' \<Longrightarrow> run_no v w = Some k \<Longrightarrow> \<exists>k'. run_no v' w = Some k' \<and> k \<le> k'"
  by (simp add: run_no_le_def)

lemma lock_task_run_no:
  assumes "lock_task L S (mysql_log_repo S) n1 n2 n3 t db = (Inr True, t', db')" and inv: "inv_db db"
  shows "\<exists>w. checkedTaskModelId (t_id t) = Inr w \<and> run_no (view db) w = Some (t_runTimes t) \<and>
    run_no (view db') w = Some (t_runTimes t + 1) \<and> t' = incr_run_times t"
  using assms
proof (rule lock_task_True)
  fix w nxt r
  assume c: "t' = incr_run_times t" "checkedTaskModelId (t_id t) = Inr w" "r \<in> set (tb_task (view db))"
    "bm_Id r = w" "tm_RunTimes r = t_runTimes t"
    "tb_task (view db') = map (\<lambda>x. if x = r then locked_row n1 nxt (clk db) r else x) (tb_task (view db))"
  have "run_no (view db) w = Some (t_runTimes t)"
    using c run_no_iff [OF inv] by auto
  moreover have "locked_row n1 nxt (clk db) r \<in> set (tb_task (view db'))"
    using c(3) by (auto simp: c(6))
  then have "run_no (view db') w = Some (t_runTimes t + 1)"
    using run_no_Some [OF store_inv_ids [OF lock_task_effect(1) [OF assms]]] c(4,5)
    by (fastforce simp: locked_row_def)
  ultimately show ?thesis using c(1,2) by auto
qed

end

sublocale easytask_store \<subseteq> tasks: task_repo_contract "easytask_repo L S" "\<lambda>db. run_no (view db)" inv_db
proof (unfold_locales, unfold easytask_repo_def mysql_task_repo_simps)
  fix s n1 n2 n3 t t' s' b
  assume inv: "inv_db s"
  show "lock_task L S (mysql_log_repo S) n1 n2 n3 t s = (Inr True, t', s') \<Longrightarrow>
      \<exists>w. checkedTaskModelId (t_id t) = Inr w \<and> run_no (view s) w = Some (t_runTimes t) \<and>
        run_no (view s') w = Some (t_runTimes t + 1) \<and> t' = t\<lparr>t_runTimes := wrap64 (t_runTimes t + 1)\<rparr>"
    using lock_task_run_no [OF _ inv] by (fastforce simp: incr_run_times_def)
  show "lock_task L S (mysql_log_repo S) n1 n2 n3 t s = (b, t', s') \<Longrightarrow> inv_db s'"
    using lock_task_effect(1) [OF _ inv] by blast
  show "lock_task L S (mysql_log_repo S) n1 n2 n3 t s = (b, t', s') \<Longrightarrow> run_no (view s) w = Some k \<Longrightarrow>
      \<exists>k'. run_no (view s') w = Some k' \<and> k \<le> k'" for w k
    using run_no_leD [OF lock_task_mono [OF _ inv]] by blast
next
  fix s n1 n2 p c s'
  assume inv: "inv_db s" and run: "confirm_task S (mysql_log_repo S) n1 n2 p s = (c, s')"
  show "inv_db s'" by (rule pres_ioD [OF pres_task_ops(2) run inv])
  show "run_no (view s) w = Some k \<Longrightarrow> \<exists>k'. run_no (view s') w = Some k' \<and> k \<le> k'" for w k
    using run_no_leD [OF run_no_le_same [OF confirm_task_run_keys [OF run]]] by blast
next
  fix s n1 sz cur ts s'
  assume inv: "inv_db s" and run: "timeout_tasks L S (mysql_srv_repo L S) n1 sz cur s = (ts, s')"
  show "inv_db s'" using inv timeout_tasks_frame [OF run] by simp
  show "run_no (view s) w = Some k \<Longrightarrow> \<exists>k'. run_no (view s') w = Some k' \<and> k \<le> k'" for w k
    using timeout_tasks_frame [OF run] by simp
next
  fix s n1 t a s'
  assume inv: "inv_db s" and run: "add_task L S n1 t s = (a, s')"
  show "inv_db s'" by (rule pres_ioD [OF pres_task_ops(4) run inv])
  show "run_no (view s) w = Some k \<Longrightarrow> \<exists>k'. run_no (view s') w = Some k' \<and> k \<le> k'" for w k
    using run_no_leD [OF add_task_mono [OF run inv]] by blast
next
  fix s i d s'
  assume inv: "inv_db s" and run: "del_task_by_id S i s = (d, s')"
  show "inv_db s'" by (rule pres_ioD [OF pres_task_ops(1) run inv])
  show "run_no (view s) w = Some k \<Longrightarrow> \<exists>k'. run_no (view s') w = Some k' \<and> k \<le> k'" for w k
    using run_no_leD [OF run_no_le_same [OF del_task_run_keys [OF run]]] by blast
qed

end
