(* ===== verification/Mem_Store.thy ===== *)
theory Mem_Store
  imports Task_Repo
begin

text \<open>
  A database in memory that meets the contract \<open>migrated_store\<close>: the rows of the four tables, a
  clock, and a script of the statements that are to fail. It is the model on which the contract
  is shown to be satisfiable and on which concrete runs are computed; it is not a model
  of MySQL. Texts are equal when they are the same, and a text equals an integer when it is its
  decimal notation.
\<close>

section \<open>The store\<close>

record mem =
  mm_tabs :: tables
  mm_clk :: int
  mm_faults :: "bool list"

definition mem_co :: collation where
  "mem_co =
     \<lparr>co_eq = (=),
      co_num = (\<lambda>i s. case parse_uint s of (w, None) \<Rightarrow> i = uint w | (w, Some e) \<Rightarrow> False)\<rparr>"

definition mem_now :: "mem \<Rightarrow> int" where
  "mem_now db = max 1 (mm_clk db)"

definition mem_stmt :: "(mem, 'a) io \<Rightarrow> (mem, 'a) io" where
  "mem_stmt m db =
     (case mm_faults db of
        [] \<Rightarrow> m db
      | fault # faults \<Rightarrow>
          (let db1 = db\<lparr>mm_faults := faults\<rparr>
           in if fault then (Inl (DbErr ''connection lost''), db1) else m db1))"

definition mem_next_id :: "'a base_model_scheme list \<Rightarrow> int" where
  "mem_next_id R = fold max (map (\<lambda>r. uint (bm_Id r)) R) 0 + 1"

definition mem_insert ::
    "'a base_model_scheme schema \<Rightarrow> (tables \<Rightarrow> 'a base_model_scheme list) \<Rightarrow>
       ('a base_model_scheme list \<Rightarrow> tables \<Rightarrow> tables) \<Rightarrow> 'a base_model_scheme \<Rightarrow>
       (mem, 'a base_model_scheme) io" where
  "mem_insert sch get put x db =
     (let R = get (mm_tabs db); i = mem_next_id R; r = stamped (of_int i) (mem_now db) x
      in if list_ex (\<lambda>y. same_key mem_co sch y x) R then (Inl (DbErr ''duplicate entry''), db)
         else if i \<ge> 2 ^ 64 then (Inl (DbErr ''out of identifiers''), db)
         else (Inr r, db\<lparr>mm_tabs := put (R @ [r]) (mm_tabs db)\<rparr>))"

definition mem_ops ::
    "'a base_model_scheme schema \<Rightarrow> (tables \<Rightarrow> 'a base_model_scheme list) \<Rightarrow>
       ('a base_model_scheme list \<Rightarrow> tables \<Rightarrow> tables) \<Rightarrow>
       (mem, 'a base_model_scheme) table_ops" where
  "mem_ops sch get put =
     \<lparr>op_find = (\<lambda>q. mem_stmt (\<lambda>db.
        let xs = filter (selected mem_co sch q) (get (mm_tabs db))
        in (Inr (page q (if q_order_id q then sort_key bm_Id xs else xs)), db))),
      op_take = (\<lambda>q. mem_stmt (\<lambda>db.
        case filter (selected mem_co sch q) (get (mm_tabs db)) of
          [] \<Rightarrow> (Inl RecordNotFound, db) | r # _ \<Rightarrow> (Inr r, db))),
      op_first_or_create = (\<lambda>q x. mem_stmt (\<lambda>db.
        case filter (selected mem_co sch q) (get (mm_tabs db)) of
          r # _ \<Rightarrow> (Inr (r, 0), db)
        | [] \<Rightarrow> bind_io (mem_insert sch get put x) (\<lambda>r. ret_io (r, 1)) db)),
      op_create = (\<lambda>x. mem_stmt (bind_io (mem_insert sch get put x) (\<lambda>_. ret_io ()))),
      op_updates = (\<lambda>q as. mem_stmt (\<lambda>db.
        if list_all (\<lambda>a. fst a \<in> set (sc_cols sch)) as
        then (Inr (length (filter (selected mem_co sch q) (get (mm_tabs db)))),
              db\<lparr>mm_tabs := put (upd_rows mem_co sch (mem_now db) q as (get (mm_tabs db)))
                              (mm_tabs db)\<rparr>)
        else (Inl (DbErr ''unknown column''), db))),
      op_delete = (\<lambda>q. mem_stmt (\<lambda>db.
        if q_conds q = [] then (Inl (DbErr ''WHERE conditions required''), db)
        else (Inr (length (filter (selected mem_co sch q) (get (mm_tabs db)))),
              db\<lparr>mm_tabs := put (del_rows mem_co sch (mem_now db) q (get (mm_tabs db)))
                              (mm_tabs db)\<rparr>))),
      op_counts = (\<lambda>q aggs. mem_stmt (\<lambda>db.
        (Inr (map (count_agg sch (filter (selected mem_co sch q) (get (mm_tabs db)))) aggs), db)))\<rparr>"

definition mem_store :: "mem store" where
  "mem_store =
     \<lparr>st_task = mem_ops task_schema tb_task (\<lambda>R v. v\<lparr>tb_task := R\<rparr>),
      st_srv = mem_ops srv_schema tb_srv (\<lambda>R v. v\<lparr>tb_srv := R\<rparr>),
      st_route = mem_ops route_schema tb_route (\<lambda>R v. v\<lparr>tb_route := R\<rparr>),
      st_log = mem_ops log_schema tb_log (\<lambda>R v. v\<lparr>tb_log := R\<rparr>),
      st_delete_untracked = (\<lambda>tab q. mem_stmt (\<lambda>db. (Inr 0, db)))\<rparr>"

definition empty_tables :: tables where
  "empty_tables = \<lparr>tb_task = [], tb_srv = [], tb_route = [], tb_log = []\<rparr>"

definition mem_of :: "tables \<Rightarrow> mem" where
  "mem_of v = \<lparr>mm_tabs = v, mm_clk = 99, mm_faults = []\<rparr>"

definition empty_mem :: mem where
  "empty_mem = mem_of empty_tables"

section \<open>The contract holds\<close>

lemma mem_collation: "collation_law mem_co"
  by (auto simp: collation_law_def mem_co_def intro: identity_equivp)

lemma mem_next_id_fresh:
  assumes "mem_next_id R < 2 ^ 64"
  shows "(of_int (mem_next_id R) :: u64) \<noteq> 0"
    and "(of_int (mem_next_id R) :: u64) \<notin> bm_Id ` set R"
proof -
  have le: "x \<le> fold max xs a" if "x \<in> set xs \<or> x \<le> a" for x a :: int and xs
    using that by (induction xs arbitrary: a) (auto simp: le_max_iff_disj)
  have less: "uint (bm_Id r) < mem_next_id R" if "r \<in> set R" for r
    using le [of "uint (bm_Id r)" "map (\<lambda>r. uint (bm_Id r)) R" 0] that
    by (auto simp: mem_next_id_def)
  have pos: "0 < mem_next_id R"
    using le [of 0 "map (\<lambda>r. uint (bm_Id r)) R" 0] by (simp add: mem_next_id_def)
  have uint: "uint (of_int (mem_next_id R) :: u64) = mem_next_id R"
    using assms pos by (simp add: uint_word_of_int)
  show "(of_int (mem_next_id R) :: u64) \<noteq> 0"
    using uint pos by (metis less_irrefl unsigned_0)
  show "(of_int (mem_next_id R) :: u64) \<notin> bm_Id ` set R"
    using less uint by fastforce
qed

lemma mem_stmt_cases:
  assumes "mem_stmt m db = (r, db')"
  obtains (fault) "r = Inl (DbErr ''connection lost'')" "mm_tabs db' = mm_tabs db"
  | (run) db1 where "m db1 = (r, db')" "mm_tabs db1 = mm_tabs db" "mem_now db1 = mem_now db"
  using assms
  by (auto simp: mem_stmt_def Let_def mem_now_def split: list.splits if_splits)

lemma mem_now_pos [simp]: "0 < mem_now db"
  by (simp add: mem_now_def)

lemma mem_insert_ok:
  assumes "mem_insert sch get put x db = (Inr r, db')"
  shows "(\<exists>i. i \<noteq> 0 \<and> i \<notin> bm_Id ` set (get (mm_tabs db)) \<and> r = stamped i (mem_now db) x) \<and>
    (\<forall>y \<in> set (get (mm_tabs db)). \<not> same_key mem_co sch y x) \<and>
    mm_tabs db' = put (get (mm_tabs db) @ [r]) (mm_tabs db)"
  using assms mem_next_id_fresh [of "get (mm_tabs db)"]
  by (auto simp: mem_insert_def Let_def list_ex_iff split: if_splits)

lemma mem_insert_err: "mem_insert sch get put x db = (Inl e, db') \<Longrightarrow> db' = db"
  by (auto simp: mem_insert_def Let_def split: if_splits)

lemma mem_filter_Cons: "filter P R = r # rs \<Longrightarrow> r \<in> set R \<and> P r"
  by (auto simp: filter_eq_Cons_iff)

lemma mem_find_result:
  "q_order_id q \<Longrightarrow> find_result co sch q R (page q (sort_key bm_Id (filter (selected co sch q) R)))"
  "\<not> q_order_id q \<Longrightarrow> find_result co sch q R (page q (filter (selected co sch q) R))"
  unfolding find_result_def by (rule exI, rule conjI [OF _ conjI [OF _ refl]]; simp)+

lemma mem_foc_ok:
  assumes "op_first_or_create (mem_ops sch get put) q x db = (Inr (r, n), db')"
  shows "(n = 0 \<and> r \<in> set (get (mm_tabs db)) \<and> selected mem_co sch q r \<and> mm_tabs db' = mm_tabs db) \<or>
    (n = 1 \<and> filter (selected mem_co sch q) (get (mm_tabs db)) = [] \<and>
     (\<exists>i. i \<noteq> 0 \<and> i \<notin> bm_Id ` set (get (mm_tabs db)) \<and> r = stamped i (mem_now db) x) \<and>
     (\<forall>y \<in> set (get (mm_tabs db)). \<not> same_key mem_co sch y x) \<and>
     mm_tabs db' = put (get (mm_tabs db) @ [r]) (mm_tabs db))"
proof -
  from assms obtain db1 where run: "(case filter (selected mem_co sch q) (get (mm_tabs db1)) of
          r # _ \<Rightarrow> (Inr (r, 0), db1)
        | [] \<Rightarrow> bind_io (mem_insert sch get put x) (\<lambda>r. ret_io (r, 1)) db1) = (Inr (r, n), db')"
    and eq: "mm_tabs db1 = mm_tabs db" "mem_now db1 = mem_now db"
    by (auto simp: mem_ops_def elim!: mem_stmt_cases)
  show ?thesis
  proof (cases "filter (selected mem_co sch q) (get (mm_tabs db))")
    case Nil
    with run eq have "mem_insert sch get put x db1 = (Inr r, db')" "n = 1"
      by (auto simp: bind_io_ok)
    from mem_insert_ok [OF this(1)] this(2) Nil eq show ?thesis by simp
  next
    case (Cons y ys)
    with run eq show ?thesis using mem_filter_Cons [OF Cons] by auto
  qed
qed

lemma mem_create_ok:
  assumes "op_create (mem_ops sch get put) x db = (Inr u, db')"
  shows "\<exists>i. i \<noteq> 0 \<and> i \<notin> bm_Id ` set (get (mm_tabs db)) \<and>
    mm_tabs db' = put (get (mm_tabs db) @ [stamped i (mem_now db) x]) (mm_tabs db) \<and>
    (\<forall>y \<in> set (get (mm_tabs db)). \<not> same_key mem_co sch y x)"
proof -
  from assms obtain db1 r where run: "mem_insert sch get put x db1 = (Inr r, db')"
    and eq: "mm_tabs db1 = mm_tabs db" "mem_now db1 = mem_now db"
    by (auto simp: mem_ops_def bind_io_ok elim!: mem_stmt_cases)
  obtain i where "i \<noteq> 0" "i \<notin> bm_Id ` set (get (mm_tabs db1))" "r = stamped i (mem_now db1) x"
    using mem_insert_ok [OF run] by blast
  with mem_insert_ok [OF run] eq show ?thesis by (intro exI [of _ i]) simp
qed

lemma length_filter_conj: "length (filter (\<lambda>r. P r \<and> Q r) R) \<le> length (filter P R)"
  by (induction R) auto

text \<open>One table of the store, given by a lens on the tables.\<close>

lemma mem_sql_table:
  fixes get :: "tables \<Rightarrow> 'a base_model_scheme list"
  assumes get: "\<And>R v. get (put R v) = R" and rest: "\<And>R v. put [] (put R v) = put [] v"
  shows "sql_table (mem_ops sch get put) sch mem_co mem_now
    (\<lambda>db. get (mm_tabs db)) (\<lambda>db. put [] (mm_tabs db))"
proof
  fix q as aggs x db db' e r n u rs ns
  let ?T = "mem_ops sch get put"
  let ?rows = "\<lambda>db. get (mm_tabs db)" and ?rest = "\<lambda>db. put [] (mm_tabs db)"
  note defs = mem_ops_def unchanged_def
  show "op_find ?T q db = (Inl e, db') \<Longrightarrow> unchanged ?rows ?rest db db'"
    by (auto simp: defs Let_def elim!: mem_stmt_cases)
  show "op_find ?T q db = (Inr rs, db') \<Longrightarrow> unchanged ?rows ?rest db db' \<and>
      (q_limit q \<noteq> Some 0 \<longrightarrow> find_result mem_co sch q (?rows db) rs)"
    by (auto simp: defs Let_def elim!: mem_stmt_cases intro: mem_find_result)
  show "op_take ?T q db = (Inl e, db') \<Longrightarrow> unchanged ?rows ?rest db db' \<and>
      (e = RecordNotFound \<longrightarrow> filter (selected mem_co sch q) (?rows db) = [])"
    by (auto simp: defs elim!: mem_stmt_cases split: list.splits)
  show "op_take ?T q db = (Inr r, db') \<Longrightarrow>
      unchanged ?rows ?rest db db' \<and> r \<in> set (?rows db) \<and> selected mem_co sch q r"
    by (auto simp: defs elim!: mem_stmt_cases split: list.splits dest: mem_filter_Cons)
  show "op_first_or_create ?T q x db = (Inl e, db') \<Longrightarrow> unchanged ?rows ?rest db db'"
    by (auto simp: defs bind_io_err elim!: mem_stmt_cases split: list.splits dest!: mem_insert_err)
  show "op_first_or_create ?T q x db = (Inr (r, n), db') \<Longrightarrow>
      (n = 0 \<and> r \<in> set (?rows db) \<and> selected mem_co sch q r \<and> unchanged ?rows ?rest db db') \<or>
      (n = 1 \<and> filter (selected mem_co sch q) (?rows db) = [] \<and>
       (\<exists>i. i \<noteq> 0 \<and> i \<notin> bm_Id ` set (?rows db) \<and> r = stamped i (mem_now db) x) \<and>
       (\<forall>y \<in> set (?rows db). \<not> same_key mem_co sch y x) \<and>
       ?rows db' = ?rows db @ [r] \<and> ?rest db' = ?rest db)"
    by (drule mem_foc_ok) (auto simp: unchanged_def get rest)
  show "op_create ?T x db = (Inl e, db') \<Longrightarrow> unchanged ?rows ?rest db db'"
    by (auto simp: defs bind_io_err elim!: mem_stmt_cases dest!: mem_insert_err)
  show "(\<exists>i. i \<noteq> 0 \<and> i \<notin> bm_Id ` set (?rows db) \<and> ?rows db' = ?rows db @ [stamped i (mem_now db) x]) \<and>
      (\<forall>y \<in> set (?rows db). \<not> same_key mem_co sch y x) \<and> ?rest db' = ?rest db"
    if run: "op_create ?T x db = (Inr u, db')"
  proof -
    obtain i where i: "i \<noteq> 0" "i \<notin> bm_Id ` set (?rows db)"
      "mm_tabs db' = put (?rows db @ [stamped i (mem_now db) x]) (mm_tabs db)"
      "\<forall>y \<in> set (?rows db). \<not> same_key mem_co sch y x"
      using mem_create_ok [OF run] by blast
    have rows: "?rows db' = ?rows db @ [stamped i (mem_now db) x]"
      by (simp only: i(3) get)
    have "?rest db' = ?rest db"
      by (simp only: i(3) rest)
    with i rows show ?thesis by blast
  qed
  show "op_updates ?T q as db = (Inl e, db') \<Longrightarrow> unchanged ?rows ?rest db db'"
    by (auto simp: defs elim!: mem_stmt_cases split: if_splits)
  show "op_updates ?T q as db = (Inr n, db') \<Longrightarrow>
      ?rows db' = upd_rows mem_co sch (mem_now db) q as (?rows db) \<and> ?rest db' = ?rest db \<and>
      length (filter (\<lambda>r. selected mem_co sch q r \<and> upd_row sch (mem_now db) as r \<noteq> r) (?rows db)) \<le> n \<and>
      n \<le> length (filter (selected mem_co sch q) (?rows db))"
    by (auto simp: defs get rest length_filter_conj elim!: mem_stmt_cases split: if_splits)
  show "op_delete ?T q db = (Inl e, db') \<Longrightarrow> unchanged ?rows ?rest db db'"
    by (auto simp: defs elim!: mem_stmt_cases split: if_splits)
  show "op_delete ?T q db = (Inr n, db') \<Longrightarrow> q_conds q \<noteq> [] \<and>
      ?rows db' = del_rows mem_co sch (mem_now db) q (?rows db) \<and> ?rest db' = ?rest db"
    by (auto simp: defs get rest elim!: mem_stmt_cases split: if_splits)
  show "op_counts ?T q aggs db = (Inl e, db') \<Longrightarrow> unchanged ?rows ?rest db db'"
    by (auto simp: defs elim!: mem_stmt_cases)
  show "op_counts ?T q aggs db = (Inr ns, db') \<Longrightarrow> unchanged ?rows ?rest db db' \<and>
      ns = map (count_agg sch (filter (selected mem_co sch q) (?rows db))) aggs"
    by (auto simp: defs elim!: mem_stmt_cases)
  show "0 < mem_now db" by simp
qed

lemma mem_untracked: "st_delete_untracked mem_store tab q db = (r, db') \<Longrightarrow> mm_tabs db' = mm_tabs db"
  by (auto simp: mem_store_def elim!: mem_stmt_cases)

lemma mem_store_sel [simp]:
  "st_task mem_store = mem_ops task_schema tb_task (\<lambda>R v. v\<lparr>tb_task := R\<rparr>)"
  "st_srv mem_store = mem_ops srv_schema tb_srv (\<lambda>R v. v\<lparr>tb_srv := R\<rparr>)"
  "st_route mem_store = mem_ops route_schema tb_route (\<lambda>R v. v\<lparr>tb_route := R\<rparr>)"
  "st_log mem_store = mem_ops log_schema tb_log (\<lambda>R v. v\<lparr>tb_log := R\<rparr>)"
  by (simp_all add: mem_store_def)

interpretation mem_tasks: sql_table "st_task mem_store" task_schema mem_co mem_now
    "\<lambda>db. tb_task (mm_tabs db)" "\<lambda>db. (mm_tabs db)\<lparr>tb_task := []\<rparr>"
  unfolding mem_store_sel by (rule mem_sql_table) simp_all

interpretation mem_db: migrated_store mem_store mem_co mem_now mm_tabs
proof -
  have tables:
    "sql_table (st_task mem_store) task_schema mem_co mem_now
       (\<lambda>db. tb_task (mm_tabs db)) (\<lambda>db. (mm_tabs db)\<lparr>tb_task := []\<rparr>)"
    "sql_table (st_srv mem_store) srv_schema mem_co mem_now
       (\<lambda>db. tb_srv (mm_tabs db)) (\<lambda>db. (mm_tabs db)\<lparr>tb_srv := []\<rparr>)"
    "sql_table (st_route mem_store) route_schema mem_co mem_now
       (\<lambda>db. tb_route (mm_tabs db)) (\<lambda>db. (mm_tabs db)\<lparr>tb_route := []\<rparr>)"
    "sql_table (st_log mem_store) log_schema mem_co mem_now
       (\<lambda>db. tb_log (mm_tabs db)) (\<lambda>db. (mm_tabs db)\<lparr>tb_log := []\<rparr>)"
    unfolding mem_store_sel by (rule mem_sql_table; simp)+
  have "sql_store mem_store mem_co mem_now mm_tabs"
    by (intro sql_store.intro sql_store_axioms.intro tables mem_collation mem_untracked)
  moreover have "\<exists>e. fst (op_updates (st_task mem_store) q as db) = Inl e"
    if "\<exists>(f, e) \<in> set as. f \<notin> set (sc_cols task_schema)" for q as db
  proof -
    have "\<not> list_all (\<lambda>a. fst a \<in> set (sc_cols task_schema)) as"
      using that by (fastforce simp: list_all_iff)
    then show ?thesis
      by (auto simp: mem_ops_def mem_stmt_def Let_def split: list.splits)
  qed
  ultimately show "migrated_store mem_store mem_co mem_now mm_tabs"
    by (intro migrated_store.intro migrated_store_axioms.intro)
qed

interpretation mem_easytask: easytask_store mem_store mem_co mem_now mm_tabs ref_libs
  by unfold_locales (rule ref_libs_law)

interpretation mem_logs: task_log_repo "mysql_log_repo mem_store" mm_tabs
  by unfold_locales (fact mem_db.logs.started_frame mem_db.logs.confirmed_frame
      mem_db.logs.callback_frame)+

lemma mem_is_easytask: "easytask_store mem_store mem_co mem_now mm_tabs ref_libs"
  by (rule mem_easytask.easytask_store_axioms)

lemma mem_is_migrated: "migrated_store mem_store mem_co mem_now mm_tabs"
  by (rule mem_db.migrated_store_axioms)

section \<open>Sample contents\<close>

text \<open>A registered service with one route, and tasks that belong to it.\<close>

definition demo_srv_row :: srv_model where
  "demo_srv_row = zero_srv_model\<lparr>bm_Id := 1, sm_Name := ''srv''\<rparr>"

definition demo_route_row :: route_model where
  "demo_route_row =
     zero_route_model\<lparr>bm_Id := 1, rm_SrvSchema := ''http'', rm_Host := ''h'', rm_Port := 80,
       rm_SrvId := 1, rm_CallbackTimeoutSec := 5\<rparr>"

definition demo_task_row :: "u64 \<Rightarrow> string \<Rightarrow> task_model" where
  "demo_task_row i name =
     zero_task_model\<lparr>bm_Id := i, tm_Name := name, tm_SchedMode := schedModeTimeInterval,
       tm_TimeIntervalSec := 60, tm_CallbackSrvId := 1, tm_AllowMaxRunTimes := max_int\<rparr>"

definition demo_mem :: mem where
  "demo_mem = mem_of
     \<lparr>tb_task = [demo_task_row 7 ''job''], tb_srv = [demo_srv_row], tb_route = [demo_route_row],
      tb_log = []\<rparr>"

definition demo_srv :: callback_srv where
  "demo_srv = srv_to_entity [route_to_entity demo_route_row] demo_srv_row"

definition demo_task :: task where
  "demo_task =
     \<lparr>t_id = ''7'', t_callbackSrv = demo_srv, t_callbackPath = [], t_name = ''job'', t_arg = [],
      t_runTimes = 0, t_lastRunAt = 0, t_allowMaxRunTimes = max_int, t_maxRunTimeSec = 0,
      t_schedMode = SchedModeTimeInterval, t_timeCronExpr = [], t_timeIntervalSec = 60,
      t_timeSpecAt = 0, t_bizId = []\<rparr>"

lemma demo_inv: "store_inv mem_co (mm_tabs demo_mem)"
  by code_simp

end
