(* ===== verification/Go_Slice.thy ===== *)
theory Go_Slice
  imports Prelude
begin

text \<open>
  A slice variable of Go that several goroutines share without a lock, and \<open>xs = append(xs, x)\<close> on it taken
  apart into its accesses: read the header of the slice, write the element (into the backing array when
  its capacity allows, otherwise into a larger copy of it), and store the new header. Two goroutines that read
  the same header lose an element, and the later write into a backing array overwrites the earlier one.

  A header is the number of its backing array and its length; it is read and stored at once. A backing array
  is a list as long as its capacity; \<open>None\<close> is an element that was never written. \<open>grow\<close> is the runtime's choice of
  a larger capacity.
\<close>

section \<open>Definitions\<close>

type_synonym header = "nat \<times> nat"

record 'a slice_var =
  sv_arrays :: "'a option list list"
  sv_header :: header

definition nil_slice :: "'a slice_var" where
  "nil_slice = \<lparr>sv_arrays = [[]], sv_header = (0, 0)\<rparr>"

text \<open>The elements a reader of the variable sees.\<close>

definition slice_vals :: "'a slice_var \<Rightarrow> 'a list" where
  "slice_vals v = (case sv_header v of (a, n) \<Rightarrow> map the (take n (sv_arrays v ! a)))"

definition append_write :: "(nat \<Rightarrow> nat) \<Rightarrow> 'a \<Rightarrow> header \<Rightarrow> 'a slice_var \<Rightarrow> 'a slice_var \<times> header" where
  "append_write grow x h v =
     (case h of (a, n) \<Rightarrow>
        let arr = sv_arrays v ! a
        in if n < length arr then
             (v\<lparr>sv_arrays := (sv_arrays v)[a := arr[n := Some x]]\<rparr>, (a, Suc n))
           else
             (v\<lparr>sv_arrays := sv_arrays v @
                 [take n arr @ Some x # replicate (grow (length arr) - Suc n) None]\<rparr>,
              (length (sv_arrays v), Suc n)))"

text \<open>\<open>append\<close> when no other goroutine comes between.\<close>

definition append_alone :: "(nat \<Rightarrow> nat) \<Rightarrow> 'a \<Rightarrow> 'a slice_var \<Rightarrow> 'a slice_var" where
  "append_alone grow x v =
     (case append_write grow x (sv_header v) v of (v', h) \<Rightarrow> v'\<lparr>sv_header := h\<rparr>)"

section \<open>Lemmas\<close>

text \<open>A header of existing elements.\<close>

definition header_ok :: "'a slice_var \<Rightarrow> header \<Rightarrow> bool" where
  "header_ok v h \<longleftrightarrow> (case h of (a, n) \<Rightarrow> a < length (sv_arrays v) \<and> n \<le> length (sv_arrays v ! a) \<and>
     (\<forall>i < n. sv_arrays v ! a ! i \<noteq> None))"

text \<open>No array holds an element twice, and every element was appended by somebody.\<close>

definition array_ok :: "'a set \<Rightarrow> 'a option list \<Rightarrow> bool" where
  "array_ok W arr \<longleftrightarrow> set arr \<subseteq> insert None (Some ` W) \<and>
     (\<forall>i < length arr. \<forall>j < length arr. arr ! i \<noteq> None \<longrightarrow> arr ! i = arr ! j \<longrightarrow> i = j)"

definition arrays_ok :: "'a set \<Rightarrow> 'a slice_var \<Rightarrow> bool" where
  "arrays_ok W v \<longleftrightarrow> (\<forall>arr \<in> set (sv_arrays v). array_ok W arr)"

lemma nil_slice_simps [simp]:
  "header_ok nil_slice (sv_header nil_slice)" "arrays_ok W nil_slice" "slice_vals nil_slice = []"
  by (simp_all add: nil_slice_def header_ok_def arrays_ok_def array_ok_def slice_vals_def)

lemma header_ok_same [simp]: "header_ok (v\<lparr>sv_header := h'\<rparr>) h = header_ok v h"
  by (simp add: header_ok_def)

lemma arrays_ok_same [simp]: "arrays_ok W (v\<lparr>sv_header := h\<rparr>) = arrays_ok W v"
  by (simp add: arrays_ok_def)

text \<open>What another goroutine's write leaves of a header.\<close>

lemma write_keeps_headers:
  assumes "append_write grow x h v = (v', h2)" "header_ok v h" "header_ok v g"
  shows "header_ok v' g"
  using assms
  by (auto simp: append_write_def header_ok_def Let_def nth_list_update nth_append split: if_splits prod.splits)

lemma write_header:
  assumes "append_write grow x h v = (v', h2)" "header_ok v h"
  shows "header_ok v' h2" "snd h2 = Suc (snd h)" "sv_header v' = sv_header v"
  using assms
  by (auto simp: append_write_def header_ok_def Let_def nth_list_update nth_append less_Suc_eq split: if_splits prod.splits)

lemma array_ok_update:
  assumes "array_ok W arr" "x \<notin> W" "n < length arr"
  shows "array_ok (insert x W) (arr[n := Some x])"
proof -
  have new: "arr ! i \<noteq> Some x" if "i < length arr" for i
    using assms(1,2) nth_mem [OF that] by (auto simp: array_ok_def)
  have "set (arr[n := Some x]) \<subseteq> insert None (Some ` insert x W)"
    using assms(1) set_update_subset_insert [of arr n "Some x"] by (auto simp: array_ok_def)
  moreover have "i = j" if "i < length arr" "j < length arr" "arr[n := Some x] ! i \<noteq> None"
      "arr[n := Some x] ! i = arr[n := Some x] ! j" for i j
    using that assms(1,3) new by (auto simp: array_ok_def nth_list_update split: if_splits)
  ultimately show ?thesis by (auto simp: array_ok_def)
qed

lemma array_ok_grown:
  assumes "array_ok W arr" "x \<notin> W" "n \<le> length arr"
  shows "array_ok (insert x W) (take n arr @ Some x # replicate m None)"
proof -
  have "array_ok W (take n arr @ None # replicate m None)"
    using assms(1) set_take_subset [of n arr]
    by (auto simp: array_ok_def nth_append nth_Cons split: nat.splits if_splits)
  from array_ok_update [OF this assms(2), of n] assms(3) show ?thesis
    by (simp add: list_update_append)
qed

lemma write_arrays_ok:
  assumes "append_write grow x h v = (v', h2)" "header_ok v h" "arrays_ok W v" "x \<notin> W"
  shows "arrays_ok (insert x W) v'"
proof -
  obtain a n where h: "h = (a, n)" by (rule prod.exhaust)
  have arr: "array_ok W (sv_arrays v ! a)" "n \<le> length (sv_arrays v ! a)"
    using assms(2,3) by (auto simp: h header_ok_def arrays_ok_def)
  have more: "array_ok (insert x W) b" if "b \<in> set (sv_arrays v)" for b
    using assms(3) that by (auto simp: arrays_ok_def array_ok_def)
  from array_ok_update [OF arr(1) assms(4)] array_ok_grown [OF arr(1) assms(4) arr(2)] more assms(1)
  show ?thesis
    by (auto simp: h append_write_def Let_def arrays_ok_def split: if_splits dest!: set_updateD)
qed

lemma slice_vals_ok:
  assumes "arrays_ok W v" "header_ok v (sv_header v)"
  shows "distinct (slice_vals v)" "set (slice_vals v) \<subseteq> W" "length (slice_vals v) = snd (sv_header v)"
proof -
  obtain a n where h: "sv_header v = (a, n)" by (rule prod.exhaust)
  let ?arr = "sv_arrays v ! a"
  have arr: "array_ok W ?arr" "n \<le> length ?arr" "\<And>i. i < n \<Longrightarrow> ?arr ! i \<noteq> None"
    using assms by (auto simp: h header_ok_def arrays_ok_def)
  have nth: "slice_vals v ! i = the (?arr ! i)" if "i < n" for i
    using that arr(2) by (simp add: slice_vals_def h)
  show len: "length (slice_vals v) = snd (sv_header v)" using arr(2) by (simp add: slice_vals_def h)
  show "distinct (slice_vals v)"
    unfolding distinct_conv_nth len h snd_conv
  proof (intro allI impI)
    fix i j assume "i < n" "j < n" "i \<noteq> j"
    then show "slice_vals v ! i \<noteq> slice_vals v ! j"
      using arr(1,2) arr(3) [of i] arr(3) [of j] by (fastforce simp: nth array_ok_def dest: option.expand)
  qed
  show "set (slice_vals v) \<subseteq> W"
  proof
    fix x assume "x \<in> set (slice_vals v)"
    then obtain i where i: "i < n" "x = the (?arr ! i)" by (auto simp: in_set_conv_nth len h nth)
    moreover have "?arr ! i \<in> set ?arr" using i(1) arr(2) by simp
    ultimately show "x \<in> W" using arr(1) arr(3) [of i] by (auto simp: array_ok_def)
  qed
qed

text \<open>Without interference \<open>append\<close> appends.\<close>

lemma append_alone_ok:
  assumes "header_ok v (sv_header v)"
  shows "slice_vals (append_alone grow x v) = slice_vals v @ [x]"
    "header_ok (append_alone grow x v) (sv_header (append_alone grow x v))"
proof -
  obtain v' h where run: "append_write grow x (sv_header v) v = (v', h)" by (rule prod.exhaust)
  show "header_ok (append_alone grow x v) (sv_header (append_alone grow x v))"
    using write_header [OF run assms] by (simp add: append_alone_def run)
  show "slice_vals (append_alone grow x v) = slice_vals v @ [x]"
    using assms
    by (auto simp: append_alone_def append_write_def slice_vals_def header_ok_def Let_def take_Suc_conv_app_nth
        split: prod.splits if_splits)
qed

end
