(* ===== verification/Callback_Http.thy ===== *)
theory Callback_Http
  imports Mem_Store Go_Slice
begin

text \<open>
  \<open>internal/task/impl/callback/http.go\<close> and the messages of
  \<open>pkg/rpc/proto/httpproto/callback.go\<close>: how a run of a task and a health check reach a callback
  service.

  Parameters (\<open>http_env\<close>). \<open>he_post\<close> is the HTTP exchange: URL, body and timeout to the bytes
  read (\<open>None\<close> when no response came) and the error, if any; its error covers
  \<open>http.NewRequest\<close>, \<open>Client.Do\<close> and \<open>io.ReadAll\<close>. The \<open>he_\<close> codecs are \<open>json.Marshal\<close> and
  \<open>json.Unmarshal\<close> for the four messages: decoding starts from the struct it fills and
  may leave fields as they are. \<open>he_vld\<close> is the validator, \<open>he_logs\<close> the log repository of the
  task logger. Trace headers and log output are left out, and paths are ASCII text: white space
  is the six ASCII characters that \<open>strings.TrimSpace\<close> removes.

  A call of \<open>CallbackSrv\<close> is one sequential computation. \<open>HeartBeat\<close> starts one goroutine per route,
  and they share the variables \<open>err\<close>, \<open>httpResp\<close> and the two result slices without a lock, so it is a step
  relation over the interleavings of the goroutines' accesses to them. \<open>he_grow\<close> is the capacity the
  runtime chooses when \<open>append\<close> outgrows one.
\<close>

section \<open>Messages\<close>

record task_callback_req =
  hq_Cmd :: int
  hq_TaskId :: string
  hq_TaskName :: string
  hq_Arg :: string
  hq_RunTimes :: int
  hq_BizId :: string

record task_callback_resp =
  hr_IsRunInAsync :: bool
  hr_IsSuccess :: bool
  hr_Extra :: string

record heart_beat_req =
  hh_Cmd :: int

record pong_resp =
  pg_Pong :: bool

definition CallbackCmdTaskCallback :: int where "CallbackCmdTaskCallback = 0"
definition CallbackCmdTaskSrvHeartBeat :: int where "CallbackCmdTaskSrvHeartBeat = 1"

record 's http_env =
  he_post :: "string \<Rightarrow> string \<Rightarrow> int option \<Rightarrow> 's \<Rightarrow> (string option \<times> go_err option) \<times> 's"
  he_req_json :: "task_callback_req \<Rightarrow> go_err + string"
  he_resp_json :: "string \<Rightarrow> task_callback_resp \<Rightarrow> go_err option \<times> task_callback_resp"
  he_beat_json :: "heart_beat_req \<Rightarrow> go_err + string"
  he_pong_json :: "string \<Rightarrow> pong_resp \<Rightarrow> go_err option \<times> pong_resp"
  he_vld :: validator
  he_logs :: "'s log_repo"
  he_grow :: "nat \<Rightarrow> nat"

section \<open>One request\<close>

definition is_space :: "char \<Rightarrow> bool" where
  "is_space c \<longleftrightarrow> (of_char c :: int) \<in> {9, 10, 11, 12, 13, 32}"

definition trim_space :: "string \<Rightarrow> string" where
  "trim_space s = rev (dropWhile is_space (rev (dropWhile is_space s)))"

definition trim_left_slash :: "string \<Rightarrow> string" where
  "trim_left_slash s = dropWhile (\<lambda>c. c = CHR ''/'') s"

record do_req_input =
  di_Path :: string
  di_Route :: "srv_route option"
  di_TimeoutSec :: int
  di_ReqBytes :: string

definition norm_path :: "string \<Rightarrow> string" where
  "norm_path p =
     (let path = trim_space p in if path \<noteq> [] then CHR ''/'' # trim_left_slash path else path)"

definition do_req_input_check :: "validator \<Rightarrow> do_req_input \<Rightarrow> go_err + do_req_input" where
  "do_req_input_check vld i =
     (case vld [(''Route'', di_Route i = None), (''ReqBytes'', False), (''Resp'', False)] of
        Some e \<Rightarrow> Inl (ValidatorErr e)
      | None \<Rightarrow> Inr (i\<lparr>di_Path := norm_path (di_Path i)\<rparr>))"

definition req_url :: "srv_route \<Rightarrow> string \<Rightarrow> string" where
  "req_url route path =
     rt_scheme route @ ''://'' @ rt_host route @ '':'' @ sprintf_int (rt_port route) @ path"

definition http_timeout :: "int \<Rightarrow> int option" where
  "http_timeout timeoutSec = (if timeoutSec > 0 then Some timeoutSec else None)"

text \<open>
  \<open>doReq\<close> answers the raw body and the error; the decoder fills the caller's response struct. The
  decoder is an argument because the two callers decode into different structs.
\<close>

definition do_req ::
    "'s http_env \<Rightarrow> (string \<Rightarrow> 'r \<Rightarrow> go_err option \<times> 'r) \<Rightarrow> do_req_input \<Rightarrow> 'r \<Rightarrow> 's \<Rightarrow>
       (string option \<times> go_err option) \<times> 'r \<times> 's" where
  "do_req H decode input resp s =
     (case do_req_input_check (he_vld H) input of
        Inl e \<Rightarrow> ((None, Some e), resp, s)
      | Inr i \<Rightarrow>
          (case di_Route i of
             None \<Rightarrow> ((None, Some (Panic ''nil route'')), resp, s)
           | Some route \<Rightarrow>
               (case he_post H (req_url route (di_Path i)) (di_ReqBytes i)
                       (http_timeout (di_TimeoutSec i)) s of
                  ((respRaw, Some e), s1) \<Rightarrow> ((respRaw, Some e), resp, s1)
                | ((respRaw, None), s1) \<Rightarrow>
                    (case decode (case respRaw of Some raw \<Rightarrow> raw | None \<Rightarrow> []) resp of
                       (e, resp1) \<Rightarrow> ((respRaw, e), resp1, s1)))))"

section \<open>Running a task\<close>

definition callback_req :: "task \<Rightarrow> task_callback_req" where
  "callback_req t =
     \<lparr>hq_Cmd = CallbackCmdTaskCallback, hq_TaskId = t_id t, hq_TaskName = t_name t,
      hq_Arg = t_arg t, hq_RunTimes = t_runTimes t, hq_BizId = t_bizId t\<rparr>"

definition callback_timeout :: "srv_route \<Rightarrow> task \<Rightarrow> int" where
  "callback_timeout route t =
     (if rt_callbackTimeoutSec route > t_maxRunTimeSec t then t_maxRunTimeSec t
      else rt_callbackTimeoutSec route)"

definition callback_status :: "task_callback_resp \<Rightarrow> status" where
  "callback_status r =
     (if hr_IsSuccess r then StatusSuccess else if hr_IsRunInAsync r then StatusRunning
      else StatusFailed)"

text \<open>\<open>TaskLogger.Log\<close>, the dispatch over the log repository.\<close>

definition task_logger_log :: "'s log_repo \<Rightarrow> int \<Rightarrow> int \<Rightarrow> task_log \<Rightarrow> ('s, unit) io" where
  "task_logger_log LR now1 now2 l =
     (case tl_logType l of
        TaskLogTypeStarted \<Rightarrow>
          (case tl_started l of Some d \<Rightarrow> il_SaveTaskStartedLog LR now1 d
           | None \<Rightarrow> throw_io (Panic ''nil detail''))
      | TaskLogTypeCallback \<Rightarrow>
          (case tl_callback l of Some d \<Rightarrow> il_SaveTaskCallbackLog LR now1 now2 d
           | None \<Rightarrow> throw_io (Panic ''nil detail''))
      | TaskLogTypeConfirmed \<Rightarrow>
          (case tl_confirmed l of Some d \<Rightarrow> il_SaveTaskConfirmedLog LR now1 d
           | None \<Rightarrow> throw_io (Panic ''nil detail''))
      | TaskLogTypeNil \<Rightarrow> throw_io (PlainErr ''not support logging task behavior''))"

text \<open>
  The deferred function. Its \<open>Err\<close> is the variable \<open>err\<close> of \<open>json.Marshal\<close>, which is nil once the
  function is deferred; the error of the request is in \<open>callbackErr\<close>, which it does not read. The
  outcome of the log statement is only printed.
\<close>

definition callback_log_req ::
    "task \<Rightarrow> srv_route \<Rightarrow> task_callback_resp \<Rightarrow> string option \<Rightarrow> go_err option \<Rightarrow> callback_detail_req" where
  "callback_log_req t route resp respRaw err =
     \<lparr>cq_TaskId = t_id t, cq_CallbackPath = t_callbackPath t, cq_RunTimes = t_runTimes t,
      cq_Route = Some route, cq_RespRaw = (case respRaw of Some raw \<Rightarrow> raw | None \<Rightarrow> []),
      cq_IsRunInAsync = hr_IsRunInAsync resp, cq_TaskStatus = callback_status resp,
      cq_Err = err\<rparr>"

definition save_callback_log ::
    "'s http_env \<Rightarrow> int \<Rightarrow> int \<Rightarrow> callback_detail_req \<Rightarrow> 's \<Rightarrow> 's" where
  "save_callback_log H now1 now2 req s =
     (case new_callback_detail (he_vld H) req of
        Inl e \<Rightarrow> s
      | Inr d \<Rightarrow>
          (case must_new_task_log TaskLogTypeCallback (DCallback d) of
             Inl e \<Rightarrow> s
           | Inr l \<Rightarrow> snd (task_logger_log (he_logs H) now1 now2 l s)))"

definition zero_callback_resp :: task_callback_resp where
  "zero_callback_resp = \<lparr>hr_IsRunInAsync = False, hr_IsSuccess = False, hr_Extra = []\<rparr>"

definition callback_input :: "task \<Rightarrow> srv_route \<Rightarrow> string \<Rightarrow> do_req_input" where
  "callback_input t route body =
     \<lparr>di_Path = t_callbackPath t, di_Route = Some route,
      di_TimeoutSec = callback_timeout route t, di_ReqBytes = body\<rparr>"

definition callback_srv ::
    "'s http_env \<Rightarrow> nat \<Rightarrow> int \<Rightarrow> int \<Rightarrow> task \<Rightarrow> ('s, callback_resp) io" where
  "callback_srv H rnd now1 now2 t s =
     (case he_req_json H (callback_req t) of
        Inl e \<Rightarrow> (Inl e, s)
      | Inr body \<Rightarrow>
          (case get_random_route rnd (t_callbackSrv t) of
             None \<Rightarrow> (Inl (Panic ''nil route''), s)
           | Some route \<Rightarrow>
               (case do_req H (he_resp_json H) (callback_input t route body) zero_callback_resp s of
                  ((respRaw, callbackErr), resp, s1) \<Rightarrow>
                    (case callbackErr of
                       Some e \<Rightarrow> Inl e
                     | None \<Rightarrow>
                         Inr (new_callback_resp (hr_IsRunInAsync resp) (hr_IsSuccess resp) (hr_Extra resp)),
                     save_callback_log H now1 now2 (callback_log_req t route resp respRaw None) s1))))"

section \<open>Health checks\<close>

text \<open>
  A goroutine of \<open>HeartBeat\<close>: it sends its request and lets the decoder fill the shared
  response (\<open>GWait\<close>), assigns its error to the shared variable (\<open>GGot\<close>), reads that variable
  (\<open>GCheck\<close>), reads the shared response (\<open>GPong\<close>), and appends its route to one of the shared slices, \<open>replyRoutes\<close>
  when the argument is true: it reads the header (\<open>GAppend\<close>), writes the element (\<open>GHeader\<close>) and stores
  the new header (\<open>GStore\<close>). The slices hold pointers to routes: their positions in \<open>GetRoutes\<close>.
  \<open>hs_world\<close> is the state of the world the requests act on.
\<close>

datatype beat_pc =
    GWait
  | GGot "go_err option"
  | GCheck
  | GPong
  | GAppend bool
  | GHeader bool header
  | GStore bool header
  | GDone

record 's beat =
  hs_err :: "go_err option"
  hs_pong :: pong_resp
  hs_no :: "nat slice_var"
  hs_yes :: "nat slice_var"
  hs_pcs :: "(srv_route \<times> beat_pc) list"
  hs_world :: 's

definition beat_slice :: "bool \<Rightarrow> 's beat \<Rightarrow> nat slice_var" where
  "beat_slice reply b = (if reply then hs_yes b else hs_no b)"

definition put_slice :: "bool \<Rightarrow> nat slice_var \<Rightarrow> 's beat \<Rightarrow> 's beat" where
  "put_slice reply v b = (if reply then b\<lparr>hs_yes := v\<rparr> else b\<lparr>hs_no := v\<rparr>)"

definition beat_input :: "srv_route \<Rightarrow> string \<Rightarrow> do_req_input" where
  "beat_input route body =
     \<lparr>di_Path = [], di_Route = Some route, di_TimeoutSec = rt_callbackTimeoutSec route,
      di_ReqBytes = body\<rparr>"

definition beat_start :: "callback_srv \<Rightarrow> 's \<Rightarrow> 's beat" where
  "beat_start srv s =
     \<lparr>hs_err = None, hs_pong = \<lparr>pg_Pong = False\<rparr>, hs_no = nil_slice, hs_yes = nil_slice,
      hs_pcs = map (\<lambda>r. (r, GWait)) (cs_routes srv), hs_world = s\<rparr>"

text \<open>One step of goroutine \<open>k\<close>; \<open>None\<close> when it is done or there is no such goroutine.\<close>

definition beat_move :: "'s http_env \<Rightarrow> string \<Rightarrow> nat \<Rightarrow> 's beat \<Rightarrow> 's beat option" where
  "beat_move H body k b =
     (if k \<ge> length (hs_pcs b) then None
      else
        (let (route, pc) = hs_pcs b ! k;
             go = (\<lambda>pc'. b\<lparr>hs_pcs := (hs_pcs b)[k := (route, pc')]\<rparr>)
         in case pc of
              GWait \<Rightarrow>
                (case do_req H (he_pong_json H) (beat_input route body) (hs_pong b) (hs_world b) of
                   ((_, e), resp, s1) \<Rightarrow> Some ((go (GGot e))\<lparr>hs_pong := resp, hs_world := s1\<rparr>))
            | GGot e \<Rightarrow> Some ((go GCheck)\<lparr>hs_err := e\<rparr>)
            | GCheck \<Rightarrow> Some (go (if hs_err b \<noteq> None then GAppend False else GPong))
            | GPong \<Rightarrow> Some (go (GAppend (pg_Pong (hs_pong b))))
            | GAppend reply \<Rightarrow> Some (go (GHeader reply (sv_header (beat_slice reply b))))
            | GHeader reply h \<Rightarrow>
                (case append_write (he_grow H) k h (beat_slice reply b) of
                   (v, h') \<Rightarrow> Some (put_slice reply v (go (GStore reply h'))))
            | GStore reply h \<Rightarrow> Some (put_slice reply ((beat_slice reply b)\<lparr>sv_header := h\<rparr>) (go GDone))
            | GDone \<Rightarrow> None))"

inductive beat_step :: "'s http_env \<Rightarrow> string \<Rightarrow> 's beat \<Rightarrow> 's beat \<Rightarrow> bool" for H body where
  move: "beat_move H body k b = Some b' \<Longrightarrow> beat_step H body b b'"

definition beat_finished :: "'s beat \<Rightarrow> bool" where
  "beat_finished b \<longleftrightarrow> list_all (\<lambda>p. snd p = GDone) (hs_pcs b)"

definition heart_beat_body :: "'s http_env \<Rightarrow> go_err + string" where
  "heart_beat_body H = he_beat_json H \<lparr>hh_Cmd = CallbackCmdTaskSrvHeartBeat\<rparr>"

text \<open>\<open>wg.Wait\<close> lets \<open>HeartBeat\<close> answer once all goroutines are done.\<close>

definition slice_routes :: "'s beat \<Rightarrow> nat slice_var \<Rightarrow> srv_route list" where
  "slice_routes b v = map (\<lambda>k. fst (hs_pcs b ! k)) (slice_vals v)"

definition beat_answer :: "'s beat \<Rightarrow> heart_beat_resp" where
  "beat_answer b = new_heart_beat_resp (slice_routes b (hs_yes b)) (slice_routes b (hs_no b))"

inductive heart_beat :: "'s http_env \<Rightarrow> callback_srv \<Rightarrow> 's \<Rightarrow> (go_err + heart_beat_resp) \<Rightarrow> 's \<Rightarrow> bool"
  for H srv s where
  bad_json: "heart_beat_body H = Inl e \<Longrightarrow> heart_beat H srv s (Inl e) s"
| answered: "heart_beat_body H = Inr body \<Longrightarrow> (beat_step H body)\<^sup>*\<^sup>* (beat_start srv s) b \<Longrightarrow>
    beat_finished b \<Longrightarrow> heart_beat H srv s (Inr (beat_answer b)) (hs_world b)"

text \<open>A schedule: the goroutines in the order of their steps.\<close>

fun beat_run :: "'s http_env \<Rightarrow> string \<Rightarrow> nat list \<Rightarrow> 's beat \<Rightarrow> 's beat option" where
  "beat_run H body [] b = Some b"
| "beat_run H body (k # ks) b =
     (case beat_move H body k b of None \<Rightarrow> None | Some b' \<Rightarrow> beat_run H body ks b')"

section \<open>Lemmas on one request\<close>

lemma dropWhile_all: "list_all P (dropWhile P s) \<longleftrightarrow> list_all P s"
  by (induction s) auto

lemma dropWhile_id: "s = [] \<or> \<not> P (hd s) \<Longrightarrow> dropWhile P s = s"
  by (cases s) auto

lemma trim_space_empty: "trim_space s = [] \<longleftrightarrow> list_all is_space s"
proof -
  have "trim_space s = [] \<longleftrightarrow> list_all is_space (dropWhile is_space s)"
    by (simp add: trim_space_def dropWhile_eq_Nil_conv list_all_iff)
  then show ?thesis by (simp add: dropWhile_all)
qed

lemma trim_space_last: "trim_space s \<noteq> [] \<Longrightarrow> \<not> is_space (last (trim_space s))"
  by (auto simp: trim_space_def last_rev hd_dropWhile)

lemma trim_space_id: "s = [] \<or> \<not> is_space (hd s) \<and> \<not> is_space (last s) \<Longrightarrow> trim_space s = s"
  using dropWhile_id [of s is_space] dropWhile_id [of "rev s" is_space]
  by (auto simp: trim_space_def hd_rev)

lemma trim_left_slash_hd: "trim_left_slash s = [] \<or> hd (trim_left_slash s) \<noteq> CHR ''/''"
  using hd_dropWhile [of "\<lambda>c. c = CHR ''/''" s] by (auto simp: trim_left_slash_def)

lemma trim_left_slash_last: "trim_left_slash s \<noteq> [] \<Longrightarrow> last (trim_left_slash s) = last s"
proof -
  assume ne: "trim_left_slash s \<noteq> []"
  have "last (takeWhile (\<lambda>c. c = CHR ''/'') s @ trim_left_slash s) = last (trim_left_slash s)"
    using ne by simp
  then show ?thesis by (simp add: trim_left_slash_def)
qed

lemma slash_not_space [simp]: "\<not> is_space (CHR ''/'')"
  by (simp add: is_space_def)

lemma norm_path_cases:
  obtains "list_all is_space p" "norm_path p = []"
  | q where "\<not> list_all is_space p" "norm_path p = CHR ''/'' # q" "q = [] \<or> hd q \<noteq> CHR ''/''"
      "\<not> is_space (last (norm_path p))"
proof (cases "trim_space p = []")
  case True
  with that(1) show thesis by (simp add: trim_space_empty norm_path_def)
next
  case False
  show thesis
  proof (rule that(2) [of "trim_left_slash (trim_space p)"])
    show "\<not> list_all is_space p" using False by (simp add: trim_space_empty)
    show "norm_path p = CHR ''/'' # trim_left_slash (trim_space p)"
      using False by (simp add: norm_path_def Let_def)
    then show "\<not> is_space (last (norm_path p))"
      using trim_space_last [OF False] trim_left_slash_last [of "trim_space p"] by auto
  qed (rule trim_left_slash_hd)
qed

lemma norm_path_idem: "norm_path (norm_path p) = norm_path p"
proof (rule norm_path_cases [of p])
  assume "norm_path p = []"
  then show ?thesis by (simp add: norm_path_def trim_space_def)
next
  fix q
  assume q: "norm_path p = CHR ''/'' # q" "q = [] \<or> hd q \<noteq> CHR ''/''" "\<not> is_space (last (norm_path p))"
  have "trim_space (norm_path p) = norm_path p"
    by (rule trim_space_id) (use q in auto)
  moreover have "trim_left_slash (CHR ''/'' # q) = q"
    using q(2) by (cases q) (auto simp: trim_left_slash_def)
  ultimately show ?thesis using q(1) by (simp add: norm_path_def Let_def)
qed

section \<open>The log of a run\<close>

definition net_law :: "'s http_env \<Rightarrow> ('s \<Rightarrow> tables) \<Rightarrow> bool" where
  "net_law H view \<longleftrightarrow> (\<forall>u b t s r s'. he_post H u b t s = (r, s') \<longrightarrow> view s' = view s)"

lemma do_req_frame:
  assumes "net_law H view" "do_req H decode input resp s = (a, resp', s')"
  shows "view s' = view s"
  using assms
  by (auto simp: do_req_def net_law_def split: sum.splits option.splits prod.splits)

locale http_exec = task_log_repo "he_logs H" view
  for H :: "'s http_env" and view :: "'s \<Rightarrow> tables" +
  assumes net: "net_law H view"
begin

lemma save_callback_log_frame:
  "(view (save_callback_log H now1 now2 req s))\<lparr>tb_log := []\<rparr> = (view s)\<lparr>tb_log := []\<rparr>"
proof -
  have "(view (snd (il_SaveTaskCallbackLog (he_logs H) now1 now2 d s)))\<lparr>tb_log := []\<rparr> =
      (view s)\<lparr>tb_log := []\<rparr>" for d
    by (rule callback_frame [OF prod.collapse [symmetric]])
  then show ?thesis
    by (simp add: save_callback_log_def must_new_task_log_def Let_def task_logger_log_def split: sum.splits)
qed

lemma callback_srv_frame:
  assumes "callback_srv H rnd now1 now2 t s = (r, s')"
  shows "(view s')\<lparr>tb_log := []\<rparr> = (view s)\<lparr>tb_log := []\<rparr>"
proof (cases "he_req_json H (callback_req t)")
  case (Inl e)
  with assms show ?thesis by (simp add: callback_srv_def)
next
  case (Inr body)
  show ?thesis
  proof (cases "get_random_route rnd (t_callbackSrv t)")
    case None
    with assms Inr show ?thesis by (simp add: callback_srv_def)
  next
    case (Some route)
    obtain raw e resp s1 where
      req: "do_req H (he_resp_json H) (callback_input t route body) zero_callback_resp s = ((raw, e), resp, s1)"
      by (metis prod_cases4 surj_pair)
    with assms Inr Some have "s' = save_callback_log H now1 now2 (callback_log_req t route resp raw None) s1"
      by (auto simp: callback_srv_def)
    then show ?thesis
      using save_callback_log_frame do_req_frame [OF net req] by simp
  qed
qed

end

text \<open>What the log of a run is told: the error of the request never.\<close>

definition run_detail :: "task \<Rightarrow> srv_route \<Rightarrow> task_callback_resp \<Rightarrow> string option \<Rightarrow> callback_detail" where
  "run_detail t route resp raw =
     \<lparr>cd_taskId = t_id t, cd_callbackPath = t_callbackPath t, cd_runTimes = t_runTimes t, cd_route = route,
      cd_respRaw = (case raw of Some r \<Rightarrow> r | None \<Rightarrow> []), cd_isRunInAsync = hr_IsRunInAsync resp,
      cd_taskStatus = callback_status resp, cd_err = None\<rparr>"

text \<open>The callback executor over the MySQL repositories, as \<open>main\<close> builds it.\<close>

locale easytask_system = easytask_store +
  fixes H :: "'a http_env"
  assumes sys_net: "net_law H view"
    and sys_logs: "he_logs H = mysql_log_repo S"
    and sys_vld: "validator_law (he_vld H)"

sublocale easytask_system \<subseteq> http: http_exec H view
proof (intro http_exec.intro http_exec_axioms.intro)
  show "task_log_repo (he_logs H) view"
    unfolding sys_logs by (rule logs.task_log_repo_axioms)
  show "net_law H view" by (rule sys_net)
qed

context easytask_system
begin

lemma callback_srv_log:
  assumes run: "callback_srv H rnd now1 now2 t s = (r, s')"
  shows "view s' = view s \<or>
    (\<exists>d stamp. cd_taskId d = t_id t \<and> cd_runTimes d = t_runTimes t \<and> cd_callbackPath d = t_callbackPath t \<and>
       cd_route d \<in> set (cs_routes (t_callbackSrv t)) \<and>
       (\<forall>c. r = Inr c \<longrightarrow> cd_isRunInAsync d = cr_isRunInAsync c \<and>
          cd_taskStatus d = resp_status (cr_isSuccess c) (cr_isRunInAsync c)) \<and>
       view s' = (view s)\<lparr>tb_log := map (\<lambda>l. if log_run co (t_id t) (t_runTimes t) l
          then (callback_row now1 now2 d l)\<lparr>bm_UpdatedAt := stamp\<rparr> else l) (tb_log (view s))\<rparr>)"
proof (cases "he_req_json H (callback_req t)")
  case (Inl e)
  with run show ?thesis by (simp add: callback_srv_def)
next
  case json: (Inr body)
  show ?thesis
  proof (cases "get_random_route rnd (t_callbackSrv t)")
    case None
    with run json show ?thesis by (simp add: callback_srv_def)
  next
    case route: (Some route)
    obtain raw e resp s1 where
      req: "do_req H (he_resp_json H) (callback_input t route body) zero_callback_resp s = ((raw, e), resp, s1)"
      by (metis prod_cases4 surj_pair)
    let ?q = "callback_log_req t route resp raw None"
    have s': "s' = save_callback_log H now1 now2 ?q s1"
      and r: "r = Inr c \<Longrightarrow> c = new_callback_resp (hr_IsRunInAsync resp) (hr_IsSuccess resp) (hr_Extra resp)" for c
      using run json route req by (auto simp: callback_srv_def split: option.splits)
    have v1: "view s1 = view s" by (rule do_req_frame [OF sys_net req])
    show ?thesis
    proof (cases "new_callback_detail (he_vld H) ?q")
      case (Inl x)
      with s' v1 show ?thesis by (simp add: save_callback_log_def)
    next
      case (Inr d)
      have d: "cd_taskId d = t_id t" "cd_runTimes d = t_runTimes t" "cd_callbackPath d = t_callbackPath t"
        "cd_route d = route" "cd_err d = None" "cd_isRunInAsync d = hr_IsRunInAsync resp"
        "cd_taskStatus d = callback_status resp"
        using Inr by (auto simp: new_callback_detail_def callback_log_req_def split: option.splits)
      obtain y where save: "save_task_callback_log S now1 now2 d s1 = (y, s')"
        using s' Inr by (simp add: save_callback_log_def must_new_task_log_def Let_def task_logger_log_def
            sys_logs) (metis surjective_pairing)
      show ?thesis
      proof (cases y)
        case (Inl x)
        with save_callback_err save v1 show ?thesis by auto
      next
        case (Inr u)
        have "view s' = (view s)\<lparr>tb_log := map (\<lambda>l. if log_run co (t_id t) (t_runTimes t) l
          then (callback_row now1 now2 d l)\<lparr>bm_UpdatedAt := clk s1\<rparr> else l) (tb_log (view s))\<rparr>"
          using save_callback_ok [OF save [unfolded Inr] d(5)] d(1,2) v1 by simp
        moreover have "cd_route d \<in> set (cs_routes (t_callbackSrv t))"
          using random_route_in [OF route] d(4) by simp
        moreover have "cd_isRunInAsync d = cr_isRunInAsync c \<and>
            cd_taskStatus d = resp_status (cr_isSuccess c) (cr_isRunInAsync c)" if "r = Inr c" for c
          using r [OF that] d(6,7) by (simp add: new_callback_resp_def callback_status_def resp_status_def)
        ultimately show ?thesis using d(1-3) by blast
      qed
    qed
  qed
qed

text \<open>Once a request was sent the log of the run is written, whatever the request ended in.\<close>

lemma callback_srv_writes:
  assumes id: "t_id t \<noteq> []" and json: "he_req_json H (callback_req t) = Inr body"
    and route: "get_random_route rnd (t_callbackSrv t) = Some route"
    and req: "do_req H (he_resp_json H) (callback_input t route body) zero_callback_resp s = ((raw, e), resp, s1)"
    and run: "callback_srv H rnd now1 now2 t s = (r, s')"
  shows "r = (case e of Some x \<Rightarrow> Inl x
           | None \<Rightarrow> Inr (new_callback_resp (hr_IsRunInAsync resp) (hr_IsSuccess resp) (hr_Extra resp))) \<and>
    view s' = (case fst (save_task_callback_log S now1 now2 (run_detail t route resp raw) s1) of
        Inl x \<Rightarrow> view s
      | Inr u \<Rightarrow> (view s)\<lparr>tb_log := map (\<lambda>l. if log_run co (t_id t) (t_runTimes t) l
          then (callback_row now1 now2 (run_detail t route resp raw) l)\<lparr>bm_UpdatedAt := clk s1\<rparr> else l) (tb_log (view s))\<rparr>)"
proof
  let ?d = "run_detail t route resp raw"
  have "callback_detail_req_check (he_vld H) (callback_log_req t route resp raw None) = None"
    using sys_vld id by (simp add: callback_detail_req_check_def validator_law_def callback_log_req_def)
  then have d: "new_callback_detail (he_vld H) (callback_log_req t route resp raw None) = Inr ?d"
    by (simp add: new_callback_detail_def callback_log_req_def run_detail_def)
  obtain y s2 where save: "save_task_callback_log S now1 now2 ?d s1 = (y, s2)" by (rule prod.exhaust)
  with d json route req run have s': "s' = s2"
    by (simp add: callback_srv_def save_callback_log_def must_new_task_log_def Let_def task_logger_log_def sys_logs)
  have v: "view s1 = view s" by (rule do_req_frame [OF sys_net req])
  have "cd_err ?d = None" "cd_taskId ?d = t_id t" "cd_runTimes ?d = t_runTimes t" by (simp_all add: run_detail_def)
  with save s' v show "view s' = (case fst (save_task_callback_log S now1 now2 ?d s1) of
        Inl x \<Rightarrow> view s
      | Inr u \<Rightarrow> (view s)\<lparr>tb_log := map (\<lambda>l. if log_run co (t_id t) (t_runTimes t) l
          then (callback_row now1 now2 ?d l)\<lparr>bm_UpdatedAt := clk s1\<rparr> else l) (tb_log (view s))\<rparr>)"
    by (cases y) (auto dest: save_callback_err save_callback_ok)
qed (use json route req run in \<open>simp add: callback_srv_def\<close>)

lemma callback_err_never_written:
  assumes run: "callback_srv H rnd now1 now2 t s = (r, s')"
  shows "map lm_CallbackErr (tb_log (view s')) = map lm_CallbackErr (tb_log (view s))"
proof -
  have "lm_CallbackErr ((callback_row now1 now2 d l)\<lparr>bm_UpdatedAt := n\<rparr>) = lm_CallbackErr l" for d n l
    by (simp add: callback_row_def)
  with callback_srv_log [OF run] show ?thesis by auto
qed

end

section \<open>Health checks: invariants of the interleavings\<close>

lemma slice_simps [simp]:
  "beat_slice r (put_slice r' v b) = (if r = r' then v else beat_slice r b)"
  "hs_pcs (put_slice r v b) = hs_pcs b" "hs_world (put_slice r v b) = hs_world b"
  "hs_err (put_slice r v b) = hs_err b" "hs_pong (put_slice r v b) = hs_pong b"
  "beat_slice r (b\<lparr>hs_err := e\<rparr>) = beat_slice r b" "beat_slice r (b\<lparr>hs_pong := p\<rparr>) = beat_slice r b"
  "beat_slice r (b\<lparr>hs_pcs := pcs\<rparr>) = beat_slice r b" "beat_slice r (b\<lparr>hs_world := s\<rparr>) = beat_slice r b"
  by (auto simp: beat_slice_def put_slice_def)

text \<open>
  \<open>W r\<close> are the goroutines that have written their element into slice \<open>r\<close>. Every header around is one of existing
  elements, nobody writes twice, and a goroutine that is done leaves a slice that is not empty.
\<close>

fun pc_ok :: "(bool \<Rightarrow> nat slice_var) \<Rightarrow> beat_pc \<Rightarrow> bool" where
  "pc_ok sl (GHeader r h) \<longleftrightarrow> header_ok (sl r) h"
| "pc_ok sl (GStore r h) \<longleftrightarrow> header_ok (sl r) h \<and> 0 < snd h"
| "pc_ok sl pc \<longleftrightarrow> True"

fun has_written :: "bool \<Rightarrow> beat_pc \<Rightarrow> bool" where
  "has_written r (GStore r' h) \<longleftrightarrow> r' = r"
| "has_written r GDone \<longleftrightarrow> True"
| "has_written r pc \<longleftrightarrow> False"

definition beat_inv :: "(bool \<Rightarrow> nat set) \<Rightarrow> 's beat \<Rightarrow> bool" where
  "beat_inv W b \<longleftrightarrow>
     (\<forall>r. arrays_ok (W r) (beat_slice r b) \<and> header_ok (beat_slice r b) (sv_header (beat_slice r b))) \<and>
     W True \<inter> W False = {} \<and>
     (\<forall>k r. k \<in> W r \<longrightarrow> k < length (hs_pcs b) \<and> has_written r (snd (hs_pcs b ! k))) \<and>
     (\<forall>k < length (hs_pcs b). pc_ok (\<lambda>r. beat_slice r b) (snd (hs_pcs b ! k))) \<and>
     ((\<exists>k < length (hs_pcs b). snd (hs_pcs b ! k) = GDone) \<longrightarrow> (\<exists>r. 0 < snd (sv_header (beat_slice r b))))"

lemma beat_invD:
  assumes "beat_inv W b"
  shows "arrays_ok (W r) (beat_slice r b)" "header_ok (beat_slice r b) (sv_header (beat_slice r b))"
    "W True \<inter> W False = {}" "k \<in> W r \<Longrightarrow> k < length (hs_pcs b) \<and> has_written r (snd (hs_pcs b ! k))"
    "k < length (hs_pcs b) \<Longrightarrow> pc_ok (\<lambda>r. beat_slice r b) (snd (hs_pcs b ! k))"
    "k < length (hs_pcs b) \<Longrightarrow> snd (hs_pcs b ! k) = GDone \<Longrightarrow> \<exists>r. 0 < snd (sv_header (beat_slice r b))"
  using assms unfolding beat_inv_def by blast+

text \<open>A step that neither writes an element nor stores a header.\<close>

lemma beat_inv_go:
  assumes "beat_inv W b" "k < length (hs_pcs b)" "hs_pcs b ! k = (route, pc)"
    and "\<And>r. \<not> has_written r pc" "pc' \<noteq> GDone" "pc_ok (\<lambda>r. beat_slice r b) pc'"
    and "hs_pcs b' = (hs_pcs b)[k := (route, pc')]" "\<And>r. beat_slice r b' = beat_slice r b"
  shows "beat_inv W b'"
proof -
  note D = beat_invD [OF assms(1)]
  have not_k: "k \<notin> W r" for r using D(4) [of k r] assms(3,4) by auto
  show ?thesis
    unfolding beat_inv_def assms(7,8) length_list_update
  proof (intro conjI allI impI)
    fix i r assume "i \<in> W r"
    with D(4) [of i r] not_k assms(2)
    show "i < length (hs_pcs b)" "has_written r (snd ((hs_pcs b)[k := (route, pc')] ! i))"
      by (auto simp: nth_list_update)
  next
    fix i assume "i < length (hs_pcs b)"
    with D(5) [of i] assms(2,6) show "pc_ok (\<lambda>r. beat_slice r b) (snd ((hs_pcs b)[k := (route, pc')] ! i))"
      by (auto simp: nth_list_update)
  next
    assume "\<exists>i < length (hs_pcs b). snd ((hs_pcs b)[k := (route, pc')] ! i) = GDone"
    then obtain i where i: "i < length (hs_pcs b)" "snd ((hs_pcs b)[k := (route, pc')] ! i) = GDone" by blast
    with assms(2,5) have "snd (hs_pcs b ! i) = GDone" by (auto simp: nth_list_update split: if_splits)
    from D(6) [OF i(1) this] show "\<exists>r. 0 < snd (sv_header (beat_slice r b))" .
  qed (rule D)+
qed

lemma pc_ok_mono:
  assumes "pc_ok sl pc" "\<And>r h. header_ok (sl r) h \<Longrightarrow> header_ok (sl' r) h"
  shows "pc_ok sl' pc"
  using assms by (cases pc) auto

lemma beat_inv_write:
  assumes "beat_inv W b" "k < length (hs_pcs b)" "hs_pcs b ! k = (route, GHeader r h)"
    and run: "append_write g k h (beat_slice r b) = (v, h')"
  shows "beat_inv (W(r := insert k (W r))) (put_slice r v (b\<lparr>hs_pcs := (hs_pcs b)[k := (route, GStore r h')]\<rparr>))"
proof -
  note D = beat_invD [OF assms(1)]
  have ok: "header_ok (beat_slice r b) h" using D(5) [OF assms(2)] assms(3) by simp
  have not_k: "k \<notin> W x" for x using D(4) [of k x] assms(3) by auto
  note arr = write_arrays_ok [OF run ok D(1) not_k]
  note keep = write_keeps_headers [OF run ok]
  note new = write_header [OF run ok]
  let ?b' = "put_slice r v (b\<lparr>hs_pcs := (hs_pcs b)[k := (route, GStore r h')]\<rparr>)"
  have sl: "beat_slice x ?b' = (if x = r then v else beat_slice x b)" for x by simp
  have pcs: "hs_pcs ?b' = (hs_pcs b)[k := (route, GStore r h')]" by simp
  have hdr: "header_ok (beat_slice x ?b') g" if "header_ok (beat_slice x b) g" for x g
    by (cases "x = r") (use that keep [of g] in simp_all)
  show ?thesis
    unfolding beat_inv_def pcs length_list_update
  proof (intro conjI allI impI)
    fix x
    show "arrays_ok ((W(r := insert k (W r))) x) (beat_slice x ?b')" using arr D(1) by (simp add: sl)
    show "header_ok (beat_slice x ?b') (sv_header (beat_slice x ?b'))"
      by (cases "x = r") (use D(2) [of x] keep [of "sv_header (beat_slice r b)"] new(3) in simp_all)
  next
    show "(W(r := insert k (W r))) True \<inter> (W(r := insert k (W r))) False = {}"
      using D(3) not_k by (cases r) auto
  next
    fix i x assume "i \<in> (W(r := insert k (W r))) x"
    with D(4) [of i x] not_k assms(2)
    show "i < length (hs_pcs b)" "has_written x (snd ((hs_pcs b)[k := (route, GStore r h')] ! i))"
      by (auto simp: nth_list_update split: if_splits)
  next
    fix i assume i: "i < length (hs_pcs b)"
    show "pc_ok (\<lambda>x. beat_slice x ?b') (snd ((hs_pcs b)[k := (route, GStore r h')] ! i))"
    proof (cases "i = k")
      case True
      with i new(1,2) show ?thesis by (simp add: sl)
    next
      case False
      with pc_ok_mono [OF D(5) [OF i] hdr] show ?thesis by simp
    qed
  next
    assume "\<exists>i < length (hs_pcs b). snd ((hs_pcs b)[k := (route, GStore r h')] ! i) = GDone"
    then obtain i where "i < length (hs_pcs b)" "snd (hs_pcs b ! i) = GDone"
      using assms(2) by (auto simp: nth_list_update split: if_splits)
    with D(6) obtain x where "0 < snd (sv_header (beat_slice x b))" by blast
    with new(3) have "0 < snd (sv_header (beat_slice x ?b'))" by (cases "x = r") simp_all
    then show "\<exists>x. 0 < snd (sv_header (beat_slice x ?b'))" ..
  qed
qed

lemma beat_inv_store:
  assumes "beat_inv W b" "k < length (hs_pcs b)" "hs_pcs b ! k = (route, GStore r h)"
  shows "beat_inv W (put_slice r ((beat_slice r b)\<lparr>sv_header := h\<rparr>) (b\<lparr>hs_pcs := (hs_pcs b)[k := (route, GDone)]\<rparr>))"
proof -
  note D = beat_invD [OF assms(1)]
  have h: "header_ok (beat_slice r b) h" "0 < snd h" using D(5) [OF assms(2)] assms(3) by simp_all
  let ?b' = "put_slice r ((beat_slice r b)\<lparr>sv_header := h\<rparr>) (b\<lparr>hs_pcs := (hs_pcs b)[k := (route, GDone)]\<rparr>)"
  have sl: "beat_slice x ?b' = (if x = r then (beat_slice r b)\<lparr>sv_header := h\<rparr> else beat_slice x b)" for x by simp
  have pcs: "hs_pcs ?b' = (hs_pcs b)[k := (route, GDone)]" by simp
  show ?thesis
    unfolding beat_inv_def pcs length_list_update
  proof (intro conjI allI impI)
    fix x
    show "arrays_ok (W x) (beat_slice x ?b')" using D(1) by (simp add: sl)
    show "header_ok (beat_slice x ?b') (sv_header (beat_slice x ?b'))" using D(2) h(1) by (simp add: sl)
  next
    fix i x assume "i \<in> W x"
    with D(4) [of i x] assms(2)
    show "i < length (hs_pcs b)" "has_written x (snd ((hs_pcs b)[k := (route, GDone)] ! i))"
      by (auto simp: nth_list_update)
  next
    fix i assume i: "i < length (hs_pcs b)"
    have "header_ok (beat_slice x ?b') g" if "header_ok (beat_slice x b) g" for x g
      by (cases "x = r") (use that in simp_all)
    from pc_ok_mono [OF D(5) [OF i] this] assms(2)
    show "pc_ok (\<lambda>x. beat_slice x ?b') (snd ((hs_pcs b)[k := (route, GDone)] ! i))"
      by (simp add: nth_list_update)
  next
    have "0 < snd (sv_header (beat_slice r ?b'))" using h(2) by simp
    then show "\<exists>x. 0 < snd (sv_header (beat_slice x ?b'))" ..
  qed (rule D)
qed

lemma beat_move_inv:
  assumes "beat_move H body k b = Some b'" "beat_inv W b"
  shows "\<exists>W'. beat_inv W' b'"
proof -
  have k: "k < length (hs_pcs b)" using assms by (auto simp: beat_move_def split: if_splits)
  obtain route pc where pc: "hs_pcs b ! k = (route, pc)" by (cases "hs_pcs b ! k")
  note go = beat_inv_go [OF assms(2) k pc]
  show ?thesis
  proof (cases pc)
    case GWait
    obtain raw e resp s1 where "do_req H (he_pong_json H) (beat_input route body) (hs_pong b) (hs_world b) =
        ((raw, e), resp, s1)" by (metis prod_cases4 surj_pair)
    with GWait assms(1) k pc show ?thesis
      by (intro exI [of _ W] go [of "GGot e"]) (auto simp: beat_move_def Let_def)
  next
    case (GGot e)
    with assms(1) k pc show ?thesis by (intro exI [of _ W] go [of GCheck]) (auto simp: beat_move_def Let_def)
  next
    case GCheck
    with assms(1) k pc show ?thesis
      by (intro exI [of _ W] go [of "if hs_err b \<noteq> None then GAppend False else GPong"]) (auto simp: beat_move_def Let_def)
  next
    case GPong
    with assms(1) k pc show ?thesis
      by (intro exI [of _ W] go [of "GAppend (pg_Pong (hs_pong b))"]) (auto simp: beat_move_def Let_def)
  next
    case (GAppend r)
    with assms k pc show ?thesis
      by (intro exI [of _ W] go [of "GHeader r (sv_header (beat_slice r b))"])
        (auto simp: beat_move_def Let_def beat_invD(2))
  next
    case (GHeader r h)
    obtain v h' where run: "append_write (he_grow H) k h (beat_slice r b) = (v, h')" by (rule prod.exhaust)
    from beat_inv_write [OF assms(2) k pc [unfolded GHeader] run] assms(1) k pc GHeader run show ?thesis
      by (auto simp: beat_move_def Let_def)
  next
    case (GStore r h)
    from beat_inv_store [OF assms(2) k pc [unfolded GStore]] assms(1) k pc GStore show ?thesis
      by (auto simp: beat_move_def Let_def)
  next
    case GDone
    with assms k pc show ?thesis by (simp add: beat_move_def)
  qed
qed

lemma beat_move_routes: "beat_move H body k b = Some b' \<Longrightarrow> map fst (hs_pcs b') = map fst (hs_pcs b)"
  by (auto simp: beat_move_def Let_def map_update split: if_splits prod.splits beat_pc.splits)
    (metis fst_conv list_update_id map_update)+

lemma beat_steps_inv:
  assumes "(beat_step H body)\<^sup>*\<^sup>* b b'" "beat_inv W b"
  shows "(\<exists>W'. beat_inv W' b') \<and> map fst (hs_pcs b') = map fst (hs_pcs b)"
  using assms
proof induction
  case (step b1 b2)
  from step.hyps(2) obtain k where "beat_move H body k b1 = Some b2" by (cases rule: beat_step.cases)
  with beat_move_inv beat_move_routes step.IH [OF step.prems] show ?case by metis
qed auto

lemma beat_inv_start: "beat_inv (\<lambda>r. {}) (beat_start srv s)"
  by (auto simp: beat_inv_def beat_start_def beat_slice_def)

lemma beat_run_steps: "beat_run H body ks b = Some b' \<Longrightarrow> (beat_step H body)\<^sup>*\<^sup>* b b'"
  by (induction ks arbitrary: b)
    (auto split: option.splits intro: beat_step.move converse_rtranclp_into_rtranclp)

lemma beat_run_append:
  "beat_run H body (ks @ ls) b = (case beat_run H body ks b of None \<Rightarrow> None | Some c \<Rightarrow> beat_run H body ls c)"
  by (induction ks arbitrary: b) (auto split: option.splits)

text \<open>One goroutine alone can only go one way.\<close>

lemma beat_move_length: "beat_move H body k b = Some b' \<Longrightarrow> length (hs_pcs b') = length (hs_pcs b)"
  by (drule beat_move_routes) (metis length_map)

lemma beat_move_done: "k < length (hs_pcs b) \<Longrightarrow> snd (hs_pcs b ! k) = GDone \<Longrightarrow> beat_move H body k b = None"
  by (cases "hs_pcs b ! k") (simp add: beat_move_def)

lemma finished_stays: "beat_finished b \<Longrightarrow> beat_move H body k b = None"
  using beat_move_done [of k b H body] by (cases "k < length (hs_pcs b)") (auto simp: beat_finished_def list_all_length beat_move_def)

lemma single_run:
  assumes "(beat_step H body)\<^sup>*\<^sup>* b c" "beat_finished c" "length (hs_pcs b) = 1"
    and "beat_run H body ks b = Some d" "beat_finished d"
  shows "c = d"
  using assms
proof (induction ks arbitrary: b)
  case Nil
  then have "\<not> beat_step H body b x" for x by (auto simp: finished_stays elim!: beat_step.cases)
  with Nil show ?case by (auto elim: converse_rtranclpE)
next
  case (Cons k ks)
  then obtain b1 where b1: "beat_move H body k b = Some b1" "beat_run H body ks b1 = Some d"
    by (auto split: option.splits)
  have at: "k' = 0" if "beat_move H body k' b = Some x" for k' x
    using that Cons.prems(3) by (auto simp: beat_move_def split: if_splits)
  show ?case
    using Cons.prems(1)
  proof (cases rule: converse_rtranclpE)
    case base
    with b1(1) finished_stays [OF Cons.prems(2)] show ?thesis by simp
  next
    case (step y)
    then obtain k' where "beat_move H body k' b = Some y" by (cases rule: beat_step.cases)
    with at b1(1) have y: "y = b1" by (metis option.inject)
    show ?thesis
      by (rule Cons.IH) (use step(2) y Cons.prems(2,3,5) b1 beat_move_length [OF b1(1)] in simp_all)
  qed
qed

text \<open>The three steps of an \<open>append\<close> in a row.\<close>

lemma append_in_a_row:
  assumes "k < length (hs_pcs b)" "hs_pcs b ! k = (route, GAppend r)"
  shows "beat_run H body (k # k # k # ks) b =
    beat_run H body ks (put_slice r (append_alone (he_grow H) k (beat_slice r b))
      (b\<lparr>hs_pcs := (hs_pcs b)[k := (route, GDone)]\<rparr>))"
proof -
  obtain v h where run: "append_write (he_grow H) k (sv_header (beat_slice r b)) (beat_slice r b) = (v, h)"
    by (rule prod.exhaust)
  let ?at = "\<lambda>pc. b\<lparr>hs_pcs := (hs_pcs b)[k := (route, pc)]\<rparr>"
  have "beat_move H body k b = Some (?at (GHeader r (sv_header (beat_slice r b))))"
    using assms by (simp add: beat_move_def)
  moreover have "beat_move H body k (?at (GHeader r (sv_header (beat_slice r b)))) = Some (put_slice r v (?at (GStore r h)))"
    using assms(1) run by (simp add: beat_move_def)
  moreover have "beat_move H body k (put_slice r v (?at (GStore r h))) =
      Some (put_slice r (v\<lparr>sv_header := h\<rparr>) (?at GDone))"
    using assms(1) by (simp add: beat_move_def) (simp add: put_slice_def)
  ultimately show ?thesis by (simp add: append_alone_def run)
qed

lemma heart_beat_single:
  assumes beat: "heart_beat H srv s (Inr p) s'" and route: "cs_routes srv = [route]"
    and body: "heart_beat_body H = Inr body"
    and req: "do_req H (he_pong_json H) (beat_input route body) \<lparr>pg_Pong = False\<rparr> s = ((raw, e), resp, s1)"
  shows "s' = s1 \<and>
    (if e = None \<and> pg_Pong resp then hb_replyRoutes p = [route] \<and> hb_noReplyRoutes p = []
     else hb_replyRoutes p = [] \<and> hb_noReplyRoutes p = [route])"
  using beat
proof cases
  case (answered body' c)
  let ?ok = "e = None \<and> pg_Pong resp"
  let ?at = "\<lambda>pc. \<lparr>hs_err = e, hs_pong = resp, hs_no = nil_slice, hs_yes = nil_slice,
      hs_pcs = [(route, pc)], hs_world = s1\<rparr>"
  let ?d = "put_slice ?ok (append_alone (he_grow H) 0 nil_slice) (?at GDone)"
  have one: "beat_run H body (if e = None then [0, 0, 0, 0] else [0, 0, 0]) (beat_start srv s) = Some (?at (GAppend ?ok))"
    using req by (simp add: beat_start_def route beat_move_def)
  have run: "beat_run H body ((if e = None then [0, 0, 0, 0] else [0, 0, 0]) @ [0, 0, 0]) (beat_start srv s) = Some ?d"
    unfolding beat_run_append one option.case
    by (subst append_in_a_row [of 0 _ route ?ok]) (simp_all add: beat_slice_def)
  have "c = ?d"
  proof (rule single_run [OF _ answered(5) _ run])
    show "(beat_step H body)\<^sup>*\<^sup>* (beat_start srv s) c" using answered(3,4) body by simp
  qed (simp_all add: beat_start_def route beat_finished_def)
  moreover have "slice_vals (append_alone (he_grow H) (0 :: nat) nil_slice) = [0]"
    by (subst append_alone_ok) simp_all
  ultimately show ?thesis
    using answered(1,2) by (auto simp: beat_answer_def new_heart_beat_resp_def slice_routes_def put_slice_def)
qed

lemma mset_map_subset:
  assumes "distinct ks" "set ks \<subseteq> {..<length xs}"
  shows "mset (map ((!) xs) ks) \<subseteq># mset xs"
proof -
  have "mset ks = mset_set (set ks)" using assms(1) by (simp add: mset_set_set)
  also have "\<dots> \<subseteq># mset_set {..<length xs}" using assms(2) by (intro subset_imp_msubset_mset_set) simp_all
  also have "\<dots> = mset [0..<length xs]" by (simp add: atLeast0LessThan)
  finally have "image_mset ((!) xs) (mset ks) \<subseteq># image_mset ((!) xs) (mset [0..<length xs])"
    by (rule image_mset_subseteq_mono)
  then show ?thesis by (simp only: mset_map [symmetric] map_nth)
qed

text \<open>Every route ends in at most one of the two lists, and not all are lost.\<close>

lemma heart_beat_split:
  assumes "heart_beat H srv s (Inr p) s'"
  shows "mset (hb_replyRoutes p) + mset (hb_noReplyRoutes p) \<subseteq># mset (cs_routes srv)"
    "cs_routes srv \<noteq> [] \<Longrightarrow> hb_replyRoutes p @ hb_noReplyRoutes p \<noteq> []"
proof -
  from assms obtain body b where b: "p = beat_answer b" "(beat_step H body)\<^sup>*\<^sup>* (beat_start srv s) b" "beat_finished b"
    by cases auto
  obtain W where inv: "beat_inv W b" and "map fst (hs_pcs b) = map fst (hs_pcs (beat_start srv s))"
    using beat_steps_inv [OF b(2) beat_inv_start] by blast
  then have routes: "map fst (hs_pcs b) = cs_routes srv" by (simp add: beat_start_def comp_def)
  then have len: "length (hs_pcs b) = length (cs_routes srv)" by (metis length_map)
  have ok: "arrays_ok (W r) (beat_slice r b)" "header_ok (beat_slice r b) (sv_header (beat_slice r b))" for r
    by (rule beat_invD [OF inv])+
  note vals = slice_vals_ok [OF ok]
  have W: "W r \<subseteq> {..<length (hs_pcs b)}" "W True \<inter> W False = {}" for r
    using beat_invD(3,4) [OF inv] by auto
  have "distinct (slice_vals (hs_yes b) @ slice_vals (hs_no b))"
    "set (slice_vals (hs_yes b) @ slice_vals (hs_no b)) \<subseteq> {..<length (cs_routes srv)}"
    using vals [of True] vals [of False] W by (auto simp: beat_slice_def len [symmetric])
  note sub = mset_map_subset [OF this]
  have look: "fst (hs_pcs b ! k) = cs_routes srv ! k" if "k < length (cs_routes srv)" for k
  proof -
    have "fst (hs_pcs b ! k) = map fst (hs_pcs b) ! k" using that len by simp
    then show ?thesis by (simp only: routes)
  qed
  have "slice_routes b (beat_slice r b) = map ((!) (cs_routes srv)) (slice_vals (beat_slice r b))" for r
    unfolding slice_routes_def by (rule map_cong [OF refl], rule look) (use vals(2) [of r] W(1) [of r] len in auto)
  from this [of True] this [of False] have ans: "hb_replyRoutes p @ hb_noReplyRoutes p =
      map ((!) (cs_routes srv)) (slice_vals (hs_yes b) @ slice_vals (hs_no b))"
    by (simp add: b(1) beat_answer_def new_heart_beat_resp_def beat_slice_def)
  from sub show "mset (hb_replyRoutes p) + mset (hb_noReplyRoutes p) \<subseteq># mset (cs_routes srv)"
    by (simp only: ans [symmetric] mset_append)
  assume "cs_routes srv \<noteq> []"
  then have "hs_pcs b \<noteq> []" using len by auto
  then have "0 < length (hs_pcs b)" "snd (hs_pcs b ! 0) = GDone"
    using b(3) by (simp_all add: beat_finished_def list_all_length)
  then obtain r where "0 < snd (sv_header (beat_slice r b))" using beat_invD(6) [OF inv] by blast
  then have "slice_vals (beat_slice r b) \<noteq> []" using vals(3) [of r] by auto
  then show "hb_replyRoutes p @ hb_noReplyRoutes p \<noteq> []"
    unfolding ans by (auto simp: beat_slice_def split: if_splits)
qed

section \<open>A network in memory\<close>

text \<open>Every host answers, except the one named \<open>down\<close>.\<close>

definition demo_http :: "mem http_env" where
  "demo_http =
     \<lparr>he_post = (\<lambda>u b tmo s. if u = ''http://down:80'' then ((None, Some (HttpErr ''refused'')), s)
                          else ((Some ''ok'', None), s)),
      he_req_json = (\<lambda>r. Inr (''task '' @ hq_TaskId r)),
      he_resp_json = (\<lambda>raw r. (None, \<lparr>hr_IsRunInAsync = False, hr_IsSuccess = True, hr_Extra = raw\<rparr>)),
      he_beat_json = (\<lambda>r. Inr ''ping''),
      he_pong_json = (\<lambda>raw r. (None, \<lparr>pg_Pong = True\<rparr>)),
      he_vld = ref_validator, he_logs = mysql_log_repo mem_store, he_grow = (\<lambda>n. 2 * n)\<rparr>"

lemma demo_net: "net_law demo_http mm_tabs"
  by (auto simp: net_law_def demo_http_def split: if_splits)

interpretation mem_system: easytask_system mem_store mem_co mem_now mm_tabs ref_libs demo_http
  by unfold_locales (simp_all add: demo_net, simp_all add: demo_http_def ref_validator_law)

lemma mem_is_system: "easytask_system mem_store mem_co mem_now mm_tabs ref_libs demo_http"
  by (rule mem_system.easytask_system_axioms)

section \<open>Properties\<close>

text \<open>
  The path of a callback is sent in normal form: nothing for a blank path, otherwise exactly
  one leading slash and no white space at the end; normalising twice changes nothing.
\<close>

lemma callback_path_normal:
  "(list_all is_space p \<and> norm_path p = [] \<or>
    (\<exists>q. norm_path p = CHR ''/'' # q \<and> (q = [] \<or> hd q \<noteq> CHR ''/'') \<and> \<not> is_space (last (norm_path p)))) \<and>
   norm_path (norm_path p) = norm_path p"
proof (intro conjI norm_path_idem)
  show "list_all is_space p \<and> norm_path p = [] \<or>
    (\<exists>q. norm_path p = CHR ''/'' # q \<and> (q = [] \<or> hd q \<noteq> CHR ''/'') \<and> \<not> is_space (last (norm_path p)))"
    by (rule norm_path_cases [of p]) blast+
qed

text \<open>
  A scheduled run is sent without a timeout: the tasks of a page carry no maximal run time, the
  smaller of it and the route's timeout is 0, and 0 means that the client waits for ever.
\<close>

lemma scheduled_callback_has_no_timeout:
  assumes "easytask_store S co clk view L" "store_inv co (view db)" "0 < lim"
    and "timeout_tasks L S (mysql_srv_repo L S) now lim cursor db = (Inr (ts, nxt), db')"
    and "t \<in> set ts" "0 \<le> rt_callbackTimeoutSec route"
  shows "http_timeout (di_TimeoutSec (callback_input t route body)) = None"
proof -
  obtain ms where
    "list_all2 (\<lambda>m t. snapshot m t \<and> t_bizId t = tm_BizId m) (filter (served (view db)) ms) ts"
    by (rule easytask_store.timeout_tasks_ok [OF assms(1,4,2,3)])
  from list_all2_right [OF this assms(5)] have "\<exists>m. snapshot m t" by blast
  then have "t_maxRunTimeSec t = 0" by (auto simp: snapshot_def)
  with assms(6) show ?thesis by (simp add: http_timeout_def callback_input_def callback_timeout_def)
qed

lemma scheduled_callback_has_no_timeout_witness:
  "http_timeout (di_TimeoutSec (callback_input demo_task (route_to_entity demo_route_row) ''task 7'')) = None"
proof -
  let ?run = "timeout_tasks ref_libs mem_store (mysql_srv_repo ref_libs mem_store) 1000 10 [] demo_mem"
  have "fst ?run = Inr ([demo_task], ''7'')" by code_simp
  then obtain db' where run: "?run = (Inr ([demo_task], ''7''), db')" by (cases ?run) auto
  have hyps: "store_inv mem_co (mm_tabs demo_mem)" "0 \<le> rt_callbackTimeoutSec (route_to_entity demo_route_row)"
    by code_simp+
  show ?thesis
    by (rule scheduled_callback_has_no_timeout [OF mem_is_easytask hyps(1) _ run _ hyps(2)]) simp_all
qed

text \<open>
  C28. A callback writes the log of its own run. Once the request of a task with an identifier was sent to a route,
  the caller gets the service's answer or the error of the request, and the live log rows of the task and run
  number, and only they, are given the route, the raw response and the status of the answer (that of a failed run when the request
  failed); when the update statement fails the database is as before.
\<close>

lemma callback_writes_own_log:
  assumes "easytask_system S co clk view L H" "t_id t \<noteq> []"
    and "he_req_json H (callback_req t) = Inr body" "get_random_route rnd (t_callbackSrv t) = Some route"
    and "do_req H (he_resp_json H) (callback_input t route body) zero_callback_resp s = ((raw, e), resp, s1)"
    and "callback_srv H rnd now1 now2 t s = (r, s')"
  shows "r = (case e of Some x \<Rightarrow> Inl x
           | None \<Rightarrow> Inr (new_callback_resp (hr_IsRunInAsync resp) (hr_IsSuccess resp) (hr_Extra resp))) \<and>
    view s' = (case fst (save_task_callback_log S now1 now2 (run_detail t route resp raw) s1) of
        Inl x \<Rightarrow> view s
      | Inr u \<Rightarrow> (view s)\<lparr>tb_log := map (\<lambda>l. if log_run co (t_id t) (t_runTimes t) l
          then (callback_row now1 now2 (run_detail t route resp raw) l)\<lparr>bm_UpdatedAt := clk s1\<rparr> else l) (tb_log (view s))\<rparr>)"
  by (rule easytask_system.callback_srv_writes [OF assms])

definition demo_down_task :: task where
  "demo_down_task = demo_task\<lparr>t_runTimes := 1, t_callbackSrv :=
     new_callback_srv ''1'' ''srv'' [new_srv_route ''1'' ''http'' ''down'' 80 5 False] False\<rparr>"

definition demo_running :: mem where
  "demo_running = mem_of
     \<lparr>tb_task = [demo_task_row 7 ''job''], tb_srv = [demo_srv_row], tb_route = [demo_route_row],
      tb_log = [zero_log_model\<lparr>bm_Id := 1, lm_TaskId := 7, lm_RunTimes := 1\<rparr>]\<rparr>"

lemma callback_writes_own_log_witness:
  "\<exists>c s'. callback_srv demo_http 0 1000 1001 (demo_task\<lparr>t_runTimes := 1\<rparr>) demo_running = (Inr c, s') \<and>
    map lm_TaskStatus (tb_log (mm_tabs s')) = [statusSuccess] \<and> map lm_EndedAt (tb_log (mm_tabs s')) = [1001] \<and>
    tb_task (mm_tabs s') = tb_task (mm_tabs demo_running)"
proof -
  let ?t = "demo_task\<lparr>t_runTimes := 1\<rparr>" and ?r = "route_to_entity demo_route_row"
  let ?resp = "\<lparr>hr_IsRunInAsync = False, hr_IsSuccess = True, hr_Extra = ''ok''\<rparr>"
  let ?d = "run_detail ?t ?r ?resp (Some ''ok'')"
  have hyps: "t_id ?t \<noteq> []" "he_req_json demo_http (callback_req ?t) = Inr ''task 7''"
    "get_random_route 0 (t_callbackSrv ?t) = Some ?r"
    "do_req demo_http (he_resp_json demo_http) (callback_input ?t ?r ''task 7'') zero_callback_resp demo_running =
      ((Some ''ok'', None), ?resp, demo_running)"
    by code_simp+
  obtain r s' where run: "callback_srv demo_http 0 1000 1001 ?t demo_running = (r, s')" by (rule prod.exhaust)
  note out = callback_writes_own_log [OF mem_is_system hyps run]
  have saved: "fst (save_task_callback_log mem_store 1000 1001 ?d demo_running) = Inr ()"
    "map (\<lambda>l. (lm_TaskStatus l, lm_EndedAt l)) (map (\<lambda>l. if log_run mem_co (t_id ?t) (t_runTimes ?t) l
      then (callback_row 1000 1001 ?d l)\<lparr>bm_UpdatedAt := mem_now demo_running\<rparr> else l) (tb_log (mm_tabs demo_running))) =
      [(statusSuccess, 1001)]"
    by code_simp+
  from out run saved show ?thesis
    by (intro exI [of _ "new_callback_resp False True ''ok''"] exI [of _ s']) (auto simp: comp_def)
qed

text \<open>
  The error of a callback is never recorded: whatever the request ends in, no log row's
  \<open>callback_err\<close> changes.
\<close>

lemma callback_error_not_recorded:
  assumes "easytask_system S co clk view L H"
    and "callback_srv H rnd now1 now2 t s = (Inl e, s')"
  shows "map lm_CallbackErr (tb_log (view s')) = map lm_CallbackErr (tb_log (view s))"
  by (rule easytask_system.callback_err_never_written [OF assms])

lemma callback_error_not_recorded_witness:
  "\<exists>s'. callback_srv demo_http 0 1000 1000 demo_down_task demo_running = (Inl (HttpErr ''refused''), s') \<and>
    map lm_CallbackErr (tb_log (mm_tabs s')) = [[]]"
proof -
  have "fst (callback_srv demo_http 0 1000 1000 demo_down_task demo_running) = Inl (HttpErr ''refused'')"
    by code_simp
  then obtain s' where
    run: "callback_srv demo_http 0 1000 1000 demo_down_task demo_running = (Inl (HttpErr ''refused''), s')"
    by (cases "callback_srv demo_http 0 1000 1000 demo_down_task demo_running") auto
  have "map lm_CallbackErr (tb_log (mm_tabs demo_running)) = [[]]" by code_simp
  with callback_error_not_recorded [OF mem_is_system run] run show ?thesis by auto
qed


definition demo_pair :: callback_srv where
  "demo_pair = new_callback_srv ''1'' ''srv''
     [new_srv_route ''1'' ''http'' ''down'' 80 5 True, new_srv_route ''2'' ''http'' ''up'' 80 5 True] True"

lemma beat_run_answers:
  assumes "heart_beat_body H = Inr body" "beat_run H body ks (beat_start srv s) = Some b" "beat_finished b"
  shows "heart_beat H srv s (Inr (beat_answer b)) (hs_world b)"
  by (rule heart_beat.answered [OF assms(1) beat_run_steps [OF assms(2)] assms(3)])

lemma demo_beat:
  "\<exists>p s'. heart_beat demo_http demo_pair demo_mem (Inr p) s'"
proof -
  have "case beat_run demo_http ''ping'' [0, 0, 0, 0, 0, 0, 1, 1, 1, 1, 1, 1, 1] (beat_start demo_pair demo_mem) of
      Some b \<Rightarrow> beat_finished b | None \<Rightarrow> False" by code_simp
  then obtain b where run: "beat_run demo_http ''ping'' [0, 0, 0, 0, 0, 0, 1, 1, 1, 1, 1, 1, 1] (beat_start demo_pair demo_mem) = Some b"
    and fin: "beat_finished b" by (auto split: option.splits)
  have body: "heart_beat_body demo_http = Inr ''ping''" by (simp add: heart_beat_body_def demo_http_def)
  show ?thesis by (intro exI, rule beat_run_answers [OF body run fin])
qed


text \<open>
  C16. Two goroutines can lose a route: when both routes answer and both goroutines read the header of \<open>replyRoutes\<close>
  before either stores it, the second store wins, and the first route is in neither list.
\<close>

lemma heart_beat_loses_route:
  assumes "cs_routes srv = [r1, r2]" "heart_beat_body H = Inr body"
    and "do_req H (he_pong_json H) (beat_input r1 body) \<lparr>pg_Pong = False\<rparr> s = ((raw1, None), resp1, s1)"
    and "do_req H (he_pong_json H) (beat_input r2 body) resp1 s1 = ((raw2, None), resp2, s2)"
    and "pg_Pong resp2"
  shows "\<exists>p. heart_beat H srv s (Inr p) s2 \<and> hb_replyRoutes p = [r2] \<and> hb_noReplyRoutes p = []"
proof -
  let ?w = "append_write (he_grow H)"
  obtain v h where one: "?w (0 :: nat) (0, 0) nil_slice = (v, h)" by (rule prod.exhaust)
  obtain v' h' where two: "?w 1 (0, 0) v = (v', h')" by (rule prod.exhaust)
  have hdr: "sv_header (nil_slice :: nat slice_var) = (0, 0)" by (simp add: nil_slice_def)
  let ?b = "\<lparr>hs_err = None, hs_pong = resp2, hs_no = nil_slice, hs_yes = v'\<lparr>sv_header := h'\<rparr>,
      hs_pcs = [(r1, GDone), (r2, GDone)], hs_world = s2\<rparr>"
  have "beat_run H body [0, 1, 0, 1, 0, 0, 1, 1] (beat_start srv s) = Some
      \<lparr>hs_err = None, hs_pong = resp2, hs_no = nil_slice, hs_yes = nil_slice,
       hs_pcs = [(r1, GAppend True), (r2, GAppend True)], hs_world = s2\<rparr>"
    using assms by (simp add: beat_start_def beat_move_def)
  moreover have "beat_run H body [0, 1, 0, 1, 0, 1]
      \<lparr>hs_err = None, hs_pong = resp2, hs_no = nil_slice, hs_yes = nil_slice,
       hs_pcs = [(r1, GAppend True), (r2, GAppend True)], hs_world = s2\<rparr> = Some ?b"
    using one two hdr by (simp add: beat_move_def beat_slice_def put_slice_def)
  ultimately have run: "beat_run H body ([0, 1, 0, 1, 0, 0, 1, 1] @ [0, 1, 0, 1, 0, 1]) (beat_start srv s) = Some ?b"
    unfolding beat_run_append by simp
  have fin: "beat_finished ?b" by (simp add: beat_finished_def)
  have "slice_vals (v'\<lparr>sv_header := h'\<rparr>) = [1]"
    using one two by (auto simp: append_write_def nil_slice_def slice_vals_def)
  then have "beat_answer ?b = new_heart_beat_resp [r2] []"
    by (simp add: beat_answer_def slice_routes_def)
  with beat_run_answers [OF assms(2) run fin] show ?thesis
    by (intro exI [of _ "beat_answer ?b"]) (simp add: new_heart_beat_resp_def)
qed

definition demo_twins :: callback_srv where
  "demo_twins = new_callback_srv ''1'' ''srv''
     [new_srv_route ''1'' ''http'' ''up'' 80 5 True, new_srv_route ''2'' ''http'' ''up'' 81 5 True] True"

lemma heart_beat_loses_route_witness:
  "\<exists>p. heart_beat demo_http demo_twins demo_mem (Inr p) demo_mem \<and>
    new_srv_route ''1'' ''http'' ''up'' 80 5 True \<notin> set (hb_replyRoutes p @ hb_noReplyRoutes p)"
proof -
  let ?r1 = "new_srv_route ''1'' ''http'' ''up'' 80 5 True" and ?r2 = "new_srv_route ''2'' ''http'' ''up'' 81 5 True"
  have routes: "cs_routes demo_twins = [?r1, ?r2]" by (simp add: demo_twins_def new_callback_srv_def)
  have body: "heart_beat_body demo_http = Inr ''ping''" by (simp add: heart_beat_body_def demo_http_def)
  have req: "do_req demo_http (he_pong_json demo_http) (beat_input ?r1 ''ping'') \<lparr>pg_Pong = False\<rparr> demo_mem =
      ((Some ''ok'', None), \<lparr>pg_Pong = True\<rparr>, demo_mem)"
    "do_req demo_http (he_pong_json demo_http) (beat_input ?r2 ''ping'') \<lparr>pg_Pong = True\<rparr> demo_mem =
      ((Some ''ok'', None), \<lparr>pg_Pong = True\<rparr>, demo_mem)"
    by code_simp+
  from heart_beat_loses_route [OF routes body req] show ?thesis
    by (auto simp: new_srv_route_def)
qed

text \<open>
  C39. The goroutines of a health check share their error variable: when one route fails and the
  next one answers, there is an interleaving in which the failed route is reported as answering.
\<close>

lemma heart_beat_hides_failure:
  assumes "cs_routes srv = [r1, r2]" "heart_beat_body H = Inr body"
    and "do_req H (he_pong_json H) (beat_input r1 body) \<lparr>pg_Pong = False\<rparr> s = ((raw1, Some e), resp1, s1)"
    and "do_req H (he_pong_json H) (beat_input r2 body) resp1 s1 = ((raw2, None), resp2, s2)"
    and "pg_Pong resp2"
  shows "\<exists>p. heart_beat H srv s (Inr p) s2 \<and> r1 \<in> set (hb_replyRoutes p)"
proof -
  let ?g = "append_alone (he_grow H)"
  let ?at = "\<lambda>pcs. \<lparr>hs_err = None, hs_pong = resp2, hs_no = nil_slice, hs_yes = nil_slice, hs_pcs = pcs, hs_world = s2\<rparr>"
  let ?b = "(?at [(r1, GDone), (r2, GDone)])\<lparr>hs_yes := ?g 1 (?g 0 nil_slice)\<rparr>"
  have "beat_run H body [0, 1, 0, 1, 0, 0, 1, 1] (beat_start srv s) = Some (?at [(r1, GAppend True), (r2, GAppend True)])"
    using assms by (simp add: beat_start_def beat_move_def)
  moreover have "beat_run H body [0, 0, 0, 1, 1, 1] (?at [(r1, GAppend True), (r2, GAppend True)]) = Some ?b"
    by (subst append_in_a_row [of 0 _ r1 True], simp, simp, subst append_in_a_row [of 1 _ r2 True])
      (simp_all add: put_slice_def beat_slice_def)
  ultimately have run: "beat_run H body ([0, 1, 0, 1, 0, 0, 1, 1] @ [0, 0, 0, 1, 1, 1]) (beat_start srv s) = Some ?b"
    unfolding beat_run_append by simp
  have fin: "beat_finished ?b" by (simp add: beat_finished_def)
  have "slice_vals (?g 1 (?g (0 :: nat) nil_slice)) = [0, 1]"
    using append_alone_ok [of nil_slice "he_grow H" "0 :: nat"]
      append_alone_ok(1) [of "?g (0 :: nat) nil_slice" "he_grow H" 1] by simp
  then have "hb_replyRoutes (beat_answer ?b) = [r1, r2]"
    by (simp add: beat_answer_def slice_routes_def new_heart_beat_resp_def)
  with beat_run_answers [OF assms(2) run fin] show ?thesis
    by (intro exI [of _ "beat_answer ?b"]) simp
qed

lemma heart_beat_hides_failure_witness:
  "\<exists>p. heart_beat demo_http demo_pair demo_mem (Inr p) demo_mem \<and>
    new_srv_route ''1'' ''http'' ''down'' 80 5 True \<in> set (hb_replyRoutes p)"
proof -
  let ?r1 = "new_srv_route ''1'' ''http'' ''down'' 80 5 True"
  let ?r2 = "new_srv_route ''2'' ''http'' ''up'' 80 5 True"
  have routes: "cs_routes demo_pair = [?r1, ?r2]" by (simp add: demo_pair_def new_callback_srv_def)
  have body: "heart_beat_body demo_http = Inr ''ping''" by (simp add: heart_beat_body_def demo_http_def)
  have "fst (do_req demo_http (he_pong_json demo_http) (beat_input ?r1 ''ping'') \<lparr>pg_Pong = False\<rparr> demo_mem) =
      (None, Some (HttpErr ''refused''))"
    "snd (do_req demo_http (he_pong_json demo_http) (beat_input ?r1 ''ping'') \<lparr>pg_Pong = False\<rparr> demo_mem) =
      (\<lparr>pg_Pong = False\<rparr>, demo_mem)"
    "fst (do_req demo_http (he_pong_json demo_http) (beat_input ?r2 ''ping'') \<lparr>pg_Pong = False\<rparr> demo_mem) =
      (Some ''ok'', None)"
    "snd (do_req demo_http (he_pong_json demo_http) (beat_input ?r2 ''ping'') \<lparr>pg_Pong = False\<rparr> demo_mem) =
      (\<lparr>pg_Pong = True\<rparr>, demo_mem)"
    by code_simp+
  then have r1: "do_req demo_http (he_pong_json demo_http) (beat_input ?r1 ''ping'') \<lparr>pg_Pong = False\<rparr> demo_mem =
      ((None, Some (HttpErr ''refused'')), \<lparr>pg_Pong = False\<rparr>, demo_mem)"
    and r2: "do_req demo_http (he_pong_json demo_http) (beat_input ?r2 ''ping'') \<lparr>pg_Pong = False\<rparr> demo_mem =
      ((Some ''ok'', None), \<lparr>pg_Pong = True\<rparr>, demo_mem)"
    by (simp_all add: prod_eq_iff)
  show ?thesis by (rule heart_beat_hides_failure [OF routes body r1 r2]) simp
qed

text \<open>
  For a service with one route the health check is right: the route is reported as answering
  exactly when its request succeeded and the response says pong.
\<close>

lemma heart_beat_single_route:
  assumes "heart_beat H srv s (Inr p) s'" "cs_routes srv = [route]" "heart_beat_body H = Inr body"
    and "do_req H (he_pong_json H) (beat_input route body) \<lparr>pg_Pong = False\<rparr> s = ((raw, e), resp, s1)"
  shows "s' = s1 \<and>
    (if e = None \<and> pg_Pong resp then hb_replyRoutes p = [route] \<and> hb_noReplyRoutes p = []
     else hb_replyRoutes p = [] \<and> hb_noReplyRoutes p = [route])"
  by (rule heart_beat_single [OF assms])

lemma heart_beat_single_route_witness:
  "\<exists>p s'. heart_beat demo_http demo_srv demo_mem (Inr p) s' \<and>
    hb_replyRoutes p = [route_to_entity demo_route_row]"
proof -
  let ?r = "route_to_entity demo_route_row"
  have body: "heart_beat_body demo_http = Inr ''ping''" by (simp add: heart_beat_body_def demo_http_def)
  have route: "cs_routes demo_srv = [?r]" by (simp add: demo_srv_def)
  have "fst (do_req demo_http (he_pong_json demo_http) (beat_input ?r ''ping'') \<lparr>pg_Pong = False\<rparr> demo_mem) =
      (Some ''ok'', None)"
    "snd (do_req demo_http (he_pong_json demo_http) (beat_input ?r ''ping'') \<lparr>pg_Pong = False\<rparr> demo_mem) =
      (\<lparr>pg_Pong = True\<rparr>, demo_mem)"
    by code_simp+
  then have req: "do_req demo_http (he_pong_json demo_http) (beat_input ?r ''ping'') \<lparr>pg_Pong = False\<rparr> demo_mem =
      ((Some ''ok'', None), \<lparr>pg_Pong = True\<rparr>, demo_mem)"
    by (simp add: prod_eq_iff)
  have "case beat_run demo_http ''ping'' [0, 0, 0, 0, 0, 0, 0] (beat_start demo_srv demo_mem) of
      Some b \<Rightarrow> beat_finished b | None \<Rightarrow> False" by code_simp
  then obtain b where run: "beat_run demo_http ''ping'' [0, 0, 0, 0, 0, 0, 0] (beat_start demo_srv demo_mem) = Some b"
    and fin: "beat_finished b" by (auto split: option.splits)
  note beat = beat_run_answers [OF body run fin]
  from heart_beat_single_route [OF beat route body req] beat show ?thesis by auto
qed

end
