(* ===== verification/Registry.thy ===== *)
theory Registry
  imports Worker_Pool Callback_Http
begin

text \<open>
  \<open>internal/registry/registry.go\<close>: looking up, adding and removing callback services, and the health
  check: a loop that pages through the services with health-checked routes, and workers that send the heart
  beats and record who answered.

  \<open>discover\<close>, \<open>register_srv\<close> and \<open>unregister_srv\<close> are the operations; \<open>check_poll\<close> and \<open>check_work\<close> are
  the code of the two kinds of goroutines between their blocking points, and \<open>registry_pool\<close> puts them
  into the goroutines of \<open>Worker_Pool\<close>. The heart beat of a service is the relation of
  \<open>Callback_Http\<close> (or any executor's), so a worker's step is a relation too.
\<close>

section \<open>Operations\<close>

definition discover :: "'s srv_repo \<Rightarrow> string \<Rightarrow> ('s, callback_srv) io" where
  "discover SR srvName =
     bind_io (is_GetSrvs SR \<lparr>qs_opts = [QueryOptKeyEqName srvName], qs_limit = 1, qs_offset = 0\<rparr>)
       (\<lambda>srvs. case srvs of
          [] \<Rightarrow> throw_io (newBizErr ErrCodeTaskCallbackSrvNotFound)
        | srv # _ \<Rightarrow> ret_io srv)"

definition register_srv :: "'s srv_repo \<Rightarrow> callback_srv \<Rightarrow> ('s, unit) io" where
  "register_srv SR srv = is_AddSrvRoutes SR srv"

definition unregister_srv :: "'s srv_repo \<Rightarrow> callback_srv \<Rightarrow> ('s, unit) io" where
  "unregister_srv SR srv = is_DelSrvRoutes SR srv"

section \<open>Health checks\<close>

definition DefaultCheckWorkerPoolSize :: nat where "DefaultCheckWorkerPoolSize = 100"

definition check_worker_pool_size :: "nat \<Rightarrow> nat" where
  "check_worker_pool_size checkHealthWorkerPoolSize =
     (if checkHealthWorkerPoolSize = 0 then DefaultCheckWorkerPoolSize else checkHealthWorkerPoolSize)"

record 's registry =
  rg_srvs :: "'s srv_repo"
  rg_beat :: "callback_srv \<Rightarrow> 's \<Rightarrow> (go_err + heart_beat_resp) \<Rightarrow> 's \<Rightarrow> bool"

text \<open>The loop is at the select of \<open>sched\<close>, or in \<open>HealthCheck\<close> before the page at an offset.\<close>

datatype check_pc = AtSelect | AtPage int

definition check_size :: int where "check_size = 1000"

definition check_page :: "'s srv_repo \<Rightarrow> int \<Rightarrow> 's \<Rightarrow> (callback_srv list \<times> check_pc) \<times> 's" where
  "check_page SR offset s =
     (case is_GetSrvs SR \<lparr>qs_opts = [QueryOptKeyEnabledHeathCheck], qs_limit = check_size,
                          qs_offset = offset\<rparr> s of
        (Inl e, s1) \<Rightarrow> (([], AtSelect), s1)
      | (Inr srvs, s1) \<Rightarrow>
          if srvs = [] then (([], AtSelect), s1)
          else ((srvs, AtPage (wrap64 (offset + check_size))), s1))"

definition check_poll :: "'s srv_repo \<Rightarrow> bool \<Rightarrow> check_pc \<Rightarrow> 's \<Rightarrow> (callback_srv list \<times> check_pc) \<times> 's" where
  "check_poll SR isMaster pc s =
     (case pc of
        AtSelect \<Rightarrow> if \<not> isMaster then (([], AtSelect), s) else check_page SR 0 s
      | AtPage offset \<Rightarrow> check_page SR offset s)"

text \<open>\<open>CBeat\<close>: about to send the heart beats; \<open>CPass\<close>, \<open>CDrop\<close>: about to record the two lists.\<close>

datatype check_job = CBeat callback_srv | CPass callback_srv heart_beat_resp | CDrop callback_srv heart_beat_resp

definition record_pass :: "'s srv_repo \<Rightarrow> int \<Rightarrow> callback_srv \<Rightarrow> heart_beat_resp \<Rightarrow> 's \<Rightarrow> 's" where
  "record_pass SR now srv p s =
     (if hb_replyRoutes p \<noteq> [] then
        snd (is_SetSrvRoutesPassHealthCheck SR now
               (new_callback_srv (cs_id srv) (cs_name srv) (hb_replyRoutes p) True) s)
      else s)"

definition record_drop :: "'s srv_repo \<Rightarrow> callback_srv \<Rightarrow> heart_beat_resp \<Rightarrow> 's \<Rightarrow> 's" where
  "record_drop SR srv p s =
     (if hb_noReplyRoutes p \<noteq> [] then
        snd (is_DelSrvRoutes SR
               (new_callback_srv (cs_id srv) (cs_name srv) (hb_noReplyRoutes p) True) s)
      else s)"

inductive check_work :: "'s registry \<Rightarrow> 's \<Rightarrow> check_job \<Rightarrow> check_job option \<Rightarrow> 's \<Rightarrow> bool" for G where
  beat_err: "rg_beat G srv s (Inl e) s' \<Longrightarrow> check_work G s (CBeat srv) None s'"
| beat: "rg_beat G srv s (Inr p) s' \<Longrightarrow> check_work G s (CBeat srv) (Some (CPass srv p)) s'"
| pass: "check_work G s (CPass srv p) (Some (CDrop srv p)) (record_pass (rg_srvs G) now srv p s)"
| drop: "check_work G s (CDrop srv p) None (record_drop (rg_srvs G) srv p s)"

inductive_cases check_workE: "check_work G s j j' s'"

definition registry_pool :: "'s registry \<Rightarrow> ('s, check_pc, callback_srv, check_job) pool_env" where
  "registry_pool G =
     \<lparr>pe_select = (\<lambda>pc. pc = AtSelect),
      pe_poll = (\<lambda>s pc srvs pc' s'. \<exists>isMaster. check_poll (rg_srvs G) isMaster pc s = ((srvs, pc'), s')),
      pe_accept = (\<lambda>srv. Some (CBeat srv)),
      pe_work = check_work G,
      pe_stop = registry_stop, pe_first = False\<rparr>"

definition registry_init :: "nat \<Rightarrow> (check_pc, callback_srv, check_job) pool" where
  "registry_init n = pool_init (check_worker_pool_size n) AtSelect"

text \<open>The registry once \<open>createHealthCheckWorkerPool\<close> has returned, its loop not yet begun.\<close>

definition registry_ready :: "nat \<Rightarrow> (check_pc, callback_srv, check_job) pool" where
  "registry_ready n = pool_ready (check_worker_pool_size n) AtSelect"

section \<open>Lemmas\<close>

lemma registry_pool_simps [simp]:
  "pe_select (registry_pool G) pc \<longleftrightarrow> pc = AtSelect" "pe_accept (registry_pool G) srv = Some (CBeat srv)"
  "pe_stop (registry_pool G) = registry_stop" "\<not> pe_first (registry_pool G)" "pe_work (registry_pool G) = check_work G"
  "pe_poll (registry_pool G) s pc srvs pc' s' \<longleftrightarrow>
     (\<exists>isMaster. check_poll (rg_srvs G) isMaster pc s = ((srvs, pc'), s'))"
  by (simp_all add: registry_pool_def)

context easytask_store
begin

lemma srv_unique:
  assumes "inv_db db" "m \<in> set (tb_srv (view db))" "m' \<in> set (tb_srv (view db))"
    and "co_eq co (sm_Name m) name" "co_eq co (sm_Name m') name"
  shows "m = m'"
proof -
  have eq: "equivp (co_eq co)" using collation by (simp add: collation_law_def)
  have "co_eq co (sm_Name m) (sm_Name m')"
    using assms(4,5) equivp_symp [OF eq] equivp_transp [OF eq] by blast
  with assms(1-3) show ?thesis by (rule srv_name_eq)
qed

lemma name_page:
  "find_result co srv_schema (srv_page_query [CEq DbFieldName (VText name)]
     \<lparr>qs_opts = x, qs_limit = 1, qs_offset = 0\<rparr>) R ms \<Longrightarrow>
   (ms = [] \<and> (\<forall>m \<in> set R. bm_DeletedAt m = 0 \<longrightarrow> \<not> co_eq co (sm_Name m) name)) \<or>
   (\<exists>m \<in> set R. ms = [m] \<and> bm_DeletedAt m = 0 \<and> co_eq co (sm_Name m) name)"
proof -
  let ?q = "srv_page_query [CEq DbFieldName (VText name)] \<lparr>qs_opts = x, qs_limit = 1, qs_offset = 0\<rparr>"
  assume "find_result co srv_schema ?q R ms"
  then obtain xs where xs: "mset xs = mset (filter (selected co srv_schema ?q) R)" and ms: "ms = take 1 xs"
    by (auto simp: find_result_def page_def srv_page_query_def)
  have sel: "selected co srv_schema ?q r \<longleftrightarrow> bm_DeletedAt r = 0 \<and> co_eq co (sm_Name r) name" for r
    by (simp add: selected_def srv_page_query_def)
  have "set xs = {r \<in> set R. bm_DeletedAt r = 0 \<and> co_eq co (sm_Name r) name}"
    using arg_cong [OF xs, of set_mset] sel by simp
  with ms show ?thesis by (cases xs) auto
qed

text \<open>What \<open>Discover\<close> answers: the live service of the name with its live routes.\<close>

lemma discover_ok:
  assumes run: "discover (mysql_srv_repo L S) name db = (Inr srv, db')"
  obtains m where "view db' = view db" "m \<in> set (tb_srv (view db))" "bm_DeletedAt m = 0"
    "co_eq co (sm_Name m) name" "cs_id srv = toTaskCallbackSrvEntityId (bm_Id m)" "cs_name srv = sm_Name m"
    "set (cs_routes srv) = route_to_entity ` set (live_routes (view db) (bm_Id m))"
proof -
  let ?qs = "\<lparr>qs_opts = [QueryOptKeyEqName name], qs_limit = 1, qs_offset = 0\<rparr>"
  from run obtain xs db1 where xs: "get_srvs L S ?qs db = (Inr xs, db1)"
    "(case xs of [] \<Rightarrow> throw_io (newBizErr ErrCodeTaskCallbackSrvNotFound) | srv # _ \<Rightarrow> ret_io srv) db1 = (Inr srv, db')"
    by (auto simp: discover_def bind_io_ok)
  then obtain srvs where get: "get_srvs L S ?qs db = (Inr (srv # srvs), db')" by (cases xs) auto
  obtain ms rs where v: "view db' = view db"
    and ms: "find_result co srv_schema (srv_page_query [CEq DbFieldName (VText name)] ?qs) (tb_srv (view db)) ms"
    and srvs: "srv # srvs = join_routes ms rs"
    and rs: "set rs = {r \<in> set (tb_route (view db)). bm_DeletedAt r = 0 \<and> rm_SrvId r \<in> bm_Id ` set ms}"
    by (rule get_srvs_ok [OF libs get]) (auto intro: that)
  from name_page [OF ms] srvs obtain m where m: "ms = [m]" "m \<in> set (tb_srv (view db))" "bm_DeletedAt m = 0"
    "co_eq co (sm_Name m) name" by (auto simp: join_routes_def)
  have srv: "srv = srv_to_entity (map route_to_entity (filter (\<lambda>r. rm_SrvId r = bm_Id m) rs)) m"
    using srvs m(1) by (simp add: join_routes_def)
  have live: "set (filter (\<lambda>r. rm_SrvId r = bm_Id m) rs) = set (live_routes (view db) (bm_Id m))"
    using rs m(1) by (auto simp: live_routes_def)
  have "cs_routes srv = map route_to_entity (filter (\<lambda>r. rm_SrvId r = bm_Id m) rs)" by (simp add: srv)
  then have "set (cs_routes srv) = route_to_entity ` set (live_routes (view db) (bm_Id m))"
    by (simp only: set_map live)
  then show thesis
    by (rule that [OF v m(2-4), rotated 2]) (simp_all add: srv id_defs)
qed

lemma discover_missing:
  assumes run: "discover (mysql_srv_repo L S) name db = (Inl (newBizErr ErrCodeTaskCallbackSrvNotFound), db')"
    and get: "get_srvs L S \<lparr>qs_opts = [QueryOptKeyEqName name], qs_limit = 1, qs_offset = 0\<rparr> db = (Inr srvs, db1)"
  shows "\<forall>m \<in> set (tb_srv (view db)). bm_DeletedAt m = 0 \<longrightarrow> \<not> co_eq co (sm_Name m) name"
proof -
  let ?qs = "\<lparr>qs_opts = [QueryOptKeyEqName name], qs_limit = 1, qs_offset = 0\<rparr>"
  have "srvs = []" using run get by (cases srvs) (simp_all add: discover_def bind_io_def)
  obtain ms rs where
    "find_result co srv_schema (srv_page_query [CEq DbFieldName (VText name)] ?qs) (tb_srv (view db)) ms"
    "srvs = join_routes ms rs"
    by (rule get_srvs_ok [OF libs get]) (auto intro: that)
  with name_page \<open>srvs = []\<close> show ?thesis by (fastforce simp: join_routes_def)
qed

lemma discover_frame: "discover (mysql_srv_repo L S) name db = (r, db') \<Longrightarrow> view db' = view db"
  by (auto simp: discover_def bind_io_def dest!: get_srvs_frame split: prod.splits sum.splits list.splits)

text \<open>Registering and then discovering finds every registered route.\<close>

lemma register_discover:
  assumes inv: "inv_db db" and reg: "register_srv (mysql_srv_repo L S) srv db = (Inr u, db1)"
    and disc: "discover (mysql_srv_repo L S) (cs_name srv) db1 = (Inr found, db2)"
    and route: "route \<in> set (cs_routes srv)"
  shows "co_eq co (cs_name found) (cs_name srv) \<and>
    (\<exists>r \<in> set (cs_routes found). co_eq co (rt_scheme r) (rt_scheme route) \<and>
       co_eq co (rt_host r) (rt_host route) \<and> rt_port r = rt_port route)"
proof -
  from reg have add: "add_srv_routes S srv db = (Inr u, db1)" by (simp add: register_srv_def)
  have inv1: "inv_db db1" by (rule pres_ioD [OF pres_srv_ops(1) add inv])
  obtain m where m: "m \<in> set (tb_srv (view db1))" "bm_DeletedAt m = 0" "co_eq co (sm_Name m) (cs_name srv)"
    "\<forall>route \<in> set (cs_routes srv). \<exists>r \<in> set (tb_route (view db1)). route_at co (bm_Id m) route r"
    by (rule add_srv_routes_ok [OF add inv])
  obtain m' where m': "m' \<in> set (tb_srv (view db1))" "co_eq co (sm_Name m') (cs_name srv)"
    "cs_name found = sm_Name m'"
    "set (cs_routes found) = route_to_entity ` set (live_routes (view db1) (bm_Id m'))"
    by (rule discover_ok [OF disc])
  have "m' = m" by (rule srv_unique [OF inv1 m'(1) m(1) m'(2) m(3)])
  from m(4) route obtain r where "r \<in> set (tb_route (view db1))" "route_at co (bm_Id m) route r" by blast
  with m' \<open>m' = m\<close> have "route_to_entity r \<in> set (cs_routes found)"
    "co_eq co (rm_SrvSchema r) (rt_scheme route)" "co_eq co (rm_Host r) (rt_host route)" "rm_Port r = rt_port route"
    by (auto simp: route_at_def live_routes_def)
  with m' show ?thesis by (intro conjI bexI [of _ "route_to_entity r"]) simp_all
qed

end

section \<open>The registry that \<open>main\<close> builds\<close>

definition easytask_registry :: "libs \<Rightarrow> 'db store \<Rightarrow> 'db http_env \<Rightarrow> 'db registry" where
  "easytask_registry L S H = \<lparr>rg_srvs = mysql_srv_repo L S, rg_beat = heart_beat H\<rparr>"

lemma easytask_registry_simps [simp]:
  "rg_srvs (easytask_registry L S H) = mysql_srv_repo L S" "rg_beat (easytask_registry L S H) = heart_beat H"
  by (simp_all add: easytask_registry_def)

text \<open>A health check sends requests and leaves the database alone.\<close>

lemma beat_move_view:
  assumes "net_law H view" "beat_move H body k b = Some b'"
  shows "view (hs_world b') = view (hs_world b)"
  using assms(2)
  by (auto simp: beat_move_def Let_def split: if_splits prod.splits beat_pc.splits
      dest: do_req_frame [OF assms(1)])

lemma heart_beat_view:
  assumes "net_law H view" "heart_beat H srv s r s'"
  shows "view s' = view s"
  using assms(2)
proof cases
  case (answered body b)
  have "view (hs_world b) = view (hs_world (beat_start srv s))"
    using answered(4)
    by (induction rule: rtranclp_induct) (auto elim!: beat_step.cases dest: beat_move_view [OF assms(1)])
  with answered show ?thesis by (simp add: beat_start_def)
qed simp

lemma filter_map_if:
  "(\<And>r. P r \<Longrightarrow> \<not> Q (g r)) \<Longrightarrow>
     filter Q (map (\<lambda>r. if P r then g r else r) xs) = filter (\<lambda>r. Q r \<and> \<not> P r) xs"
  by (induction xs) auto

lemma route_entity_id: "route_to_entity r = route_to_entity x \<Longrightarrow> bm_Id r = bm_Id x"
  by (drule arg_cong [of _ _ "\<lambda>e. toCallbackSrvRouteModelId (rt_id e)"])
    (simp add: route_to_entity_def new_srv_route_def)

lemma subset_image_map:
  assumes "set ys \<subseteq> f ` A"
  shows "\<exists>xs. ys = map f xs \<and> set xs \<subseteq> A"
  using assms
proof (induction ys)
  case (Cons y ys)
  then obtain x xs where "y = f x" "x \<in> A" "ys = map f xs" "set xs \<subseteq> A" by auto
  then show ?case by (intro exI [of _ "x # xs"]) simp
qed simp

context easytask_system
begin

lemma check_poll_view:
  assumes "check_poll (mysql_srv_repo L S) isMaster pc s = (r, s')"
  shows "view s' = view s"
proof -
  have page: "view s' = view s" if "check_page (mysql_srv_repo L S) n s = (x, s')" for n x
  proof -
    obtain y s1 where "get_srvs L S \<lparr>qs_opts = [QueryOptKeyEnabledHeathCheck], qs_limit = check_size,
        qs_offset = n\<rparr> s = (y, s1)" by (rule prod.exhaust)
    with that get_srvs_frame [OF this] show ?thesis
      by (auto simp: check_page_def split: sum.splits if_splits)
  qed
  with assms show ?thesis by (auto simp: check_poll_def split: check_pc.splits if_splits)
qed

lemma record_frame:
  assumes "inv_db s" "s' = record_pass (mysql_srv_repo L S) now srv p s \<or> s' = record_drop (mysql_srv_repo L S) srv p s"
  shows "inv_db s' \<and> tb_task (view s') = tb_task (view s) \<and> tb_log (view s') = tb_log (view s)"
proof -
  let ?P = "\<lambda>t. inv_db t \<and> tb_task (view t) = tb_task (view s) \<and> tb_log (view t) = tb_log (view s)"
  have "?P (snd (m s))" if "pres_io inv_db m" "pres_io (task_log_are (tb_task (view s)) (tb_log (view s))) m" for m :: "('a, unit) io"
    using that assms(1) by (simp add: pres_io_def)
  from this [OF pres_srv_ops(3) srv_ops_frame(3)] this [OF pres_srv_ops(2) srv_ops_frame(2)]
  show ?thesis using assms by (auto simp: record_pass_def record_drop_def)
qed

lemma check_work_frame:
  assumes "check_work (easytask_registry L S H) s j j' s'" "inv_db s"
  shows "inv_db s' \<and> tb_task (view s') = tb_task (view s) \<and> tb_log (view s') = tb_log (view s)"
  using assms(1)
proof cases
  case (beat_err srv e)
  with heart_beat_view [OF sys_net] assms(2) show ?thesis by auto
next
  case (beat srv p)
  with heart_beat_view [OF sys_net] assms(2) show ?thesis by auto
next
  case (pass srv p now)
  with record_frame [OF assms(2)] show ?thesis by auto
next
  case (drop srv p)
  with record_frame [OF assms(2)] show ?thesis by auto
qed

text \<open>The identifiers of listed routes are those of the rows they were made from.\<close>

lemma listed_ids:
  assumes inv: "inv_db s" and ids: "route_model_ids ys = Inr ids"
    and sub: "set ys \<subseteq> route_to_entity ` set (live_routes (view s) i)" and r: "r \<in> set (live_routes (view s) i)"
  shows "bm_Id r \<in> set ids \<longleftrightarrow> route_to_entity r \<in> set ys"
proof -
  obtain rs where rs: "ys = map route_to_entity rs" "set rs \<subseteq> set (live_routes (view s) i)"
    using subset_image_map [OF sub] by blast
  then have ids: "set ids = bm_Id ` set rs" using ids by auto
  show ?thesis
  proof
    assume "bm_Id r \<in> set ids"
    then obtain x where "x \<in> set rs" "bm_Id r = bm_Id x" using ids by auto
    moreover from this r rs(2) have "r = x" by (intro route_id_eq [OF inv]) (auto simp: live_routes_def)
    ultimately show "route_to_entity r \<in> set ys" using rs(1) by simp
  qed (use rs(1) ids in \<open>auto dest: route_entity_id\<close>)
qed

text \<open>Recording the silent routes removes exactly them from the service.\<close>

lemma drop_recorded:
  assumes inv: "inv_db s" and m: "m \<in> set (tb_srv (view s))" and name: "cs_name srv = sm_Name m"
    and sub: "set (hb_noReplyRoutes p) \<subseteq> route_to_entity ` set (live_routes (view s) (bm_Id m))"
    and del: "hb_noReplyRoutes p \<noteq> [] \<Longrightarrow> fst (del_srv_routes S
      (new_callback_srv (cs_id srv) (cs_name srv) (hb_noReplyRoutes p) True) s) = Inr u"
  shows "live_routes (view (record_drop (mysql_srv_repo L S) srv p s)) (bm_Id m) =
    filter (\<lambda>r. route_to_entity r \<notin> set (hb_noReplyRoutes p)) (live_routes (view s) (bm_Id m))"
proof (cases "hb_noReplyRoutes p = []")
  case False
  let ?srv = "new_callback_srv (cs_id srv) (cs_name srv) (hb_noReplyRoutes p) True"
  obtain s2 where run: "del_srv_routes S ?srv s = (Inr u, s2)" using del [OF False] by (rule fst_eqE)
  obtain m' ids n where d: "m' \<in> set (tb_srv (view s))" "co_eq co (sm_Name m') (sm_Name m)"
    "route_model_ids (hb_noReplyRoutes p) = Inr ids" "0 < n"
    "tb_route (view s2) = map (\<lambda>r. if bm_DeletedAt r = 0 \<and> rm_SrvId r = bm_Id m' \<and> bm_Id r \<in> set ids
                then r\<lparr>bm_DeletedAt := n\<rparr> else r) (tb_route (view s))"
    by (rule del_srv_routes_ok [OF run inv]) (auto simp: new_callback_srv_def name)
  have "m' = m" by (rule srv_name_eq [OF inv d(1) m d(2)])
  let ?dead = "\<lambda>r. bm_DeletedAt r = 0 \<and> rm_SrvId r = bm_Id m \<and> bm_Id r \<in> set ids"
  have "live_routes (view s2) (bm_Id m) =
      filter (\<lambda>r. (bm_DeletedAt r = 0 \<and> rm_SrvId r = bm_Id m) \<and> \<not> ?dead r) (tb_route (view s))"
    using filter_map_if [of ?dead "\<lambda>r. bm_DeletedAt r = 0 \<and> rm_SrvId r = bm_Id m" "\<lambda>r. r\<lparr>bm_DeletedAt := n\<rparr>"
        "tb_route (view s)"] d(4,5) \<open>m' = m\<close> by (simp add: live_routes_def)
  also have "\<dots> = filter (\<lambda>r. bm_Id r \<notin> set ids) (live_routes (view s) (bm_Id m))"
    by (auto simp: live_routes_def intro!: filter_cong)
  also have "\<dots> = filter (\<lambda>r. route_to_entity r \<notin> set (hb_noReplyRoutes p)) (live_routes (view s) (bm_Id m))"
    using listed_ids [OF inv d(3) sub] by (intro filter_cong) simp_all
  finally show ?thesis using run False by (simp add: record_drop_def)
qed (simp add: record_drop_def)

text \<open>Recording the answering routes stamps exactly them, and keeps the service's name.\<close>

lemma live_routes_map:
  "(\<And>r. bm_DeletedAt (f r) = bm_DeletedAt r \<and> rm_SrvId (f r) = rm_SrvId r) \<Longrightarrow> tb_route v = map f (tb_route w) \<Longrightarrow>
     live_routes v i = map f (live_routes w i)"
  by (simp add: live_routes_def filter_map comp_def)

lemma pass_recorded:
  assumes inv: "inv_db s" and m: "m \<in> set (tb_srv (view s))" and name: "cs_name srv = sm_Name m"
    and sub: "set (hb_replyRoutes p) \<subseteq> route_to_entity ` set (live_routes (view s) (bm_Id m))"
    and upd: "hb_replyRoutes p \<noteq> [] \<Longrightarrow> fst (set_srv_routes_pass_health_check S now
      (new_callback_srv (cs_id srv) (cs_name srv) (hb_replyRoutes p) True) s) = Inr u"
  obtains m2 n where "m2 \<in> set (tb_srv (view (record_pass (mysql_srv_repo L S) now srv p s)))" "bm_Id m2 = bm_Id m"
    "sm_Name m2 = sm_Name m"
    "live_routes (view (record_pass (mysql_srv_repo L S) now srv p s)) (bm_Id m) =
      map (\<lambda>r. if route_to_entity r \<in> set (hb_replyRoutes p) then r\<lparr>rm_CheckedHealthAt := now, bm_UpdatedAt := n\<rparr> else r)
        (live_routes (view s) (bm_Id m))"
proof (cases "hb_replyRoutes p = []")
  case True
  with m show thesis by (intro that [of m 0]) (simp_all add: record_pass_def)
next
  case False
  let ?srv = "new_callback_srv (cs_id srv) (cs_name srv) (hb_replyRoutes p) True"
  obtain s2 where run: "set_srv_routes_pass_health_check S now ?srv s = (Inr u, s2)" using upd [OF False] by (rule fst_eqE)
  have some: "cs_routes ?srv \<noteq> []" using False by (simp add: new_callback_srv_def)
  obtain m' ids n n' where d: "m' \<in> set (tb_srv (view s))" "co_eq co (sm_Name m') (sm_Name m)"
    "route_model_ids (hb_replyRoutes p) = Inr ids"
    "tb_route (view s2) = map (\<lambda>r. if bm_DeletedAt r = 0 \<and> rm_SrvId r = bm_Id m' \<and> bm_Id r \<in> set ids
                then r\<lparr>rm_CheckedHealthAt := now, bm_UpdatedAt := n\<rparr> else r) (tb_route (view s))"
    "tb_srv (view s2) = map (\<lambda>x. if x = m' then m'\<lparr>sm_CheckedHealthAt := now, bm_UpdatedAt := n'\<rparr> else x) (tb_srv (view s))"
    by (rule set_pass_health_check_ok [OF run inv some]) (auto simp: new_callback_srv_def name)
  have "m' = m" by (rule srv_name_eq [OF inv d(1) m d(2)])
  have s2: "record_pass (mysql_srv_repo L S) now srv p s = s2" using run False by (simp add: record_pass_def)
  have "live_routes (view s2) (bm_Id m) =
      map (\<lambda>r. if bm_DeletedAt r = 0 \<and> rm_SrvId r = bm_Id m \<and> bm_Id r \<in> set ids
             then r\<lparr>rm_CheckedHealthAt := now, bm_UpdatedAt := n\<rparr> else r) (live_routes (view s) (bm_Id m))"
    by (rule live_routes_map [OF _ d(4) [unfolded \<open>m' = m\<close>]]) simp
  also have "\<dots> = map (\<lambda>r. if route_to_entity r \<in> set (hb_replyRoutes p)
             then r\<lparr>rm_CheckedHealthAt := now, bm_UpdatedAt := n\<rparr> else r) (live_routes (view s) (bm_Id m))"
  proof (rule map_cong [OF refl])
    fix r assume r: "r \<in> set (live_routes (view s) (bm_Id m))"
    then have "bm_DeletedAt r = 0" "rm_SrvId r = bm_Id m" by (simp_all add: live_routes_def)
    with listed_ids [OF inv d(3) sub r]
    show "(if bm_DeletedAt r = 0 \<and> rm_SrvId r = bm_Id m \<and> bm_Id r \<in> set ids
             then r\<lparr>rm_CheckedHealthAt := now, bm_UpdatedAt := n\<rparr> else r) =
          (if route_to_entity r \<in> set (hb_replyRoutes p) then r\<lparr>rm_CheckedHealthAt := now, bm_UpdatedAt := n\<rparr> else r)"
      by simp
  qed
  moreover have "m\<lparr>sm_CheckedHealthAt := now, bm_UpdatedAt := n'\<rparr> \<in> set (tb_srv (view s2))"
    using d(5) m \<open>m' = m\<close> by auto
  ultimately show thesis by (intro that [of "m\<lparr>sm_CheckedHealthAt := now, bm_UpdatedAt := n'\<rparr>" n]) (simp_all add: s2)
qed

text \<open>Both lists of a health check, recorded one after the other.\<close>

lemma check_recorded:
  assumes inv: "inv_db s" and m: "m \<in> set (tb_srv (view s))" and name: "cs_name srv = sm_Name m"
    and srv: "set (cs_routes srv) \<subseteq> route_to_entity ` set (live_routes (view s) (bm_Id m))"
    and beat: "heart_beat H srv s (Inr p) s1"
    and upd: "hb_replyRoutes p \<noteq> [] \<Longrightarrow> fst (set_srv_routes_pass_health_check S now
      (new_callback_srv (cs_id srv) (cs_name srv) (hb_replyRoutes p) True) s1) = Inr u"
    and s2: "s2 = record_pass (mysql_srv_repo L S) now srv p s1"
    and del: "hb_noReplyRoutes p \<noteq> [] \<Longrightarrow> fst (del_srv_routes S
      (new_callback_srv (cs_id srv) (cs_name srv) (hb_noReplyRoutes p) True) s2) = Inr u"
  shows "\<exists>n. live_routes (view (record_drop (mysql_srv_repo L S) srv p s2)) (bm_Id m) =
    map (\<lambda>r. if route_to_entity r \<in> set (hb_replyRoutes p) then r\<lparr>rm_CheckedHealthAt := now, bm_UpdatedAt := n\<rparr> else r)
      (filter (\<lambda>r. route_to_entity r \<notin> set (hb_noReplyRoutes p)) (live_routes (view s) (bm_Id m)))"
proof -
  have v1: "view s1 = view s" by (rule heart_beat_view [OF sys_net beat])
  have "set (hb_replyRoutes p) \<union> set (hb_noReplyRoutes p) \<subseteq> set (cs_routes srv)"
    using set_mset_mono [OF heart_beat_split(1) [OF beat]] by simp
  with srv have subs: "set (hb_replyRoutes p) \<subseteq> route_to_entity ` set (live_routes (view s) (bm_Id m))"
    "set (hb_noReplyRoutes p) \<subseteq> route_to_entity ` set (live_routes (view s) (bm_Id m))" by blast+
  obtain m2 n where m2: "m2 \<in> set (tb_srv (view s2))" "bm_Id m2 = bm_Id m" "sm_Name m2 = sm_Name m"
    "live_routes (view s2) (bm_Id m) =
      map (\<lambda>r. if route_to_entity r \<in> set (hb_replyRoutes p) then r\<lparr>rm_CheckedHealthAt := now, bm_UpdatedAt := n\<rparr> else r)
        (live_routes (view s) (bm_Id m))"
    by (rule pass_recorded [of s1 m srv p now u]) (use inv m name subs(1) upd v1 s2 in auto)
  have same: "route_to_entity (r\<lparr>rm_CheckedHealthAt := a, bm_UpdatedAt := b\<rparr>) = route_to_entity r" for r a b
    by (simp add: route_to_entity_def)
  have "map route_to_entity (live_routes (view s2) (bm_Id m)) = map route_to_entity (live_routes (view s) (bm_Id m))"
    by (simp add: m2(4) same)
  then have img: "route_to_entity ` set (live_routes (view s2) (bm_Id m)) = route_to_entity ` set (live_routes (view s) (bm_Id m))"
    by (metis set_map)
  have inv2: "inv_db s2" using record_frame [of s1 s2 now srv p] inv v1 s2 by simp
  have "live_routes (view (record_drop (mysql_srv_repo L S) srv p s2)) (bm_Id m2) =
      filter (\<lambda>r. route_to_entity r \<notin> set (hb_noReplyRoutes p)) (live_routes (view s2) (bm_Id m2))"
    by (rule drop_recorded [OF inv2 m2(1)]) (use name m2(2,3) img subs(2) del in auto)
  then show ?thesis
    by (intro exI [of _ n]) (simp add: m2(2,4) filter_map comp_def same if_distrib [of route_to_entity] cong: if_cong)
qed

end

section \<open>Properties\<close>

text \<open>
  C27. A service that was registered is found: after a successful \<open>Register\<close> a successful \<open>Discover\<close> of
  its name answers a service of that name that has every registered route, up to the collation of the
  database.
\<close>

lemma register_then_discover:
  assumes "easytask_store S co clk view L" "store_inv co (view db)"
    and "register_srv (mysql_srv_repo L S) srv db = (Inr u, db1)"
    and "discover (mysql_srv_repo L S) (cs_name srv) db1 = (Inr found, db2)"
    and "route \<in> set (cs_routes srv)"
  shows "co_eq co (cs_name found) (cs_name srv) \<and>
    (\<exists>r \<in> set (cs_routes found). co_eq co (rt_scheme r) (rt_scheme route) \<and>
       co_eq co (rt_host r) (rt_host route) \<and> rt_port r = rt_port route)"
  by (rule easytask_store.register_discover [OF assms])

definition demo_new_route :: srv_route where
  "demo_new_route = new_srv_route [] ''http'' ''g'' 81 5 True"

lemma register_then_discover_witness:
  "\<exists>db1 found db2. register_srv (mysql_srv_repo ref_libs mem_store)
       (new_callback_srv [] ''srv'' [demo_new_route] True) demo_mem = (Inr (), db1) \<and>
     discover (mysql_srv_repo ref_libs mem_store) ''srv'' db1 = (Inr found, db2) \<and>
     (\<exists>r \<in> set (cs_routes found). rt_host r = ''g'' \<and> rt_port r = 81)"
proof -
  let ?srv = "new_callback_srv [] ''srv'' [demo_new_route] True"
  let ?reg = "register_srv (mysql_srv_repo ref_libs mem_store) ?srv demo_mem"
  let ?disc = "discover (mysql_srv_repo ref_libs mem_store) ''srv''"
  have "fst ?reg = Inr ()" by code_simp
  then obtain db1 where reg: "?reg = (Inr (), db1)" by (rule fst_eqE)
  have "map_sum (\<lambda>e. ()) (\<lambda>s. ()) (fst (?disc (snd ?reg))) = Inr ()" by code_simp
  then obtain found where "fst (?disc db1) = Inr found"
    unfolding reg snd_conv by (cases "fst (?disc db1)") auto
  then obtain db2 where disc: "?disc db1 = (Inr found, db2)" by (rule fst_eqE)
  have name: "cs_name ?srv = ''srv''" "demo_new_route \<in> set (cs_routes ?srv)"
    by (simp_all add: new_callback_srv_def)
  from register_then_discover [OF mem_is_easytask demo_inv reg _ name(2)] disc name(1)
  have "\<exists>r \<in> set (cs_routes found). co_eq mem_co (rt_host r) (rt_host demo_new_route) \<and>
      rt_port r = rt_port demo_new_route" by metis
  then have "\<exists>r \<in> set (cs_routes found). rt_host r = ''g'' \<and> rt_port r = 81"
    by (simp add: mem_co_def demo_new_route_def new_srv_route_def)
  with reg disc show ?thesis by (intro exI conjI)
qed

text \<open>
  C26. The result of a health check is recorded exactly. When its two statements succeed, the live routes of the service are
  those that were live before and were not reported silent; the ones reported as answering carry the time of
  the check, and every other row is as before.
\<close>

lemma check_result_is_recorded:
  assumes "easytask_system S co clk view L H" "store_inv co (view s)"
    and "m \<in> set (tb_srv (view s))" "cs_name srv = sm_Name m"
    and "set (cs_routes srv) \<subseteq> route_to_entity ` set (live_routes (view s) (bm_Id m))"
    and "heart_beat H srv s (Inr p) s1"
    and "hb_replyRoutes p \<noteq> [] \<Longrightarrow> fst (set_srv_routes_pass_health_check S now
      (new_callback_srv (cs_id srv) (cs_name srv) (hb_replyRoutes p) True) s1) = Inr u"
    and "s2 = record_pass (mysql_srv_repo L S) now srv p s1"
    and "hb_noReplyRoutes p \<noteq> [] \<Longrightarrow> fst (del_srv_routes S
      (new_callback_srv (cs_id srv) (cs_name srv) (hb_noReplyRoutes p) True) s2) = Inr u"
  shows "\<exists>n. live_routes (view (record_drop (mysql_srv_repo L S) srv p s2)) (bm_Id m) =
    map (\<lambda>r. if route_to_entity r \<in> set (hb_replyRoutes p) then r\<lparr>rm_CheckedHealthAt := now, bm_UpdatedAt := n\<rparr> else r)
      (filter (\<lambda>r. route_to_entity r \<notin> set (hb_noReplyRoutes p)) (live_routes (view s) (bm_Id m)))"
  by (rule easytask_system.check_recorded [OF assms])

definition demo_down :: mem where
  "demo_down = mem_of
     \<lparr>tb_task = [], tb_srv = [demo_srv_row\<lparr>sm_HasEnableHealthCheck := True\<rparr>],
      tb_route = [demo_route_row\<lparr>rm_Host := ''down'', rm_EnableHealthCheck := True\<rparr>], tb_log = []\<rparr>"

definition demo_down_route :: srv_route where
  "demo_down_route = route_to_entity (demo_route_row\<lparr>rm_Host := ''down'', rm_EnableHealthCheck := True\<rparr>)"

definition demo_down_srv :: callback_srv where
  "demo_down_srv = new_callback_srv ''1'' ''srv'' [demo_down_route] True"

text \<open>A service with two routes, one of which does not answer.\<close>

definition demo_check :: mem where
  "demo_check = mem_of
     \<lparr>tb_task = [], tb_srv = [demo_srv_row\<lparr>sm_HasEnableHealthCheck := True\<rparr>],
      tb_route = [demo_route_row\<lparr>rm_Host := ''down'', rm_EnableHealthCheck := True\<rparr>,
        demo_route_row\<lparr>bm_Id := 2, rm_Host := ''up'', rm_EnableHealthCheck := True\<rparr>], tb_log = []\<rparr>"

definition demo_check_srv :: callback_srv where
  "demo_check_srv = new_callback_srv ''1'' ''srv'' [demo_down_route,
     route_to_entity (demo_route_row\<lparr>bm_Id := 2, rm_Host := ''up'', rm_EnableHealthCheck := True\<rparr>)] True"

lemma check_result_is_recorded_witness:
  "\<exists>p. heart_beat demo_http demo_check_srv demo_check (Inr p) demo_check \<and>
    map (\<lambda>r. (bm_Id r, rm_CheckedHealthAt r)) (live_routes (mm_tabs (record_drop (mysql_srv_repo ref_libs mem_store) demo_check_srv p
      (record_pass (mysql_srv_repo ref_libs mem_store) 1000 demo_check_srv p demo_check))) 1) = [(2, 1000)]"
proof -
  let ?up = "route_to_entity (demo_route_row\<lparr>bm_Id := 2, rm_Host := ''up'', rm_EnableHealthCheck := True\<rparr>)"
  let ?p = "new_heart_beat_resp [?up] [demo_down_route]"
  let ?m = "demo_srv_row\<lparr>sm_HasEnableHealthCheck := True\<rparr>"
  let ?b = "beat_run demo_http ''ping'' [0, 0, 0, 0, 0, 0, 1, 1, 1, 1, 1, 1, 1] (beat_start demo_check_srv demo_check)"
  let ?s2 = "record_pass (mysql_srv_repo ref_libs mem_store) 1000 demo_check_srv ?p demo_check"
  have "case ?b of Some b \<Rightarrow> beat_finished b \<and> beat_answer b = ?p \<and> mm_clk (hs_world b) = mm_clk demo_check \<and>
      mm_faults (hs_world b) = [] | None \<Rightarrow> False" by code_simp
  then obtain b where b: "?b = Some b" "beat_finished b" "beat_answer b = ?p" "mm_clk (hs_world b) = mm_clk demo_check"
    "mm_faults (hs_world b) = []" by (auto split: option.splits)
  have body: "heart_beat_body demo_http = Inr ''ping''" by (simp add: heart_beat_body_def demo_http_def)
  note beat = beat_run_answers [OF body b(1,2)]
  have "mm_tabs (hs_world b) = mm_tabs demo_check" by (rule heart_beat_view [OF demo_net beat])
  with b(4,5) have "hs_world b = demo_check" by (simp add: demo_check_def mem_of_def)
  note beat = beat [unfolded this b(3)]
  have hyps: "store_inv mem_co (mm_tabs demo_check)" "?m \<in> set (tb_srv (mm_tabs demo_check))"
    "cs_name demo_check_srv = sm_Name ?m"
    "set (cs_routes demo_check_srv) \<subseteq> route_to_entity ` set (live_routes (mm_tabs demo_check) (bm_Id ?m))"
    by code_simp+
  have upd: "fst (set_srv_routes_pass_health_check mem_store 1000
      (new_callback_srv (cs_id demo_check_srv) (cs_name demo_check_srv) (hb_replyRoutes ?p) True) demo_check) = Inr ()"
    by code_simp
  have del: "fst (del_srv_routes mem_store
      (new_callback_srv (cs_id demo_check_srv) (cs_name demo_check_srv) (hb_noReplyRoutes ?p) True) ?s2) = Inr ()"
    by code_simp
  let ?k = "\<lambda>r :: route_model. (bm_Id r, rm_CheckedHealthAt r)"
  have at0: "map ?k (map (\<lambda>r. if route_to_entity r \<in> set (hb_replyRoutes ?p)
      then r\<lparr>rm_CheckedHealthAt := 1000, bm_UpdatedAt := 0\<rparr> else r)
      (filter (\<lambda>r. route_to_entity r \<notin> set (hb_noReplyRoutes ?p)) (live_routes (mm_tabs demo_check) (bm_Id ?m)))) = [(2, 1000)]"
    by code_simp
  have any: "map ?k (map (\<lambda>r. if P r then r\<lparr>rm_CheckedHealthAt := 1000, bm_UpdatedAt := n\<rparr> else r) xs) =
      map ?k (map (\<lambda>r. if P r then r\<lparr>rm_CheckedHealthAt := 1000, bm_UpdatedAt := 0\<rparr> else r) xs)" for P n xs
    by (simp add: comp_def)
  obtain n where n: "live_routes (mm_tabs (record_drop (mysql_srv_repo ref_libs mem_store) demo_check_srv ?p ?s2)) (bm_Id ?m) =
      map (\<lambda>r. if route_to_entity r \<in> set (hb_replyRoutes ?p) then r\<lparr>rm_CheckedHealthAt := 1000, bm_UpdatedAt := n\<rparr> else r)
        (filter (\<lambda>r. route_to_entity r \<notin> set (hb_noReplyRoutes ?p)) (live_routes (mm_tabs demo_check) (bm_Id ?m)))"
    using check_result_is_recorded [OF mem_is_system hyps beat upd refl del] by (elim exE)
  have "map ?k (live_routes (mm_tabs (record_drop (mysql_srv_repo ref_libs mem_store) demo_check_srv ?p ?s2)) (bm_Id ?m)) =
      [(2, 1000)]"
    unfolding n by (rule trans [OF any at0])
  moreover have "bm_Id ?m = 1" by (simp add: demo_srv_row_def)
  ultimately show ?thesis using beat by (intro exI [of _ ?p] conjI) (assumption, metis)
qed

text \<open>
  The pool of the registry is created beside its loop. A \<open>Stop\<close> right after the start can return before
  any worker exists, and a worker that leaves before it is counted makes the counter of the wait
  group negative, which is a panic.
\<close>

lemma registry_stop_can_return_early:
  "\<exists>p q. pool_run (registry_pool G) (registry_init n, s) (p, s) \<and> pl_stop p = Some [] \<and> pl_workers p = [] \<and>
    pool_run (registry_pool G) (p, s) (q, s) \<and> pl_wait q = - 1"
proof -
  let ?n = "check_worker_pool_size n"
  have "0 < ?n" by (simp add: check_worker_pool_size_def DefaultCheckWorkerPoolSize_def)
  from early_stop [OF _ _ _ this, of "registry_pool G" AtSelect s] obtain p q where
    pq: "pool_run (registry_pool G) (registry_init n, s) (p, s)" "pl_stop p = Some []" "pl_make p = ?n"
      "pool_run (registry_pool G) (p, s) (q, s)" "pl_wait q = - 1"
    by (auto simp: registry_init_def)
  have "length (pl_workers p) + pl_make p = ?n"
    by (rule pool_reach_inv [OF pool_run_reach [OF pq(1)]])
      (auto simp: registry_init_def pool_init_def dest: length_inv_step)
  with pq show ?thesis by auto
qed

text \<open>
  Once \<open>Registry.Stop\<close> has returned on a pool that had been created, its loop has ended, every worker has
  left and no goroutine of the registry takes another step.
\<close>

lemma registry_stop_quiesces:
  assumes "pool_reach (registry_pool G) (registry_ready n) p" "pl_stop p = Some []"
  shows "(\<forall>w \<in> set (pl_workers p). w = Exited) \<and> pl_sched p = Ended \<and> \<not> pool_step (registry_pool G) (p, s) qt"
  by (rule stopped_at_rest [OF stop_progs(2) assms(1) [unfolded registry_ready_def] pool_starts(2) assms(2)]) simp

lemma registry_stop_quiesces_witness:
  "\<exists>p. pool_run (registry_pool (easytask_registry ref_libs mem_store demo_http)) (registry_ready 3, demo_down) (p, demo_down) \<and>
    (\<forall>qt. \<not> pool_step (registry_pool (easytask_registry ref_libs mem_store demo_http)) (p, demo_down) qt)"
proof -
  let ?G = "easytask_registry ref_libs mem_store demo_http"
  obtain p where run: "pool_run (registry_pool ?G) (registry_ready 3, demo_down) (p, demo_down)" and p: "pl_stop p = Some []"
    using registry_idle_stop [of "registry_pool ?G" AtSelect "check_worker_pool_size 3" demo_down]
    by (auto simp: registry_ready_def)
  from registry_stop_quiesces [OF pool_run_reach [OF run] p] run show ?thesis by blast
qed

end
