(* ===== verification/Task_Api.thy ===== *)
theory Task_Api
  imports Registry
begin

text \<open>
  The operations the program offers over HTTP: the messages of \<open>pkg/rpc/proto\<close>, the handlers of
  \<open>internal/apihandler/http.go\<close>, and the two services and their messages in
  \<open>internal/apihandler/service\<close>. A handler checks and translates its message, the service
  calls the registry and the task repository.

  \<open>reflectutil.CopySameFields\<close> is third-party: it is a parameter for each pair of messages
  (\<open>ap_copy_\<close>), with the law that it copies the fields of equal name and does not fail. The arguments of
  type \<open>int\<close> before the message are the answers of the clock.
\<close>

section \<open>Messages\<close>

definition proto_SchedModeNil :: int where "proto_SchedModeNil = 0"
definition proto_SchedModeTimeCron :: int where "proto_SchedModeTimeCron = 1"
definition proto_SchedModeTimeSpec :: int where "proto_SchedModeTimeSpec = 2"
definition proto_SchedModeTimeInterval :: int where "proto_SchedModeTimeInterval = 3"

lemmas proto_mode_defs =
  proto_SchedModeNil_def proto_SchedModeTimeCron_def proto_SchedModeTimeSpec_def
  proto_SchedModeTimeInterval_def

record http_add_task_req =
  ha_Name :: string
  ha_SrvName :: string
  ha_CallbackPath :: string
  ha_SchedMode :: int
  ha_TimeCron :: string
  ha_TimeIntervalSec :: int
  ha_TimeSpecAt :: int
  ha_Arg :: string
  ha_BizId :: string

record http_add_task_resp =
  had_TaskId :: string

record http_stop_task_req =
  hst_TaskId :: string

record http_confirm_task_req =
  hct_TaskId :: string
  hct_IsSuccess :: bool
  hct_Extra :: string
  hct_TaskRunTimes :: int

record http_register_req =
  hrg_Name :: string
  hrg_Schema :: string
  hrg_Host :: string
  hrg_Port :: int
  hrg_CallbackTimeoutSec :: int
  hrg_IsEnableHealthCheck :: bool

record http_unregister_req =
  hun_Name :: string
  hun_Schema :: string
  hun_Host :: string
  hun_Port :: int

record svc_add_task_req =
  va_Name :: string
  va_SrvName :: string
  va_CallbackPath :: string
  va_SchedMode :: sched_mode
  va_TimeCron :: string
  va_TimeIntervalSec :: int
  va_TimeSpecAt :: int
  va_Arg :: string
  va_BizId :: string

record svc_add_task_resp =
  vad_TaskId :: string

record svc_stop_task_req =
  vst_TaskId :: string

record svc_confirm_task_req =
  vct_TaskId :: string
  vct_IsSuccess :: bool
  vct_Extra :: string
  vct_TaskRunTimes :: int

record svc_register_req =
  vrg_Name :: string
  vrg_Schema :: string
  vrg_Host :: string
  vrg_Port :: int
  vrg_CallbackTimeoutSec :: int
  vrg_IsEnableHealthCheck :: bool

record svc_unregister_req =
  vun_Name :: string
  vun_Schema :: string
  vun_Host :: string
  vun_Port :: int

text \<open>The repositories the services hold, and the third-party functions the handlers call.\<close>

record 's api =
  ap_tasks :: "'s task_repo"
  ap_srvs :: "'s srv_repo"
  ap_vld :: validator
  ap_copy_stop :: "http_stop_task_req \<Rightarrow> go_err + svc_stop_task_req"
  ap_copy_confirm :: "http_confirm_task_req \<Rightarrow> go_err + svc_confirm_task_req"
  ap_copy_register :: "http_register_req \<Rightarrow> go_err + svc_register_req"
  ap_copy_unregister :: "http_unregister_req \<Rightarrow> go_err + svc_unregister_req"

section \<open>Services\<close>

definition svc_add_task :: "'s api \<Rightarrow> int \<Rightarrow> svc_add_task_req \<Rightarrow> ('s, svc_add_task_resp) io" where
  "svc_add_task A now req =
     bind_io (discover (ap_srvs A) (va_SrvName req)) (\<lambda>srv.
     bind_io (lift_io (new_task (ap_vld A) (zero_task_req
        \<lparr>nt_CallbackSrv := Some srv, nt_CallbackPath := va_CallbackPath req, nt_Name := va_Name req,
         nt_Arg := va_Arg req, nt_SchedMode := va_SchedMode req, nt_TimeSpecAt := va_TimeSpecAt req,
         nt_TimeCronExpr := va_TimeCron req, nt_TimeIntervalSec := va_TimeIntervalSec req,
         nt_BizId := va_BizId req\<rparr>))) (\<lambda>oneTask.
     bind_io (ir_AddTask (ap_tasks A) now oneTask) (\<lambda>taskId.
       ret_io \<lparr>vad_TaskId = taskId\<rparr>)))"

definition svc_stop_task :: "'s api \<Rightarrow> svc_stop_task_req \<Rightarrow> ('s, unit) io" where
  "svc_stop_task A req = ir_DelTaskById (ap_tasks A) (vst_TaskId req)"

definition svc_confirm_task :: "'s api \<Rightarrow> int \<Rightarrow> int \<Rightarrow> svc_confirm_task_req \<Rightarrow> ('s, unit) io" where
  "svc_confirm_task A now nowLog req =
     (let taskStatus = if vct_IsSuccess req then StatusSuccess else StatusFailed
      in ir_ConfirmTask (ap_tasks A) now nowLog
           (new_task_resp (vct_TaskId req) True taskStatus (vct_TaskRunTimes req) (vct_Extra req)))"

definition svc_register :: "'s api \<Rightarrow> svc_register_req \<Rightarrow> ('s, unit) io" where
  "svc_register A req =
     register_srv (ap_srvs A)
       (new_callback_srv [] (vrg_Name req)
          [new_srv_route [] (vrg_Schema req) (vrg_Host req) (vrg_Port req)
             (vrg_CallbackTimeoutSec req) (vrg_IsEnableHealthCheck req)]
          (vrg_IsEnableHealthCheck req))"

definition ready_del_routes :: "svc_unregister_req \<Rightarrow> callback_srv \<Rightarrow> srv_route list" where
  "ready_del_routes req srv =
     filter (\<lambda>route. rt_host route = vun_Host req \<and> rt_scheme route = vun_Schema req \<and>
               rt_port route = vun_Port req) (cs_routes srv)"

definition svc_unregister :: "'s api \<Rightarrow> svc_unregister_req \<Rightarrow> ('s, unit) io" where
  "svc_unregister A req =
     bind_io (discover (ap_srvs A) (vun_Name req)) (\<lambda>srv.
       unregister_srv (ap_srvs A)
         (new_callback_srv (cs_id srv) (cs_name srv) (ready_del_routes req srv)
            (has_enable_health_check_route srv)))"

section \<open>Handlers\<close>

text \<open>The switch over the mode: an unknown mode falls through with the zero mode.\<close>

definition api_sched_mode :: "http_add_task_req \<Rightarrow> go_err + sched_mode" where
  "api_sched_mode req =
     (if ha_SchedMode req = proto_SchedModeTimeCron then
        if trim_space (ha_TimeCron req) = []
        then Inl (newBizErrWithMsg ErrCodeArgsInvalid ''time cron is empty'')
        else Inr SchedModeTimeCron
      else if ha_SchedMode req = proto_SchedModeTimeSpec then
        if ha_TimeSpecAt req = 0
        then Inl (newBizErrWithMsg ErrCodeArgsInvalid ''not specific time'')
        else Inr SchedModeTimeSpec
      else if ha_SchedMode req = proto_SchedModeTimeInterval then
        if ha_TimeIntervalSec req = 0
        then Inl (newBizErrWithMsg ErrCodeArgsInvalid ''specific time interval is empty'')
        else Inr SchedModeTimeInterval
      else Inr SchedModeNil)"

definition svc_add_req :: "http_add_task_req \<Rightarrow> sched_mode \<Rightarrow> svc_add_task_req" where
  "svc_add_req req schedMode =
     \<lparr>va_Name = ha_Name req, va_SrvName = ha_SrvName req, va_CallbackPath = ha_CallbackPath req,
      va_SchedMode = schedMode, va_TimeCron = ha_TimeCron req,
      va_TimeIntervalSec = ha_TimeIntervalSec req, va_TimeSpecAt = ha_TimeSpecAt req,
      va_Arg = ha_Arg req, va_BizId = ha_BizId req\<rparr>"

definition api_add_task :: "'s api \<Rightarrow> int \<Rightarrow> http_add_task_req \<Rightarrow> ('s, http_add_task_resp) io" where
  "api_add_task A now req =
     bind_io (lift_io (api_sched_mode req)) (\<lambda>schedMode.
     bind_io (svc_add_task A now (svc_add_req req schedMode)) (\<lambda>addTaskResp.
       ret_io \<lparr>had_TaskId = vad_TaskId addTaskResp\<rparr>))"

definition api_stop_task :: "'s api \<Rightarrow> http_stop_task_req \<Rightarrow> ('s, unit) io" where
  "api_stop_task A req = bind_io (lift_io (ap_copy_stop A req)) (svc_stop_task A)"

definition api_confirm_task :: "'s api \<Rightarrow> int \<Rightarrow> int \<Rightarrow> http_confirm_task_req \<Rightarrow> ('s, unit) io" where
  "api_confirm_task A now nowLog req =
     bind_io (lift_io (ap_copy_confirm A req)) (svc_confirm_task A now nowLog)"

definition api_register :: "'s api \<Rightarrow> http_register_req \<Rightarrow> ('s, unit) io" where
  "api_register A req = bind_io (lift_io (ap_copy_register A req)) (svc_register A)"

definition api_unregister :: "'s api \<Rightarrow> http_unregister_req \<Rightarrow> ('s, unit) io" where
  "api_unregister A req = bind_io (lift_io (ap_copy_unregister A req)) (svc_unregister A)"

section \<open>The third-party functions\<close>

definition api_law :: "'s api \<Rightarrow> bool" where
  "api_law A \<longleftrightarrow>
     validator_law (ap_vld A) \<and>
     (\<forall>r. ap_copy_stop A r = Inr \<lparr>vst_TaskId = hst_TaskId r\<rparr>) \<and>
     (\<forall>r. ap_copy_confirm A r = Inr \<lparr>vct_TaskId = hct_TaskId r, vct_IsSuccess = hct_IsSuccess r,
        vct_Extra = hct_Extra r, vct_TaskRunTimes = hct_TaskRunTimes r\<rparr>) \<and>
     (\<forall>r. ap_copy_register A r = Inr \<lparr>vrg_Name = hrg_Name r, vrg_Schema = hrg_Schema r,
        vrg_Host = hrg_Host r, vrg_Port = hrg_Port r, vrg_CallbackTimeoutSec = hrg_CallbackTimeoutSec r,
        vrg_IsEnableHealthCheck = hrg_IsEnableHealthCheck r\<rparr>) \<and>
     (\<forall>r. ap_copy_unregister A r = Inr \<lparr>vun_Name = hun_Name r, vun_Schema = hun_Schema r,
        vun_Host = hun_Host r, vun_Port = hun_Port r\<rparr>)"

definition ref_api :: "'s task_repo \<Rightarrow> 's srv_repo \<Rightarrow> 's api" where
  "ref_api TR SR =
     \<lparr>ap_tasks = TR, ap_srvs = SR, ap_vld = ref_validator,
      ap_copy_stop = (\<lambda>r. Inr \<lparr>vst_TaskId = hst_TaskId r\<rparr>),
      ap_copy_confirm = (\<lambda>r. Inr \<lparr>vct_TaskId = hct_TaskId r, vct_IsSuccess = hct_IsSuccess r,
        vct_Extra = hct_Extra r, vct_TaskRunTimes = hct_TaskRunTimes r\<rparr>),
      ap_copy_register = (\<lambda>r. Inr \<lparr>vrg_Name = hrg_Name r, vrg_Schema = hrg_Schema r,
        vrg_Host = hrg_Host r, vrg_Port = hrg_Port r, vrg_CallbackTimeoutSec = hrg_CallbackTimeoutSec r,
        vrg_IsEnableHealthCheck = hrg_IsEnableHealthCheck r\<rparr>),
      ap_copy_unregister = (\<lambda>r. Inr \<lparr>vun_Name = hun_Name r, vun_Schema = hun_Schema r,
        vun_Host = hun_Host r, vun_Port = hun_Port r\<rparr>)\<rparr>"

lemma ref_api_law: "api_law (ref_api TR SR)"
  by (simp add: api_law_def ref_api_def ref_validator_law)

text \<open>The handlers over the MySQL repositories.\<close>

definition easytask_api :: "libs \<Rightarrow> 'db store \<Rightarrow> 'db api \<Rightarrow> bool" where
  "easytask_api L S A \<longleftrightarrow>
     ap_tasks A = easytask_repo L S \<and> ap_srvs A = mysql_srv_repo L S \<and> api_law A"

lemma ref_is_easytask_api: "easytask_api L S (ref_api (easytask_repo L S) (mysql_srv_repo L S))"
  by (simp add: easytask_api_def ref_api_law) (simp add: ref_api_def)

end
