(* ===== verification/Ledger.thy ===== *)
theory Ledger
  imports Prelude
begin

text \<open>
  The abstract specification of running tasks: a ledger that holds the current run number of every
  task and the list of the runs that were started. A start is allowed on the current run number
  of a task only and raises it; anything else that happens to the tasks may add tasks and raise
  run numbers, never lower them. That no run is started twice is a property of the ledger;
  \<open>Task_Engine\<close> and \<open>Cluster\<close> show that the program refines it.
\<close>

record ledger =
  lg_runs :: "u64 \<Rightarrow> int option"
  lg_started :: "(u64 \<times> int) list"

definition runs_le :: "('k \<Rightarrow> int option) \<Rightarrow> ('k \<Rightarrow> int option) \<Rightarrow> bool" where
  "runs_le r r' \<longleftrightarrow> (\<forall>w k. r w = Some k \<longrightarrow> (\<exists>k'. r' w = Some k' \<and> k \<le> k'))"

inductive ledger_step :: "ledger \<Rightarrow> ledger \<Rightarrow> bool" where
  start: "lg_runs l w = Some k \<Longrightarrow> r' w = Some (k + 1) \<Longrightarrow> runs_le (lg_runs l) r' \<Longrightarrow>
    ledger_step l \<lparr>lg_runs = r', lg_started = lg_started l @ [(w, k)]\<rparr>"
| other: "runs_le (lg_runs l) r' \<Longrightarrow> ledger_step l (l\<lparr>lg_runs := r'\<rparr>)"

definition ledger_ok :: "ledger \<Rightarrow> bool" where
  "ledger_ok l \<longleftrightarrow> distinct (lg_started l) \<and>
     (\<forall>(w, k) \<in> set (lg_started l). \<exists>k'. lg_runs l w = Some k' \<and> k < k')"

lemma runs_le_refl [simp]: "runs_le r r"
  by (simp add: runs_le_def)

lemma runs_le_trans: "runs_le r s \<Longrightarrow> runs_le s t \<Longrightarrow> runs_le r t"
  unfolding runs_le_def by (meson order_trans)

lemma runs_leI: "(\<And>w k. r w = Some k \<Longrightarrow> \<exists>k'. r' w = Some k' \<and> k \<le> k') \<Longrightarrow> runs_le r r'"
  by (simp add: runs_le_def)

lemma runs_le_same: "r' = r \<Longrightarrow> runs_le r r'"
  by simp

lemma ledger_ok_mono:
  assumes "ledger_ok l" "runs_le (lg_runs l) r'" "(w, k) \<in> set (lg_started l)"
  shows "\<exists>k'. r' w = Some k' \<and> k < k'"
proof -
  from assms(1,3) obtain k1 where "lg_runs l w = Some k1" "k < k1" by (auto simp: ledger_ok_def)
  with assms(2) show ?thesis by (fastforce simp: runs_le_def)
qed

lemma ledger_step_ok:
  assumes "ledger_step l l'" "ledger_ok l"
  shows "ledger_ok l'"
  using assms(1)
proof cases
  case (start w k r')
  have "(w, k) \<notin> set (lg_started l)" using assms(2) start(2) by (fastforce simp: ledger_ok_def)
  with start assms(2) ledger_ok_mono [OF assms(2) start(4)] show ?thesis
    by (auto simp: ledger_ok_def)
next
  case (other r')
  with assms(2) ledger_ok_mono [OF assms(2) other(2)] show ?thesis by (auto simp: ledger_ok_def)
qed

lemma ledger_steps_ok: "ledger_step\<^sup>*\<^sup>* l l' \<Longrightarrow> ledger_ok l \<Longrightarrow> ledger_ok l'"
  by (induction rule: rtranclp_induct) (auto intro: ledger_step_ok)

lemma ledger_steps_runs: "ledger_step\<^sup>*\<^sup>* l l' \<Longrightarrow> runs_le (lg_runs l) (lg_runs l')"
  by (induction rule: rtranclp_induct) (auto elim!: ledger_step.cases intro: runs_le_trans)

end
