(* ===== verification/Task_Engine.thy ===== *)
theory Task_Engine
  imports Worker_Pool Ledger Callback_Http
begin

text \<open>
  \<open>internal/task/worker.go\<close> and \<open>internal/task/sched.go\<close>: the scheduler that pages through the
  due tasks while the node is master, and the workers that lock, run and confirm them.

  The pieces of code between two blocking points are functions (\<open>sched_poll\<close>, \<open>worker_accept\<close>,
  \<open>worker_work\<close>); \<open>task_pool\<close> puts them into the goroutines of \<open>Worker_Pool\<close>. A call of the
  repository or of the executor is one step of the interleaving here, and is taken apart into its
  statements in \<open>Stmt_Cluster\<close>. Parameters (\<open>engine\<close>): the repository, the
  executor, the JSON text of an error. The answers of the election and of the clock are inputs
  of a step.

  \<open>wo_started\<close> is a ghost: the tasks for which a lock was granted, as they were before the call.
\<close>

section \<open>Definitions\<close>

definition DefaultWorkerPoolSize :: nat where "DefaultWorkerPoolSize = 100"

definition worker_pool_size :: "nat \<Rightarrow> nat" where
  "worker_pool_size workerPoolSize =
     (if workerPoolSize \<le> 0 then DefaultWorkerPoolSize else workerPoolSize)"

record 's engine =
  en_repo :: "'s task_repo"
  en_exec :: "nat \<Rightarrow> int \<Rightarrow> int \<Rightarrow> task \<Rightarrow> ('s, callback_resp) io"
  en_jdet :: "internal_err_detail \<Rightarrow> go_err + string"

record 's world =
  wo_db :: 's
  wo_started :: "task list"

text \<open>What one round of a worker reads from the clock and the random source.\<close>

record draws =
  dr_now :: int
  dr_lock :: int
  dr_sched :: int
  dr_log :: int
  dr_rnd :: nat
  dr_cb1 :: int
  dr_cb2 :: int
  dr_confirm :: int
  dr_confirm_log :: int

definition sched_size :: int where "sched_size = 1000"

text \<open>
  One round of \<open>Sched.schedule\<close> after the exit channel was empty: the tasks to send and the next
  cursor. Errors are logged only.
\<close>

definition sched_poll ::
    "'s task_repo \<Rightarrow> bool \<Rightarrow> int \<Rightarrow> string \<Rightarrow> 's \<Rightarrow> (task list \<times> string) \<times> 's" where
  "sched_poll TR isMaster now cursor s =
     (if \<not> isMaster then (([], cursor), s)
      else
        (case ir_TimeoutTasks TR now sched_size cursor s of
           (Inl e, s1) \<Rightarrow> (([], cursor), s1)
         | (Inr (tasks, nextCursor), s1) \<Rightarrow>
             if tasks = [] then (([], []), s1) else ((tasks, nextCursor), s1)))"

text \<open>\<open>JLock\<close>, \<open>JRun\<close>, \<open>JSubmit\<close>: about to lock the task, to run it, to submit its response.\<close>

datatype job = JLock task | JRun task int | JSubmit task_resp

text \<open>A task without routes makes the worker return from its goroutine.\<close>

definition worker_accept :: "task \<Rightarrow> job option" where
  "worker_accept t = (if cs_routes (t_callbackSrv t) = [] then None else Some (JLock t))"

fun worker_work :: "'s engine \<Rightarrow> draws \<Rightarrow> job \<Rightarrow> 's world \<Rightarrow> job option \<times> 's world" where
  "worker_work N d (JLock t) w =
     (case ir_LockTask (en_repo N) (dr_lock d) (dr_sched d) (dr_log d) t (wo_db w) of
        (Inl e, t', s) \<Rightarrow> (None, w\<lparr>wo_db := s\<rparr>)
      | (Inr locked, t', s) \<Rightarrow>
          if \<not> locked then (None, w\<lparr>wo_db := s\<rparr>)
          else (Some (JRun t' (dr_now d)), w\<lparr>wo_db := s, wo_started := wo_started w @ [t]\<rparr>))"
| "worker_work N d (JRun t now) w =
     (case task_run (en_exec N (dr_rnd d) (dr_cb1 d) (dr_cb2 d)) t (wo_db w) of
        (Inr taskResp, s) \<Rightarrow> (Some (JSubmit taskResp), w\<lparr>wo_db := s\<rparr>)
      | (Inl e, s) \<Rightarrow>
          (case new_internal_err_task_resp (en_jdet N) (t_id t) e now of
             Inl e' \<Rightarrow> (None, w\<lparr>wo_db := s\<rparr>)
           | Inr taskResp \<Rightarrow> (Some (JSubmit taskResp), w\<lparr>wo_db := s\<rparr>)))"
| "worker_work N d (JSubmit taskResp) w =
     (None, w\<lparr>wo_db := snd (ir_ConfirmTask (en_repo N) (dr_confirm d) (dr_confirm_log d) taskResp (wo_db w))\<rparr>)"

text \<open>The goroutines of \<open>WorkerEngine.Run\<close> and the caller of \<open>WorkerEngine.Stop\<close>.\<close>

definition task_pool :: "'s engine \<Rightarrow> ('s world, string, task, job) pool_env" where
  "task_pool N =
     \<lparr>pe_select = (\<lambda>cursor. True),
      pe_poll = (\<lambda>w cursor tasks cursor' w'. \<exists>isMaster now s.
        sched_poll (en_repo N) isMaster now cursor (wo_db w) = ((tasks, cursor'), s) \<and>
        w' = w\<lparr>wo_db := s\<rparr>),
      pe_accept = worker_accept,
      pe_work = (\<lambda>w j j' w'. \<exists>d. worker_work N d j w = (j', w')),
      pe_stop = engine_stop, pe_first = True\<rparr>"

definition engine_init :: "nat \<Rightarrow> (string, task, job) pool" where
  "engine_init workerPoolSize = pool_init (worker_pool_size workerPoolSize) []"

text \<open>The engine once \<open>createWorkerPool\<close> has returned.\<close>

definition engine_ready :: "nat \<Rightarrow> (string, task, job) pool" where
  "engine_ready workerPoolSize = pool_ready (worker_pool_size workerPoolSize) []"

section \<open>Lemmas\<close>

lemma task_pool_simps [simp]:
  "pe_select (task_pool N) c" "pe_accept (task_pool N) = worker_accept" "pe_stop (task_pool N) = engine_stop" "pe_first (task_pool N)"
  "pe_poll (task_pool N) w c xs c' w' \<longleftrightarrow> (\<exists>isMaster now s.
     sched_poll (en_repo N) isMaster now c (wo_db w) = ((xs, c'), s) \<and> w' = w\<lparr>wo_db := s\<rparr>)"
  "pe_work (task_pool N) w j j' w' \<longleftrightarrow> (\<exists>d. worker_work N d j w = (j', w'))"
  by (simp_all add: task_pool_def)

lemma worker_pool_size_pos: "0 < worker_pool_size n"
  by (simp add: worker_pool_size_def DefaultWorkerPoolSize_def)

lemma task_stop_prog: "stop_prog (task_pool N)"
  by (rule stop_progs(1)) simp

text \<open>A job takes at most three steps.\<close>

definition job_rank :: "job \<Rightarrow> nat" where
  "job_rank j = (case j of JLock t \<Rightarrow> 2 | JRun t n \<Rightarrow> 1 | JSubmit r \<Rightarrow> 0)"

lemma work_descends: "worker_work N d j w = (Some j', w') \<Longrightarrow> job_rank j' < job_rank j"
  by (cases j) (auto simp: job_rank_def split: sum.splits prod.splits if_splits)

lemma tasks_end: "jobs_end (task_pool N)"
proof -
  have "\<exists>w'. job_ends (task_pool N) w j w'" for w j
  proof (induction "job_rank j" arbitrary: j w rule: less_induct)
    case less
    obtain j' w1 where step: "worker_work N undefined j w = (j', w1)" by (rule prod.exhaust)
    then have work: "pe_work (task_pool N) w j j' w1" by auto
    show ?case
    proof (cases j')
      case None
      from job_ends.last [OF work [unfolded None]] show ?thesis ..
    next
      case (Some j2)
      with work_descends step have "job_rank j2 < job_rank j" by blast
      from less [OF this, of w1] obtain w2 where "job_ends (task_pool N) w1 j2 w2" ..
      from job_ends.more [OF work [unfolded Some] this] show ?thesis ..
    qed
  qed
  then show ?thesis by (simp add: jobs_end_def)
qed

section \<open>What a worker relies on, and what it gives\<close>

text \<open>The run a start consumes: the task's identifier and the run number before the lock.\<close>

definition start_key :: "task \<Rightarrow> u64 \<times> int" where
  "start_key t = (case checkedTaskModelId (t_id t) of Inr w \<Rightarrow> w | Inl e \<Rightarrow> 0, t_runTimes t)"

definition ledger_of :: "('s \<Rightarrow> u64 \<Rightarrow> int option) \<Rightarrow> 's world \<Rightarrow> ledger" where
  "ledger_of runs w = \<lparr>lg_runs = runs (wo_db w), lg_started = map start_key (wo_started w)\<rparr>"

text \<open>The executor writes logs only: it keeps the invariant and lowers no run number.\<close>

locale task_runner = task_repo_contract "en_repo N" run_no inv
  for N :: "'s engine" and run_no :: "'s \<Rightarrow> u64 \<Rightarrow> int option" and inv :: "'s \<Rightarrow> bool" +
  assumes exec_inv: "inv s \<Longrightarrow> en_exec N rnd n1 n2 t s = (r, s') \<Longrightarrow> inv s'"
    and exec_mono: "inv s \<Longrightarrow> en_exec N rnd n1 n2 t s = (r, s') \<Longrightarrow>
      run_no s w = Some k \<Longrightarrow> \<exists>k'. run_no s' w = Some k' \<and> k \<le> k'"
begin

text \<open>A change of the database that lowers no run number is a step of the ledger.\<close>

definition db_le :: "'s \<Rightarrow> 's \<Rightarrow> bool" where
  "db_le s s' \<longleftrightarrow> inv s' \<and> runs_le (run_no s) (run_no s')"

definition refines :: "'s world \<Rightarrow> 's world \<Rightarrow> bool" where
  "refines w w' \<longleftrightarrow> inv (wo_db w') \<and> ledger_step (ledger_of run_no w) (ledger_of run_no w')"

lemma refines_db:
  assumes "db_le (wo_db w) s"
  shows "refines w (w\<lparr>wo_db := s\<rparr>)"
proof -
  have "ledger_step (ledger_of run_no w) ((ledger_of run_no w)\<lparr>lg_runs := run_no s\<rparr>)"
    by (rule ledger_step.other) (use assms in \<open>simp add: ledger_of_def db_le_def\<close>)
  with assms show ?thesis by (simp add: refines_def db_le_def ledger_of_def)
qed

lemma refines_refl: "inv (wo_db w) \<Longrightarrow> refines w w"
  using refines_db [of w "wo_db w"] by (simp add: db_le_def)

lemma db_le_I:
  assumes "inv s'" "\<And>w k. run_no s w = Some k \<Longrightarrow> \<exists>k'. run_no s' w = Some k' \<and> k \<le> k'"
  shows "db_le s s'"
  using assms by (simp add: db_le_def runs_le_def)

lemma lock_le: "inv s \<Longrightarrow> ir_LockTask (en_repo N) n1 n2 n3 t s = (b, t', s') \<Longrightarrow> db_le s s'"
  by (intro db_le_I) (fact lock_inv lock_mono)+

lemma exec_le: "inv s \<Longrightarrow> en_exec N rnd n1 n2 t s = (r, s') \<Longrightarrow> db_le s s'"
  by (intro db_le_I) (fact exec_inv exec_mono)+

lemma confirm_le: "inv s \<Longrightarrow> ir_ConfirmTask (en_repo N) n1 n2 p s = (c, s') \<Longrightarrow> db_le s s'"
  by (intro db_le_I) (fact confirm_inv confirm_mono)+

lemma timeout_le: "inv s \<Longrightarrow> ir_TimeoutTasks (en_repo N) n1 sz cur s = (ts, s') \<Longrightarrow> db_le s s'"
  by (intro db_le_I) (fact timeout_inv timeout_mono)+

lemma add_le: "inv s \<Longrightarrow> ir_AddTask (en_repo N) n1 t s = (a, s') \<Longrightarrow> db_le s s'"
  by (intro db_le_I) (fact add_inv add_mono)+

lemma del_le: "inv s \<Longrightarrow> ir_DelTaskById (en_repo N) i s = (d, s') \<Longrightarrow> db_le s s'"
  by (intro db_le_I) (fact stop_inv stop_mono)+

lemma run_le: "inv s \<Longrightarrow> task_run (en_exec N rnd n1 n2) t s = (r, s') \<Longrightarrow> db_le s s'"
  by (auto simp: task_run_def bind_io_def split: prod.splits sum.splits intro: exec_le)

text \<open>A granted lock is a start of the ledger.\<close>

lemma lock_starts:
  assumes inv: "inv (wo_db w)" and run: "ir_LockTask (en_repo N) n1 n2 n3 t (wo_db w) = (Inr True, t', s')"
  shows "refines w (w\<lparr>wo_db := s', wo_started := wo_started w @ [t]\<rparr>)"
proof -
  from lock_true [OF inv run] obtain i where i: "checkedTaskModelId (t_id t) = Inr i"
    "run_no (wo_db w) i = Some (t_runTimes t)" "run_no s' i = Some (t_runTimes t + 1)" by blast
  note le = lock_le [OF inv run]
  have "ledger_step (ledger_of run_no w)
      \<lparr>lg_runs = run_no s', lg_started = lg_started (ledger_of run_no w) @ [(i, t_runTimes t)]\<rparr>"
    by (rule ledger_step.start) (use i le in \<open>simp_all add: ledger_of_def db_le_def\<close>)
  with i(1) le show ?thesis by (simp add: refines_def ledger_of_def start_key_def db_le_def)
qed

lemma work_refines:
  assumes inv: "inv (wo_db w)" and run: "worker_work N d j w = (j', w')"
  shows "refines w w'"
proof (cases j)
  case (JLock t)
  obtain b t' s where lock: "ir_LockTask (en_repo N) (dr_lock d) (dr_sched d) (dr_log d) t (wo_db w) = (b, t', s)"
    by (rule prod_cases3)
  show ?thesis
  proof (cases "b = Inr True")
    case True
    with lock lock_starts [OF inv] run JLock show ?thesis by auto
  next
    case False
    with lock run JLock have "w' = w\<lparr>wo_db := s\<rparr>" by (auto split: sum.splits if_splits)
    with refines_db [OF lock_le [OF inv lock]] show ?thesis by simp
  qed
next
  case (JRun t now)
  obtain r s where exec: "task_run (en_exec N (dr_rnd d) (dr_cb1 d) (dr_cb2 d)) t (wo_db w) = (r, s)"
    by (rule prod.exhaust)
  with run JRun have "w' = w\<lparr>wo_db := s\<rparr>" by (auto split: sum.splits)
  with refines_db [OF run_le [OF inv exec]] show ?thesis by simp
next
  case (JSubmit r)
  obtain c s where "ir_ConfirmTask (en_repo N) (dr_confirm d) (dr_confirm_log d) r (wo_db w) = (c, s)"
    by (rule prod.exhaust)
  with run JSubmit refines_db [OF confirm_le [OF inv this]] show ?thesis by auto
qed

lemma poll_refines:
  assumes inv: "inv (wo_db w)" and run: "sched_poll (en_repo N) m now c (wo_db w) = (r, s)"
  shows "refines w (w\<lparr>wo_db := s\<rparr>)"
proof (rule refines_db)
  have "db_le (wo_db w) (wo_db w)" using inv by (simp add: db_le_def)
  with run timeout_le [OF inv] show "db_le (wo_db w) s"
    by (auto simp: sched_poll_def split: if_splits prod.splits sum.splits)
qed

text \<open>Whatever a goroutine of an engine does is a step of the ledger.\<close>

lemma engine_step_refines:
  assumes "pool_step (task_pool N) (p, w) (q, w')" "inv (wo_db w)"
  shows "refines w w'"
  using assms(1)
proof (cases rule: pool_step.cases)
  case (poll c xs c')
  with poll_refines [OF assms(2)] show ?thesis by auto
next
  case (work k j j')
  with work_refines [OF assms(2)] show ?thesis by auto
qed (use refines_refl [OF assms(2)] in simp_all)

end

section \<open>The engine that \<open>main\<close> builds\<close>

definition easytask_engine ::
    "libs \<Rightarrow> 'db store \<Rightarrow> 'db http_env \<Rightarrow> (internal_err_detail \<Rightarrow> go_err + string) \<Rightarrow> 'db engine" where
  "easytask_engine L S H jdet =
     \<lparr>en_repo = easytask_repo L S, en_exec = callback_srv H, en_jdet = jdet\<rparr>"

lemma easytask_engine_simps [simp]:
  "en_repo (easytask_engine L S H jdet) = easytask_repo L S"
  "en_exec (easytask_engine L S H jdet) = callback_srv H"
  "en_jdet (easytask_engine L S H jdet) = jdet"
  by (simp_all add: easytask_engine_def)

locale easytask_node = easytask_system +
  fixes jdet :: "internal_err_detail \<Rightarrow> go_err + string"

context easytask_system
begin

lemma callback_srv_inv:
  assumes "inv_db s" "callback_srv H rnd n1 n2 t s = (r, s')"
  shows "inv_db s'"
proof -
  have save: "inv_db (save_callback_log H n1 n2 q s1)" if "inv_db s1" for q s1
  proof -
    have "inv_db (snd (save_task_callback_log S n1 n2 d s1))" for d
      using pres_log_ops(2) that by (simp add: pres_io_def)
    with that show ?thesis
      by (simp add: save_callback_log_def must_new_task_log_def Let_def task_logger_log_def sys_logs
          split: sum.splits)
  qed
  show ?thesis
  proof (cases "he_req_json H (callback_req t)")
    case (Inl e)
    with assms show ?thesis by (simp add: callback_srv_def)
  next
    case json: (Inr body)
    show ?thesis
    proof (cases "get_random_route rnd (t_callbackSrv t)")
      case None
      with assms json show ?thesis by (simp add: callback_srv_def)
    next
      case (Some route)
      obtain raw e resp s1 where
        req: "do_req H (he_resp_json H) (callback_input t route body) zero_callback_resp s = ((raw, e), resp, s1)"
        by (metis prod_cases4 surj_pair)
      have "inv_db s1" using assms(1) do_req_frame [OF sys_net req] by simp
      from save [OF this] assms(2) json Some req show ?thesis by (auto simp: callback_srv_def)
    qed
  qed
qed

lemma callback_srv_run_no:
  assumes "callback_srv H rnd n1 n2 t s = (r, s')"
  shows "run_no (view s') w = run_no (view s) w"
  using http.frame_tables(1) [OF http.callback_srv_frame [OF assms]] by (simp add: run_no_def)

end

sublocale easytask_node \<subseteq> runner: task_runner "easytask_engine L S H jdet" "\<lambda>db. run_no (view db)" inv_db
proof (intro task_runner.intro task_runner_axioms.intro, unfold easytask_engine_simps)
  show "task_repo_contract (easytask_repo L S) (\<lambda>db. run_no (view db)) inv_db"
    by (rule tasks.task_repo_contract_axioms)
next
  fix s s' :: 'a and n1 n2 :: int and rnd t r w k
  assume inv: "inv_db s" and run: "callback_srv H rnd n1 n2 t s = (r, s')"
  show "inv_db s'" by (rule callback_srv_inv [OF inv run])
  show "run_no (view s) w = Some k \<Longrightarrow> \<exists>k'. run_no (view s') w = Some k' \<and> k \<le> k'"
    using callback_srv_run_no [OF run] by simp
qed

definition demo_jdet :: "internal_err_detail \<Rightarrow> go_err + string" where
  "demo_jdet d = Inr ''error''"

definition demo_engine :: "mem engine" where
  "demo_engine = easytask_engine ref_libs mem_store demo_http demo_jdet"

interpretation mem_node: easytask_node mem_store mem_co mem_now mm_tabs ref_libs demo_http demo_jdet
  by unfold_locales

section \<open>Properties\<close>

definition world_of :: "'s \<Rightarrow> 's world" where
  "world_of s = \<lparr>wo_db = s, wo_started = []\<rparr>"

lemma engine_created: "pool_run (task_pool N) (engine_init n, w) (engine_ready n, w)"
  unfolding engine_init_def engine_ready_def by (rule create_all)

lemma engine_start: "pool_start (task_pool N) (worker_pool_size n) [] (engine_init n)"
  unfolding engine_init_def by (rule pool_starts(1)) simp

lemma first_poll:
  assumes "sched_poll (en_repo N) True now [] s = ((tasks, c), s')"
  shows "pool_run (task_pool N) (engine_init n, world_of s)
    ((engine_ready n)\<lparr>pl_sched := Sending tasks c\<rparr>, world_of s')"
proof (rule pool_run_step [OF engine_created], rule pool_step.poll)
  show "pl_sched (engine_ready n) = Looping []" by (simp add: engine_ready_def pool_ready_def)
  show "\<not> (pe_select (task_pool N) [] \<and> exit_offered (engine_ready n))"
    by (simp add: engine_ready_def pool_ready_def exit_offered_def)
  show "pe_poll (task_pool N) (world_of s) [] tasks c (world_of s')"
    using assms by (auto simp: world_of_def)
  show "pe_first (task_pool N) \<longrightarrow> created (engine_ready n)"
    by (simp add: engine_ready_def pool_ready_def created_def)
qed

lemma demo_poll:
  obtains s' where "sched_poll (en_repo demo_engine) True 1000 [] demo_mem = (([demo_task], ''7''), s')"
proof -
  have "fst (sched_poll (en_repo demo_engine) True 1000 [] demo_mem) = ([demo_task], ''7'')" by code_simp
  then show thesis using that by (rule fst_eqE)
qed

lemma demo_task_routes: "cs_routes (t_callbackSrv demo_task) \<noteq> []"
  by code_simp

text \<open>
  The wait group of the engine counts the workers that have not called \<open>Done\<close>, in every
  interleaving; a worker that was just started is counted by the next step of \<open>createWorkerPool\<close>.
\<close>

lemma engine_counts_workers:
  assumes "pool_reach (task_pool N) (engine_init n) p"
  shows "pl_wait p + of_bool (pl_adding p) = int (length (filter (\<lambda>x. x \<noteq> Exited) (pl_workers p)))"
  using pool_reach_wait [OF assms [unfolded engine_init_def] wait_inv_init(1)]
  by (simp add: wait_inv_def live_workers_def)

lemma engine_counts_workers_witness:
  "pl_wait ((engine_ready 2)\<lparr>pl_sched := Sending [demo_task] ''7''\<rparr> :: (string, task, job) pool) = 2"
proof (rule demo_poll)
  fix s'
  assume "sched_poll (en_repo demo_engine) True 1000 [] demo_mem = (([demo_task], ''7''), s')"
  from engine_counts_workers [OF pool_run_reach [OF first_poll [OF this, of 2]]] show ?thesis
    by (simp add: engine_ready_def pool_ready_def worker_pool_size_def)
qed

text \<open>
  Once \<open>WorkerEngine.Stop\<close> has returned the engine is at rest: every worker has left, the
  scheduler has ended, and no goroutine of the engine takes another step, so no task is sent,
  locked, run or confirmed any more. Other nodes and requests may have changed the database in any way
  between the steps of the engine.
\<close>

lemma engine_stop_quiesces:
  assumes "pool_reach (task_pool N) (engine_init n) p" "pl_stop p = Some []"
  shows "(\<forall>x \<in> set (pl_workers p). x = Exited) \<and> pl_sched p = Ended \<and> \<not> pool_step (task_pool N) (p, w) qu"
  by (rule stopped_at_rest [OF task_stop_prog assms(1) engine_start assms(2)])

text \<open>
  \<open>WorkerEngine.Stop\<close> can always complete: from every reachable state in which no worker has
  returned without \<open>Done\<close> and every task being sent has a route, some run of the goroutines lets \<open>Stop\<close>
  return, whatever the repository and the executor answer.
\<close>

lemma engine_stop_completes:
  assumes "pool_reach (task_pool N) (engine_init n) p" "Left \<notin> set (pl_workers p)"
    and "\<And>ts c t. pl_sched p = Sending ts c \<Longrightarrow> t \<in> set ts \<Longrightarrow> cs_routes (t_callbackSrv t) \<noteq> []"
  shows "\<exists>q u. pool_run (task_pool N) (p, w) (q, u) \<and> pl_stop q = Some []"
proof (rule engine_can_stop [OF tasks_end _ _ _ worker_pool_size_pos])
  show "no_leak (task_pool N) p" using assms(2,3) by (auto simp: no_leak_def worker_accept_def)
  show "pool_at (task_pool N) (worker_pool_size n) [] p" by (rule pool_atI [OF engine_start assms(1)])
qed simp_all

lemma engine_stop_completes_witness:
  "\<exists>s' q u. pool_run (task_pool demo_engine)
      ((engine_ready 2)\<lparr>pl_sched := Sending [demo_task] ''7''\<rparr>, world_of s') (q, u) \<and> pl_stop q = Some []"
proof (rule demo_poll)
  fix s'
  assume poll: "sched_poll (en_repo demo_engine) True 1000 [] demo_mem = (([demo_task], ''7''), s')"
  have "\<exists>q u. pool_run (task_pool demo_engine)
      ((engine_ready 2)\<lparr>pl_sched := Sending [demo_task] ''7''\<rparr>, world_of s') (q, u) \<and> pl_stop q = Some []"
    by (rule engine_stop_completes [OF pool_run_reach [OF first_poll [OF poll]]])
      (use demo_task_routes in \<open>auto simp: engine_ready_def pool_ready_def\<close>)
  then show ?thesis ..
qed

lemma demo_stopped:
  obtains p w where "pool_run (task_pool demo_engine) (engine_init 2, world_of demo_mem) (p, w)" "pl_stop p = Some []"
proof -
  have "no_leak (task_pool demo_engine) (engine_init 2)"
    by (simp add: no_leak_def engine_init_def pool_init_def)
  from engine_can_stop [OF tasks_end this _ _ worker_pool_size_pos, of 2 "[]" "world_of demo_mem"]
  have "\<exists>p w. pool_run (task_pool demo_engine) (engine_init 2, world_of demo_mem) (p, w) \<and> pl_stop p = Some []"
    using pool_atI [OF engine_start pool_reach.here] by (auto simp: ex_simps)
  with that show thesis by blast
qed

lemma engine_stop_quiesces_witness:
  "\<exists>p w. pool_run (task_pool demo_engine) (engine_init 2, world_of demo_mem) (p, w) \<and>
    (\<forall>qu. \<not> pool_step (task_pool demo_engine) (p, w) qu)"
proof (rule demo_stopped)
  fix p w
  assume run: "pool_run (task_pool demo_engine) (engine_init 2, world_of demo_mem) (p, w)"
    and p: "pl_stop p = Some []"
  from engine_stop_quiesces [OF pool_run_reach [OF run] p] run show ?thesis by blast
qed

text \<open>
  A task without routes ends the worker that receives it without \<open>Done\<close>: from then on \<open>Stop\<close>
  never returns, whatever the goroutines do.
\<close>

lemma routeless_task_blocks_stop:
  assumes "pool_reach (task_pool N) (engine_init n) p" "pl_sched p = Sending (t # ts) c"
    and "k < length (pl_workers p)" "pl_workers p ! k = Ready" "cs_routes (t_callbackSrv t) = []"
  shows "\<exists>q. pool_step (task_pool N) (p, w) (q, w) \<and> pl_workers q ! k = Left \<and>
    (\<forall>r. pool_reach (task_pool N) q r \<longrightarrow> pl_stop r \<noteq> Some [])"
proof -
  let ?q = "p\<lparr>pl_sched := Sending ts c, pl_workers := (pl_workers p)[k := Left]\<rparr>"
  have step: "pool_step (task_pool N) (p, w) (?q, w)"
    using pool_step.hand [OF assms(2-4), of "task_pool N" w] assms(5)
    by (simp add: begin_item_def worker_accept_def)
  have "Left \<in> set (pl_workers ?q)" using assms(3) by (simp add: set_update_memI)
  then have "pl_stop r \<noteq> Some []" if "pool_reach (task_pool N) ?q r" for r
    using left_blocks_stop [OF task_stop_prog pool_reach.move [OF assms(1) step] engine_start] that by blast
  with step assms(3) show ?thesis by (intro exI [of _ ?q]) simp
qed

definition demo_routeless :: mem where
  "demo_routeless = mem_of
     \<lparr>tb_task = [demo_task_row 7 ''job''], tb_srv = [demo_srv_row], tb_route = [], tb_log = []\<rparr>"

definition demo_routeless_task :: task where
  "demo_routeless_task = demo_task\<lparr>t_callbackSrv := new_callback_srv ''1'' ''srv'' [] False\<rparr>"

lemma routeless_task_blocks_stop_witness:
  "\<exists>q u. pool_run (task_pool demo_engine) (engine_init 1, world_of demo_routeless) (q, u) \<and>
    (\<forall>r. pool_reach (task_pool demo_engine) q r \<longrightarrow> pl_stop r \<noteq> Some [])"
proof -
  have "fst (sched_poll (en_repo demo_engine) True 1000 [] demo_routeless) = ([demo_routeless_task], ''7'')"
    by code_simp
  then obtain s' where
    "sched_poll (en_repo demo_engine) True 1000 [] demo_routeless = (([demo_routeless_task], ''7''), s')"
    by (rule fst_eqE)
  note run = first_poll [OF this, of 1]
  have task: "cs_routes (t_callbackSrv demo_routeless_task) = []"
    by (simp add: demo_routeless_task_def new_callback_srv_def)
  from routeless_task_blocks_stop [OF pool_run_reach [OF run] _ _ _ task, of "[]" "''7''" 0] obtain q where
    step: "pool_step (task_pool demo_engine)
      ((engine_ready 1)\<lparr>pl_sched := Sending [demo_routeless_task] ''7''\<rparr>, world_of s') (q, world_of s')"
    and stuck: "\<forall>r. pool_reach (task_pool demo_engine) q r \<longrightarrow> pl_stop r \<noteq> Some []"
    by (auto simp: engine_ready_def pool_ready_def worker_pool_size_def)
  from pool_run_step [OF run step] stuck show ?thesis by blast
qed

text \<open>
  C5. A worker goes from a task to its confirmation in three steps, between which anything else may happen. It accepts
  only a task with a route, runs it only when its lock was granted, runs the copy the lock returned, and
  then calls \<open>ConfirmTask\<close> once: with the executor's answer under the run number of that copy, or, when the executor
  failed, with a failure that carries run number 0 instead.
\<close>

lemma worker_confirms_run:
  assumes "worker_accept t = Some j" "worker_work N d1 j u1 = (Some j1, w1)" "worker_work N d2 j1 u2 = (Some j2, w2)"
    and "worker_work N d3 j2 u3 = (j3, w3)"
  shows "cs_routes (t_callbackSrv t) \<noteq> [] \<and> (\<exists>t' r. j1 = JRun t' (dr_now d1) \<and> j2 = JSubmit r \<and> j3 = None \<and>
    ir_LockTask (en_repo N) (dr_lock d1) (dr_sched d1) (dr_log d1) t (wo_db u1) = (Inr True, t', wo_db w1) \<and>
    wo_started w1 = wo_started u1 @ [t] \<and>
    (case en_exec N (dr_rnd d2) (dr_cb1 d2) (dr_cb2 d2) t' (wo_db u2) of
       (Inr c, s) \<Rightarrow> wo_db w2 = s \<and> r = new_task_resp (t_id t') (cr_isRunInAsync c)
         (resp_status (cr_isSuccess c) (cr_isRunInAsync c)) (t_runTimes t') (cr_extra c)
     | (Inl e, s) \<Rightarrow> wo_db w2 = s \<and> new_internal_err_task_resp (en_jdet N) (t_id t') e (dr_now d1) = Inr r \<and>
         tr_taskStatus r = StatusFailed \<and> tr_taskRunTimes r = 0) \<and>
    wo_started w2 = wo_started u2 \<and> wo_started w3 = wo_started u3 \<and>
    wo_db w3 = snd (ir_ConfirmTask (en_repo N) (dr_confirm d3) (dr_confirm_log d3) r (wo_db u3)))"
proof -
  from assms(1) have t: "cs_routes (t_callbackSrv t) \<noteq> []" "j = JLock t" by (auto simp: worker_accept_def split: if_splits)
  with assms(2) obtain t' where lock: "j1 = JRun t' (dr_now d1)" "wo_started w1 = wo_started u1 @ [t]"
    "ir_LockTask (en_repo N) (dr_lock d1) (dr_sched d1) (dr_log d1) t (wo_db u1) = (Inr True, t', wo_db w1)"
    by (auto split: prod.splits sum.splits if_splits)
  obtain c s where exec: "en_exec N (dr_rnd d2) (dr_cb1 d2) (dr_cb2 d2) t' (wo_db u2) = (c, s)" by (rule prod.exhaust)
  note run = assms(3) [unfolded lock(1), simplified, unfolded task_run_def bind_io_def exec, simplified]
  have "\<exists>r. j2 = JSubmit r \<and> wo_db w2 = s \<and> wo_started w2 = wo_started u2 \<and>
      (case c of Inr c \<Rightarrow> r = new_task_resp (t_id t') (cr_isRunInAsync c)
         (resp_status (cr_isSuccess c) (cr_isRunInAsync c)) (t_runTimes t') (cr_extra c)
       | Inl e \<Rightarrow> new_internal_err_task_resp (en_jdet N) (t_id t') e (dr_now d1) = Inr r \<and>
           tr_taskStatus r = StatusFailed \<and> tr_taskRunTimes r = 0)"
  proof (cases c)
    case (Inl e)
    with run show ?thesis by (auto simp: new_internal_err_task_resp_def split: sum.splits)
  next
    case (Inr c)
    with run show ?thesis by auto
  qed
  then obtain r where r: "j2 = JSubmit r" "wo_db w2 = s" "wo_started w2 = wo_started u2"
    "case c of Inr c \<Rightarrow> r = new_task_resp (t_id t') (cr_isRunInAsync c)
         (resp_status (cr_isSuccess c) (cr_isRunInAsync c)) (t_runTimes t') (cr_extra c)
       | Inl e \<Rightarrow> new_internal_err_task_resp (en_jdet N) (t_id t') e (dr_now d1) = Inr r \<and>
           tr_taskStatus r = StatusFailed \<and> tr_taskRunTimes r = 0" by blast
  from assms(4) r(1) have "j3 = None" "wo_started w3 = wo_started u3"
    "wo_db w3 = snd (ir_ConfirmTask (en_repo N) (dr_confirm d3) (dr_confirm_log d3) r (wo_db u3))" by auto
  with t(1) lock r exec show ?thesis by (intro conjI exI [of _ t'] exI [of _ r]) (auto split: sum.splits)
qed

definition demo_draws :: draws where
  "demo_draws = \<lparr>dr_now = 1000, dr_lock = 1000, dr_sched = 1000, dr_log = 1000, dr_rnd = 0, dr_cb1 = 1001,
     dr_cb2 = 1001, dr_confirm = 1002, dr_confirm_log = 1002\<rparr>"

lemma worker_confirms_run_witness:
  "\<exists>w1 r w2 w3. worker_work demo_engine demo_draws (JLock demo_task) (world_of demo_mem) =
      (Some (JRun (incr_run_times demo_task) 1000), w1) \<and>
    worker_work demo_engine demo_draws (JRun (incr_run_times demo_task) 1000) w1 = (Some (JSubmit r), w2) \<and>
    worker_work demo_engine demo_draws (JSubmit r) w2 = (None, w3) \<and>
    tr_taskRunTimes r = 1 \<and> wo_started w1 = [demo_task] \<and>
    wo_db w3 = snd (ir_ConfirmTask (en_repo demo_engine) 1002 1002 r (wo_db w2))"
proof -
  let ?lock = "worker_work demo_engine demo_draws (JLock demo_task) (world_of demo_mem)"
  let ?r = "new_task_resp ''7'' False StatusSuccess 1 ''ok''"
  have "fst ?lock = Some (JRun (incr_run_times demo_task) 1000)" by code_simp
  then obtain w1 where lock: "?lock = (Some (JRun (incr_run_times demo_task) 1000), w1)" by (rule fst_eqE)
  have "fst (worker_work demo_engine demo_draws (JRun (incr_run_times demo_task) 1000) (snd ?lock)) =
      Some (JSubmit ?r)" by code_simp
  then obtain w2 where
    run: "worker_work demo_engine demo_draws (JRun (incr_run_times demo_task) 1000) w1 = (Some (JSubmit ?r), w2)"
    unfolding lock snd_conv by (rule fst_eqE)
  obtain j3 w3 where sub: "worker_work demo_engine demo_draws (JSubmit ?r) w2 = (j3, w3)" by (rule prod.exhaust)
  have acc: "worker_accept demo_task = Some (JLock demo_task)" using demo_task_routes by (simp add: worker_accept_def)
  from worker_confirms_run [OF acc lock run sub] have out: "j3 = None" "wo_started w1 = [demo_task]"
    "wo_db w3 = snd (ir_ConfirmTask (en_repo demo_engine) 1002 1002 ?r (wo_db w2))"
    by (auto simp: demo_draws_def world_of_def)
  with lock run sub show ?thesis
    by (intro exI [of _ w1] exI [of _ ?r] exI [of _ w2] exI [of _ w3] conjI) (simp_all add: new_task_resp_def)
qed

end
