(* ===== verification/Cluster.thy ===== *)
theory Cluster
  imports Task_Api Task_Engine
begin

text \<open>
  The composition of the components as \<open>src/main.go\<close> wires them: any number of nodes, each with a
  worker engine and a registry, work on one database while clients send API requests. A step of
  the cluster is a step of one goroutine of one node, or one request. \<open>Stmt_Cluster\<close> has the same cluster with a step
  for every statement.

  Nothing is assumed about who is master: the schedulers of several nodes may poll at the same
  time, workers may hold tasks read long ago, and nodes may start in any state. The lock statement
  of the repository alone keeps a run from being started twice, and that is what is proved,
  by showing that every step of the cluster is a step of the ledger.
\<close>

section \<open>Requests\<close>

text \<open>The routes of \<open>api_route.go\<close>. The numbers are the answers of the clock.\<close>

datatype request =
    ReqAddTask int http_add_task_req
  | ReqStopTask http_stop_task_req
  | ReqConfirmTask int int http_confirm_task_req
  | ReqRegister http_register_req
  | ReqUnregister http_unregister_req

fun serve :: "'s api \<Rightarrow> request \<Rightarrow> 's \<Rightarrow> 's" where
  "serve A (ReqAddTask now req) s = snd (api_add_task A now req s)"
| "serve A (ReqStopTask req) s = snd (api_stop_task A req s)"
| "serve A (ReqConfirmTask now nowLog req) s = snd (api_confirm_task A now nowLog req s)"
| "serve A (ReqRegister req) s = snd (api_register A req s)"
| "serve A (ReqUnregister req) s = snd (api_unregister A req s)"

section \<open>The cluster\<close>

record 's cluster =
  cl_engines :: "(string, task, job) pool list"
  cl_registries :: "(check_pc, callback_srv, check_job) pool list"
  cl_world :: "'s world"

inductive cluster_step ::
    "'s engine \<Rightarrow> 's registry \<Rightarrow> 's api \<Rightarrow> 's cluster \<Rightarrow> 's cluster \<Rightarrow> bool" for N G A where
  engine: "k < length (cl_engines c) \<Longrightarrow>
    pool_step (task_pool N) (cl_engines c ! k, cl_world c) (q, w') \<Longrightarrow>
    cluster_step N G A c (c\<lparr>cl_engines := (cl_engines c)[k := q], cl_world := w'\<rparr>)"
| registry: "k < length (cl_registries c) \<Longrightarrow>
    pool_step (registry_pool G) (cl_registries c ! k, wo_db (cl_world c)) (q, s') \<Longrightarrow>
    cluster_step N G A c
      (c\<lparr>cl_registries := (cl_registries c)[k := q], cl_world := (cl_world c)\<lparr>wo_db := s'\<rparr>\<rparr>)"
| request: "cluster_step N G A c
    (c\<lparr>cl_world := (cl_world c)\<lparr>wo_db := serve A r (wo_db (cl_world c))\<rparr>\<rparr>)"

definition cluster_init :: "nat \<Rightarrow> nat \<Rightarrow> nat \<Rightarrow> 's \<Rightarrow> 's cluster" where
  "cluster_init nodes workers checkers s =
     \<lparr>cl_engines = replicate nodes (engine_init workers),
      cl_registries = replicate nodes (registry_init checkers), cl_world = world_of s\<rparr>"

section \<open>Every step is a step of the ledger\<close>

context easytask_node
begin

abbreviation node_le :: "'a \<Rightarrow> 'a \<Rightarrow> bool" where
  "node_le \<equiv> runner.db_le"

lemma node_le_trans: "node_le s t \<Longrightarrow> node_le t u \<Longrightarrow> node_le s u"
  by (auto simp: runner.db_le_def intro: runs_le_trans)

lemma node_le_tasks:
  "inv_db s' \<Longrightarrow> tb_task (view s') = tb_task (view s) \<Longrightarrow> node_le s s'"
  by (auto simp: runner.db_le_def run_no_def fun_eq_iff intro!: runs_le_same)

lemma node_le_view: "inv_db s \<Longrightarrow> view s' = view s \<Longrightarrow> node_le s s'"
  by (rule node_le_tasks) simp_all

text \<open>What keeps \<open>node_le s\<close> can be composed by the rules for computations.\<close>

lemma pres_le: "(\<And>t r t'. inv_db t \<Longrightarrow> m t = (r, t') \<Longrightarrow> node_le t t') \<Longrightarrow> pres_io (node_le s) m"
  by (rule pres_ioI) (metis runner.db_le_def node_le_trans)

lemma pres_repo_le [pres]:
  "pres_io (node_le s) (ir_AddTask (easytask_repo L S) now t)"
  "pres_io (node_le s) (ir_DelTaskById (easytask_repo L S) i)"
  "pres_io (node_le s) (ir_ConfirmTask (easytask_repo L S) now nowLog p)"
  by (rule pres_le, rule runner.add_le runner.del_le runner.confirm_le; simp)+

lemma pres_srv_le:
  assumes "pres_io inv_db m" "\<And>A B. pres_io (task_log_are A B) m"
  shows "pres_io (node_le s) m"
proof (rule pres_le)
  fix t r t'
  assume t: "inv_db t" and run: "m t = (r, t')"
  show "node_le t t'"
    by (rule node_le_tasks)
      (use pres_ioD [OF assms(1) run t] pres_ioD [OF assms(2) run, of "tb_task (view t)" "tb_log (view t)"] in simp_all)
qed

lemma pres_registry_le [pres]:
  "pres_io (node_le s) (register_srv (mysql_srv_repo L S) srv)"
  "pres_io (node_le s) (unregister_srv (mysql_srv_repo L S) srv)"
  unfolding register_srv_def unregister_srv_def mysql_srv_repo_simps
  by (rule pres_srv_le pres_srv_ops srv_ops_frame)+

lemma pres_discover_le [pres]: "pres_io (node_le s) (discover (mysql_srv_repo L S) name)"
  by (rule pres_le) (auto intro: node_le_view discover_frame)

lemma serve_le:
  assumes "easytask_api L S A" "inv_db s"
  shows "node_le s (serve A r s)"
proof -
  have A: "ap_tasks A = easytask_repo L S" "ap_srvs A = mysql_srv_repo L S"
    using assms(1) by (simp_all add: easytask_api_def)
  have here: "node_le s s" by (rule node_le_view [OF assms(2) refl])
  have run: "node_le s (snd (m s))" if "pres_io (node_le s) m" for m :: "('a, 'x) io"
    using that here by (simp add: pres_io_def)
  show ?thesis
  proof (cases r)
    case (ReqAddTask now req)
    have "pres_io (node_le s) (api_add_task A now req)"
      unfolding api_add_task_def svc_add_task_def A by (intro pres)
    from run [OF this] ReqAddTask show ?thesis by simp
  next
    case (ReqStopTask req)
    have "pres_io (node_le s) (api_stop_task A req)"
      unfolding api_stop_task_def svc_stop_task_def A by (intro pres)
    from run [OF this] ReqStopTask show ?thesis by simp
  next
    case (ReqConfirmTask now nowLog req)
    have "pres_io (node_le s) (api_confirm_task A now nowLog req)"
      unfolding api_confirm_task_def svc_confirm_task_def A Let_def by (intro pres)
    from run [OF this] ReqConfirmTask show ?thesis by simp
  next
    case (ReqRegister req)
    have "pres_io (node_le s) (api_register A req)"
      unfolding api_register_def svc_register_def A by (intro pres)
    from run [OF this] ReqRegister show ?thesis by simp
  next
    case (ReqUnregister req)
    have "pres_io (node_le s) (api_unregister A req)"
      unfolding api_unregister_def svc_unregister_def A by (intro pres)
    from run [OF this] ReqUnregister show ?thesis by simp
  qed
qed

lemma registry_step_le:
  assumes "pool_step (registry_pool (easytask_registry L S H)) (p, s) (q, s')" "inv_db s"
  shows "node_le s s'"
  using assms(1)
proof (cases rule: pool_step.cases)
  case (poll c xs c')
  then show ?thesis
    by (auto intro!: node_le_view [OF assms(2)] elim!: check_poll_view)
next
  case (work k j j')
  then have "check_work (easytask_registry L S H) s j j' s'" by simp
  from check_work_frame [OF this assms(2)] show ?thesis by (intro node_le_tasks) simp_all
qed (use node_le_view [OF assms(2) refl] in simp_all)

abbreviation abs_ledger :: "'a cluster \<Rightarrow> ledger" where
  "abs_ledger c \<equiv> ledger_of (\<lambda>db. run_no (view db)) (cl_world c)"

lemma cluster_refines:
  assumes A: "easytask_api L S A" and inv: "inv_db (wo_db (cl_world c))"
    and step: "cluster_step (easytask_engine L S H jdet) (easytask_registry L S H) A c c'"
  shows "inv_db (wo_db (cl_world c')) \<and> ledger_step (abs_ledger c) (abs_ledger c')"
proof -
  have "runner.refines (cl_world c) (cl_world c')"
    using step
  proof cases
    case (engine k q w')
    with runner.engine_step_refines [OF engine(3) inv] show ?thesis by simp
  next
    case (registry k q s')
    with runner.refines_db [OF registry_step_le [OF registry(3) inv]] show ?thesis by simp
  next
    case (request r)
    with runner.refines_db [OF serve_le [OF A inv]] show ?thesis by simp
  qed
  then show ?thesis by (simp add: runner.refines_def)
qed

lemma cluster_run_refines:
  assumes "(cluster_step (easytask_engine L S H jdet) (easytask_registry L S H) A)\<^sup>*\<^sup>* c c'"
    and "easytask_api L S A" "inv_db (wo_db (cl_world c))"
  shows "inv_db (wo_db (cl_world c')) \<and> ledger_step\<^sup>*\<^sup>* (abs_ledger c) (abs_ledger c')"
  using assms(1)
proof (induction rule: rtranclp_induct)
  case base
  with assms(3) show ?case by simp
next
  case (step d e)
  with cluster_refines [OF assms(2) _ step(2)] show ?case
    by (auto intro: rtranclp.rtrancl_into_rtrancl)
qed

end

section \<open>Two workers race for a task\<close>

text \<open>Two nodes whose workers hold the same copy of a task: the first lock is granted, the second refused.\<close>

lemma mem_is_node: "easytask_node mem_store mem_co mem_now mm_tabs ref_libs demo_http"
  by (rule easytask_node.intro [OF mem_is_system])

abbreviation demo_holder :: "(string, task, job) pool" where
  "demo_holder \<equiv> (pool_ready 1 [])\<lparr>pl_workers := [Busy (JLock demo_task)]\<rparr>"

definition demo_race :: "mem cluster" where
  "demo_race = \<lparr>cl_engines = [demo_holder, demo_holder], cl_registries = [], cl_world = world_of demo_mem\<rparr>"

definition demo_locked :: "mem world" where
  "demo_locked = snd (worker_work demo_engine demo_draws (JLock demo_task) (world_of demo_mem))"

definition demo_refused :: "mem world" where
  "demo_refused = snd (worker_work demo_engine demo_draws (JLock demo_task) demo_locked)"

definition demo_after :: "mem cluster" where
  "demo_after =
     \<lparr>cl_engines = [demo_holder\<lparr>pl_workers := [Busy (JRun (incr_run_times demo_task) 1000)]\<rparr>,
                     demo_holder\<lparr>pl_workers := [Ready]\<rparr>],
      cl_registries = [], cl_world = demo_refused\<rparr>"

lemma demo_race_run: "(cluster_step demo_engine G A)\<^sup>*\<^sup>* demo_race demo_after"
proof -
  let ?j = "JRun (incr_run_times demo_task) 1000"
  let ?mid = "\<lparr>cl_engines = [demo_holder\<lparr>pl_workers := [Busy ?j]\<rparr>, demo_holder],
      cl_registries = [], cl_world = demo_locked\<rparr>"
  have "fst (worker_work demo_engine demo_draws (JLock demo_task) (world_of demo_mem)) = Some ?j" by code_simp
  then have "worker_work demo_engine demo_draws (JLock demo_task) (world_of demo_mem) = (Some ?j, demo_locked)"
    by (simp add: demo_locked_def prod_eq_iff)
  then have w1: "pe_work (task_pool demo_engine) (world_of demo_mem) (JLock demo_task) (Some ?j) demo_locked"
    unfolding task_pool_simps by (rule exI)
  have p1: "pool_step (task_pool demo_engine) (demo_holder, world_of demo_mem)
      (demo_holder\<lparr>pl_workers := [Busy ?j]\<rparr>, demo_locked)"
    using pool_step.work [OF _ _ w1, of 0 demo_holder] by (simp add: next_worker_def)
  have s1: "cluster_step demo_engine G A demo_race ?mid"
    using cluster_step.engine [of 0 demo_race demo_engine _ demo_locked G A] p1 by (simp add: demo_race_def)
  have "fst (worker_work demo_engine demo_draws (JLock demo_task) demo_locked) = None"
    unfolding demo_locked_def by code_simp
  then have "worker_work demo_engine demo_draws (JLock demo_task) demo_locked = (None, demo_refused)"
    by (simp add: demo_refused_def prod_eq_iff)
  then have w2: "pe_work (task_pool demo_engine) demo_locked (JLock demo_task) None demo_refused"
    unfolding task_pool_simps by (rule exI)
  have p2: "pool_step (task_pool demo_engine) (demo_holder, demo_locked)
      (demo_holder\<lparr>pl_workers := [Ready]\<rparr>, demo_refused)"
    using pool_step.work [OF _ _ w2, of 0 demo_holder] by (simp add: next_worker_def)
  have s2: "cluster_step demo_engine G A ?mid demo_after"
    using cluster_step.engine [of 1 ?mid demo_engine _ demo_refused G A] p2 by (simp add: demo_after_def)
  from s1 s2 show ?thesis by (rule rtranclp.rtrancl_into_rtrancl [OF r_into_rtranclp])
qed

lemma demo_race_start: "cl_world demo_race = world_of demo_mem"
  by (simp add: demo_race_def)

section \<open>Properties\<close>

text \<open>
  The program refines the ledger: every step of the cluster, of any goroutine of any node or
  of a client's request, is a step of the abstract specification, in which a run starts only on the
  current run number of its task and consumes it, and no other event lowers a run number.
\<close>

lemma cluster_refines_ledger:
  assumes "easytask_node S co clk view L H" "easytask_api L S A" "store_inv co (view (wo_db (cl_world c)))"
    and "cluster_step (easytask_engine L S H jdet) (easytask_registry L S H) A c c'"
  shows "store_inv co (view (wo_db (cl_world c'))) \<and>
    ledger_step (ledger_of (\<lambda>db. run_no (view db)) (cl_world c)) (ledger_of (\<lambda>db. run_no (view db)) (cl_world c'))"
  by (rule easytask_node.cluster_refines [OF assms])

lemma cluster_refines_ledger_witness:
  "ledger_step (ledger_of (\<lambda>db. run_no (mm_tabs db)) (world_of demo_mem))
     (ledger_of (\<lambda>db. run_no (mm_tabs db))
        ((world_of demo_mem)\<lparr>wo_db := serve (ref_api (easytask_repo ref_libs mem_store) (mysql_srv_repo ref_libs mem_store))
           (ReqStopTask \<lparr>hst_TaskId = ''7''\<rparr>) demo_mem\<rparr>))"
proof -
  let ?A = "ref_api (easytask_repo ref_libs mem_store) (mysql_srv_repo ref_libs mem_store)"
  have inv: "store_inv mem_co (mm_tabs (wo_db (cl_world demo_race)))"
    by (simp add: demo_race_start world_of_def demo_inv)
  have "cluster_step (easytask_engine ref_libs mem_store demo_http demo_jdet)
      (easytask_registry ref_libs mem_store demo_http) ?A demo_race
      (demo_race\<lparr>cl_world := (cl_world demo_race)\<lparr>wo_db := serve ?A (ReqStopTask \<lparr>hst_TaskId = ''7''\<rparr>)
         (wo_db (cl_world demo_race))\<rparr>\<rparr>)"
    by (rule cluster_step.request)
  from cluster_refines_ledger [OF mem_is_node ref_is_easytask_api inv this] show ?thesis
    by (simp add: demo_race_start world_of_def)
qed

text \<open>
  No run is started twice: on any number of nodes, whoever is master, however the goroutines and the
  requests interleave and however old the copies are that the workers hold, at most one lock is ever
  granted for a run number of a task. Every run that was started has been consumed in the database.
\<close>

lemma cluster_starts_runs_once:
  assumes "easytask_node S co clk view L H" "easytask_api L S A" "store_inv co (view (wo_db (cl_world c0)))"
    and "wo_started (cl_world c0) = []"
    and "(cluster_step (easytask_engine L S H jdet) (easytask_registry L S H) A)\<^sup>*\<^sup>* c0 c"
  shows "distinct (map start_key (wo_started (cl_world c))) \<and>
    (\<forall>t \<in> set (wo_started (cl_world c)). \<exists>k. run_no (view (wo_db (cl_world c))) (fst (start_key t)) = Some k \<and>
       t_runTimes t < k)"
proof -
  let ?abs = "\<lambda>c. ledger_of (\<lambda>db. run_no (view db)) (cl_world c)"
  have "ledger_step\<^sup>*\<^sup>* (?abs c0) (?abs c)"
    using easytask_node.cluster_run_refines [OF assms(1,5,2,3)] by blast
  moreover have "ledger_ok (?abs c0)" using assms(4) by (simp add: ledger_of_def ledger_ok_def)
  ultimately have "ledger_ok (?abs c)" by (rule ledger_steps_ok)
  then show ?thesis by (auto simp: ledger_ok_def ledger_of_def start_key_def split_beta)
qed

lemma cluster_starts_runs_once_witness:
  "map start_key (wo_started (cl_world demo_after)) = [(7, 0)] \<and>
    distinct (map start_key (wo_started (cl_world demo_after)))"
proof -
  let ?A = "ref_api (easytask_repo ref_libs mem_store) (mysql_srv_repo ref_libs mem_store)"
  have run: "(cluster_step (easytask_engine ref_libs mem_store demo_http demo_jdet)
      (easytask_registry ref_libs mem_store demo_http) ?A)\<^sup>*\<^sup>* demo_race demo_after"
    using demo_race_run by (simp add: demo_engine_def)
  have start: "store_inv mem_co (mm_tabs (wo_db (cl_world demo_race)))" "wo_started (cl_world demo_race) = []"
    by (simp_all add: demo_race_start world_of_def demo_inv)
  have "map start_key (wo_started demo_refused) = [(7, 0)]"
    unfolding demo_refused_def demo_locked_def by code_simp
  with cluster_starts_runs_once [OF mem_is_node ref_is_easytask_api start run] show ?thesis
    by (simp add: demo_after_def)
qed

end
