(* ===== verification/Http_Router.thy ===== *)
theory Http_Router
  imports Biz_Errs Strconv
begin

text \<open>
  \<open>internal/apiserver/http_router.go\<close>: the registration of handlers by reflection, the start of the
  server, the answer to one request, and stopping.

  A Go type is a \<open>go_type\<close>, as far as \<open>Register\<close> inspects it. A value of a request or response struct
  is a value of the type parameters \<open>'v\<close> and \<open>'d\<close>. Third-party code is a parameter (\<open>http_lib\<close>): the
  argument decoders of \<open>ahmek/kit/args\<close>, the validator on the decoded value, and \<open>json.Marshal\<close> of the
  final response. Trace identifiers are an argument; pprof, logging and response headers are left
  out. A panic inside a handler ends the process (\<open>runtime.RecoverToTraceAndExit\<close>), so it is the error
  \<open>Panic\<close> here.

  Registration and start take a mutex; their callers are a step relation. The requests and the caller
  of \<open>Stop\<close> are another one.
\<close>

section \<open>Handlers and their registration\<close>

datatype go_type =
    TContext
  | TError
  | TBasic string
  | TStruct string
  | TPtr go_type
  | TSlice go_type
  | TArray nat go_type
  | TMap go_type go_type
  | TChan go_type
  | TFunc "go_type list" "go_type list"

text \<open>\<open>Elem\<close> of \<open>reflect\<close>: it panics on every other kind.\<close>

fun go_elem :: "go_type \<Rightarrow> go_type option" where
  "go_elem (TPtr t) = Some t"
| "go_elem (TSlice t) = Some t"
| "go_elem (TArray n t) = Some t"
| "go_elem (TMap k t) = Some t"
| "go_elem (TChan t) = Some t"
| "go_elem t = None"

definition is_ptr :: "go_type \<Rightarrow> bool" where
  "is_ptr t = (case t of TPtr t' \<Rightarrow> True | _ \<Rightarrow> False)"

definition is_struct :: "go_type \<Rightarrow> bool" where
  "is_struct t = (case t of TStruct n \<Rightarrow> True | _ \<Rightarrow> False)"

record ('s, 'v, 'd) go_handler =
  gh_type :: go_type
  gh_call :: "'v \<Rightarrow> ('s, 'd) io"

record ('s, 'v, 'd) http_route =
  hr_Path :: string
  hr_Method :: string
  hr_Handler :: "('s, 'v, 'd) go_handler option"

record ('s, 'v, 'd) handler_reflect =
  hf_handler :: "('s, 'v, 'd) go_handler"
  hf_req :: go_type

definition errInvalidHandler :: go_err where
  "errInvalidHandler = PlainErr ''handler must be implements func(context.Context, *req)) (*resp, error)''"

text \<open>
  The checks on the handler's type, in the order of the source; the answer is the struct that a
  request is decoded into. A request that is no pointer is accepted, whatever it is, and \<open>Elem\<close> of a
  response type without elements panics.
\<close>

definition check_handler_type :: "go_type \<Rightarrow> go_err + go_type" where
  "check_handler_type t =
     (case t of
        TFunc ins outs \<Rightarrow>
          if length ins \<noteq> 2 \<or> length outs \<noteq> 2 then Inl errInvalidHandler
          else if ins ! 0 \<noteq> TContext then Inl errInvalidHandler
          else
            (case (if is_ptr (ins ! 1) then go_elem (ins ! 1) else Some (ins ! 1)) of
               None \<Rightarrow> Inl (Panic ''Elem'')
             | Some reqType \<Rightarrow>
                 if is_ptr (ins ! 1) \<and> \<not> is_struct reqType then Inl errInvalidHandler
                 else if \<not> is_ptr (outs ! 0) then
                   (case go_elem (outs ! 0) of
                      None \<Rightarrow> Inl (Panic ''Elem of invalid type'')
                    | Some respType \<Rightarrow>
                        if \<not> is_struct respType then Inl errInvalidHandler
                        else if outs ! 1 \<noteq> TError then Inl errInvalidHandler else Inr reqType)
                 else if outs ! 1 \<noteq> TError then Inl errInvalidHandler else Inr reqType)
      | _ \<Rightarrow> Inl (Panic ''NumIn of non-func type''))"

type_synonym route_validator = "(string \<times> bool) list \<Rightarrow> string option"

definition http_route_check :: "route_validator \<Rightarrow> ('s, 'v, 'd) http_route \<Rightarrow> string option" where
  "http_route_check vld r =
     vld [(''Path'', hr_Path r = []), (''Method'', hr_Method r = []), (''Handler'', hr_Handler r = None)]"

definition check_route ::
    "route_validator \<Rightarrow> ('s, 'v, 'd) http_route \<Rightarrow> go_err + ('s, 'v, 'd) handler_reflect" where
  "check_route vld r =
     (case http_route_check vld r of
        Some e \<Rightarrow> Inl (ValidatorErr e)
      | None \<Rightarrow>
          (case hr_Handler r of
             None \<Rightarrow> Inl (Panic ''nil handler'')
           | Some h \<Rightarrow>
               (case check_handler_type (gh_type h) of
                  Inl e \<Rightarrow> Inl e
                | Inr reqType \<Rightarrow> Inr \<lparr>hf_handler = h, hf_req = reqType\<rparr>)))"

type_synonym ('s, 'v, 'd) route_map = "string \<rightharpoonup> string \<rightharpoonup> ('s, 'v, 'd) handler_reflect"

definition add_route ::
    "string \<Rightarrow> string \<Rightarrow> ('s, 'v, 'd) handler_reflect \<Rightarrow> ('s, 'v, 'd) route_map \<Rightarrow> ('s, 'v, 'd) route_map" where
  "add_route path method h m =
     (let methodToHandlerMap = (case m path of Some mm \<Rightarrow> mm | None \<Rightarrow> Map.empty)
      in m(path \<mapsto> methodToHandlerMap(method \<mapsto> h)))"

section \<open>Callers of Register and Boot\<close>

record ('s, 'v, 'd) router =
  ro_routeMap :: "('s, 'v, 'd) route_map"
  ro_locked :: bool
  ro_isBooted :: bool

definition new_router :: "('s, 'v, 'd) router" where
  "new_router = \<lparr>ro_routeMap = Map.empty, ro_locked = False, ro_isBooted = False\<rparr>"

text \<open>Where a caller is; the numbers of the source's two checks of \<open>isBooted\<close> around the lock.\<close>

datatype ('s, 'v, 'd) caller =
    BootCheck
  | BootLock
  | BootRecheck
  | BootServe
  | BootEnd go_err
  | RegCheck "('s, 'v, 'd) http_route"
  | RegLock string string "('s, 'v, 'd) handler_reflect"
  | RegRecheck string string "('s, 'v, 'd) handler_reflect"
  | RegEnd "go_err option"

text \<open>
  One step of a caller; \<open>None\<close> when it is blocked or has returned. \<open>down\<close> is the error with which
  \<open>ListenAndServe\<close> ends.
\<close>

fun caller_step ::
    "route_validator \<Rightarrow> go_err \<Rightarrow> ('s, 'v, 'd) caller \<Rightarrow> ('s, 'v, 'd) router \<Rightarrow>
       (('s, 'v, 'd) caller \<times> ('s, 'v, 'd) router) option" where
  "caller_step vld down BootCheck r =
     Some (if ro_isBooted r then BootEnd errServerStarted else BootLock, r)"
| "caller_step vld down BootLock r =
     (if ro_locked r then None else Some (BootRecheck, r\<lparr>ro_locked := True\<rparr>))"
| "caller_step vld down BootRecheck r =
     Some (if ro_isBooted r then (BootEnd errServerStarted, r)
           else (BootServe, r\<lparr>ro_isBooted := True, ro_locked := False\<rparr>))"
| "caller_step vld down BootServe r = Some (BootEnd down, r\<lparr>ro_isBooted := False\<rparr>)"
| "caller_step vld down (RegCheck route) r =
     Some (if ro_isBooted r then (RegEnd (Some errServerStarted), r)
           else
             (case check_route vld route of
                Inl e \<Rightarrow> (RegEnd (Some e), r)
              | Inr h \<Rightarrow> (RegLock (hr_Path route) (hr_Method route) h, r)))"
| "caller_step vld down (RegLock p m h) r =
     (if ro_locked r then None else Some (RegRecheck p m h, r\<lparr>ro_locked := True\<rparr>))"
| "caller_step vld down (RegRecheck p m h) r =
     Some (if ro_isBooted r then (RegEnd (Some errServerStarted), r\<lparr>ro_locked := False\<rparr>)
           else (RegEnd None, r\<lparr>ro_routeMap := add_route p m h (ro_routeMap r), ro_locked := False\<rparr>))"
| "caller_step vld down (BootEnd e) r = None"
| "caller_step vld down (RegEnd e) r = None"

inductive router_step ::
    "route_validator \<Rightarrow> ('s, 'v, 'd) caller list \<times> ('s, 'v, 'd) router \<Rightarrow>
       ('s, 'v, 'd) caller list \<times> ('s, 'v, 'd) router \<Rightarrow> bool" for vld where
  move: "k < length cs \<Longrightarrow> caller_step vld down (cs ! k) r = Some (c', r') \<Longrightarrow>
    router_step vld (cs, r) (cs[k := c'], r')"

text \<open>\<open>RegisterBatch\<close> by the only caller: the routes one after the other up to the first error.\<close>

definition register_route ::
    "route_validator \<Rightarrow> ('s, 'v, 'd) http_route \<Rightarrow> ('s, 'v, 'd) router \<Rightarrow> go_err option \<times> ('s, 'v, 'd) router" where
  "register_route vld route r =
     (if ro_isBooted r then (Some errServerStarted, r)
      else
        (case check_route vld route of
           Inl e \<Rightarrow> (Some e, r)
         | Inr h \<Rightarrow> (None, r\<lparr>ro_routeMap := add_route (hr_Path route) (hr_Method route) h (ro_routeMap r)\<rparr>)))"

fun register_batch ::
    "route_validator \<Rightarrow> ('s, 'v, 'd) http_route list \<Rightarrow> ('s, 'v, 'd) router \<Rightarrow> go_err option \<times> ('s, 'v, 'd) router" where
  "register_batch vld [] r = (None, r)"
| "register_batch vld (route # routes) r =
     (case register_route vld route r of
        (Some e, r1) \<Rightarrow> (Some e, r1)
      | (None, r1) \<Rightarrow> register_batch vld routes r1)"

section \<open>Answering a request\<close>

record 'd final_resp =
  fr_Code :: int
  fr_Msg :: string
  fr_Data :: "'d option"
  fr_Hint :: string

record http_request =
  rq_Method :: string
  rq_Path :: string
  rq_Body :: string

record ('v, 'd) http_lib =
  hl_post_arg :: "go_type \<Rightarrow> http_request \<Rightarrow> go_err + 'v"
  hl_get_arg :: "go_type \<Rightarrow> http_request \<Rightarrow> go_err + 'v"
  hl_zero :: "go_type \<Rightarrow> 'v"
  hl_validate :: "'v \<Rightarrow> string option"
  hl_json :: "'d final_resp \<Rightarrow> go_err + string"

text \<open>
  \<open>HandleErr\<close> of \<open>err.go\<close>: an error code with its cause. \<open>text\<close> is the message of the cause, \<open>sprint\<close> its format.
\<close>

definition new_handle_err :: "int \<Rightarrow> go_err \<Rightarrow> go_err" where
  "new_handle_err errCode err = HandleErr errCode err"

fun handle_err_code :: "go_err \<Rightarrow> int" where
  "handle_err_code (HandleErr errCode err) = errCode"
| "handle_err_code e = 0"

fun handle_err_msg :: "(go_err \<Rightarrow> string) \<Rightarrow> go_err \<Rightarrow> string" where
  "handle_err_msg text (HandleErr errCode err) = text err"
| "handle_err_msg text e = []"

fun handle_err_text :: "(go_err \<Rightarrow> string) \<Rightarrow> go_err \<Rightarrow> string" where
  "handle_err_text text (HandleErr errCode err) = sprintf_int errCode @ '': '' @ text err"
| "handle_err_text text e = []"

text \<open>\<open>respErr\<close>: nothing is written when the response has no JSON text.\<close>

definition resp_err :: "('v, 'd) http_lib \<Rightarrow> int \<Rightarrow> string \<Rightarrow> string \<Rightarrow> string option" where
  "resp_err HL errCode errMsg traceId =
     (let msg = (if errMsg = [] then getErrMsg errCode else errMsg)
      in case hl_json HL \<lparr>fr_Code = errCode, fr_Msg = msg, fr_Data = None, fr_Hint = traceId\<rparr> of
           Inl e \<Rightarrow> None
         | Inr content \<Rightarrow> Some content)"

text \<open>
  The decoded request: \<open>PostArg\<close> for POST, \<open>GetArg\<close> for GET, the zero value for every other
  method. The validator's message is the text of its error.
\<close>

definition decode_req :: "('v, 'd) http_lib \<Rightarrow> go_type \<Rightarrow> http_request \<Rightarrow> go_err + 'v" where
  "decode_req HL reqType req =
     (if rq_Method req = ''POST'' then hl_post_arg HL reqType req
      else if rq_Method req = ''GET'' then hl_get_arg HL reqType req
      else Inr (hl_zero HL reqType))"

text \<open>
  \<open>reflect.New\<close> makes a pointer to the request struct; \<open>Call\<close> panics when the handler does not take
  such a pointer.
\<close>

definition call_handler :: "('s, 'v, 'd) handler_reflect \<Rightarrow> 'v \<Rightarrow> ('s, 'd) io" where
  "call_handler h v =
     (case gh_type (hf_handler h) of
        TFunc [c, t] outs \<Rightarrow>
          if t = TPtr (hf_req h) then gh_call (hf_handler h) v
          else throw_io (Panic ''reflect: Call using wrong type'')
      | _ \<Rightarrow> throw_io (Panic ''reflect: Call with too many input arguments''))"

text \<open>
  The function registered at a path: the body it writes, \<open>None\<close> when it writes nothing. An error
  \<open>Inl\<close> is a panic, which ends the process.
\<close>

definition handle_request ::
    "('v, 'd) http_lib \<Rightarrow> (string \<rightharpoonup> ('s, 'v, 'd) handler_reflect) \<Rightarrow> bool \<Rightarrow> string \<Rightarrow> http_request \<Rightarrow>
       ('s, string option) io" where
  "handle_request HL methodToHandlerMap isPaused traceId req s =
     (if isPaused then (Inr (resp_err HL ErrCodeServerStopped [] traceId), s)
      else
        (case methodToHandlerMap (rq_Method req) of
           None \<Rightarrow> (Inr (resp_err HL ErrCodeRouteMethodNotAllow [] traceId), s)
         | Some h \<Rightarrow>
             (case decode_req HL (hf_req h) req of
                Inl e \<Rightarrow> (Inr (resp_err HL ErrCodeArgsInvalid [] traceId), s)
              | Inr v \<Rightarrow>
                  (case hl_validate HL v of
                     Some msg \<Rightarrow> (Inr (resp_err HL ErrCodeArgsInvalid msg traceId), s)
                   | None \<Rightarrow>
                       (case call_handler h v s of
                          (Inl (Panic p), s1) \<Rightarrow> (Inl (Panic p), s1)
                        | (Inl (BizError code msg), s1) \<Rightarrow> (Inr (resp_err HL code msg traceId), s1)
                        | (Inl e, s1) \<Rightarrow> (Inr (resp_err HL ErrCodeInternal [] traceId), s1)
                        | (Inr d, s1) \<Rightarrow>
                            (case hl_json HL \<lparr>fr_Code = 0, fr_Msg = [], fr_Data = Some d, fr_Hint = traceId\<rparr> of
                               Inl (HandleErr code cause) \<Rightarrow> (Inr (resp_err HL code [] traceId), s1)
                             | Inl e \<Rightarrow> (Inr (resp_err HL ErrCodeInternal [] traceId), s1)
                             | Inr content \<Rightarrow> (Inr (Some content), s1)))))))"

section \<open>Writing the response\<close>

text \<open>
  The loop of \<open>writeResp\<close>. \<open>out\<close> is what the writer got; \<open>wr\<close> is its \<open>Write\<close>: the number of bytes it
  took and the error. The content is cut by the number of bytes written so far, not by the number of this
  round. \<open>n\<close> bounds the rounds: \<open>None\<close> when they are used up.
\<close>

fun write_loop ::
    "(string \<Rightarrow> nat \<times> go_err option) \<Rightarrow> nat \<Rightarrow> nat \<Rightarrow> string \<Rightarrow> nat \<Rightarrow> string \<Rightarrow> (go_err option \<times> string) option" where
  "write_loop wr 0 contentLen content written out = None"
| "write_loop wr (Suc n) contentLen content written out =
     (case wr content of
        (k, Some e) \<Rightarrow> Some (Some e, out @ take k content)
      | (k, None) \<Rightarrow>
          (let written' = written + k; out' = out @ take k content
           in if written' \<ge> contentLen then Some (None, out')
              else if written' > length content then Some (Some (Panic ''slice bounds out of range''), out')
              else write_loop wr n contentLen (drop written' content) written' out'))"

definition write_resp :: "(string \<Rightarrow> nat \<times> go_err option) \<Rightarrow> nat \<Rightarrow> string \<Rightarrow> (go_err option \<times> string) option" where
  "write_resp wr n content = write_loop wr n (length content) content 0 []"

section \<open>Requests and the caller of Stop\<close>

text \<open>
  The life of a request: \<open>RqNew\<close> is in the goroutine that \<open>net/http\<close> started, \<open>RqCounted\<close> has done
  \<open>servingWait.Add\<close>, \<open>RqChecked\<close> has read \<open>isPaused\<close>, \<open>RqDone\<close> has been answered and done
  \<open>servingWait.Done\<close>. Answering is one step. A request whose handler panics has no step: the process
  ends. \<open>Stop\<close> sets the flag and waits for the counter. Any interleaving is a run. The routes have
  an argument: what a handler reads from its surroundings while it runs, such as the clock.
\<close>

datatype rq_pc =
    RqNew http_request
  | RqCounted http_request
  | RqChecked bool http_request
  | RqDone "string option"

datatype stop_pc = StopIdle | StopWaiting | StopReturned

record 's gate =
  gt_isPaused :: bool
  gt_servingWait :: int
  gt_stop :: stop_pc
  gt_rqs :: "rq_pc list"
  gt_state :: 's

definition gate_init :: "'s \<Rightarrow> 's gate" where
  "gate_init s =
     \<lparr>gt_isPaused = False, gt_servingWait = 0, gt_stop = StopIdle, gt_rqs = [], gt_state = s\<rparr>"

inductive gate_step ::
    "('v, 'd) http_lib \<Rightarrow> ('c \<Rightarrow> ('s, 'v, 'd) route_map) \<Rightarrow> 's gate \<Rightarrow> 's gate \<Rightarrow> bool" for HL m where
  arrive: "m c (rq_Path req) \<noteq> None \<Longrightarrow> gate_step HL m g (g\<lparr>gt_rqs := gt_rqs g @ [RqNew req]\<rparr>)"
| add: "k < length (gt_rqs g) \<Longrightarrow> gt_rqs g ! k = RqNew req \<Longrightarrow>
    gate_step HL m g
      (g\<lparr>gt_rqs := (gt_rqs g)[k := RqCounted req], gt_servingWait := gt_servingWait g + 1\<rparr>)"
| check: "k < length (gt_rqs g) \<Longrightarrow> gt_rqs g ! k = RqCounted req \<Longrightarrow>
    gate_step HL m g (g\<lparr>gt_rqs := (gt_rqs g)[k := RqChecked (gt_isPaused g) req]\<rparr>)"
| answer: "k < length (gt_rqs g) \<Longrightarrow> gt_rqs g ! k = RqChecked p req \<Longrightarrow> m c (rq_Path req) = Some mm \<Longrightarrow>
    handle_request HL mm p traceId req (gt_state g) = (Inr out, s) \<Longrightarrow>
    gate_step HL m g
      (g\<lparr>gt_rqs := (gt_rqs g)[k := RqDone out], gt_servingWait := gt_servingWait g - 1, gt_state := s\<rparr>)"
| stop: "gt_stop g = StopIdle \<Longrightarrow>
    gate_step HL m g (g\<lparr>gt_stop := StopWaiting, gt_isPaused := True\<rparr>)"
| stopped: "gt_stop g = StopWaiting \<Longrightarrow> gt_servingWait g = 0 \<Longrightarrow>
    gate_step HL m g (g\<lparr>gt_stop := StopReturned\<rparr>)"

inductive_cases gate_stepE: "gate_step HL m g h"

end
