(* ===== verification/Router_Props.thy ===== *)
theory Router_Props
  imports Http_Router
begin

text \<open>
  Properties of the HTTP router of \<open>Http_Router\<close>: what \<open>Register\<close> accepts and that a registered
  handler is found, that the routes do not change while the server runs, how a request is
  answered, what \<open>writeResp\<close> writes, and that nothing is handled once \<open>Stop\<close> returned.
\<close>

section \<open>Registration\<close>

lemma is_ptr_iff: "is_ptr t \<longleftrightarrow> (\<exists>t'. t = TPtr t')"
  by (cases t) (auto simp: is_ptr_def)

lemma list_len2: "length xs = 2 \<longleftrightarrow> (\<exists>a b. xs = [a, b])"
  by (auto simp: numeral_2_eq_2 length_Suc_conv)

text \<open>The handler types that \<open>Register\<close> accepts, as a predicate.\<close>

definition handler_ok :: "go_type \<Rightarrow> go_type \<Rightarrow> bool" where
  "handler_ok t reqType \<longleftrightarrow>
     (\<exists>arg resp. t = TFunc [TContext, arg] [resp, TError] \<and>
       (arg = TPtr reqType \<and> is_struct reqType \<or> \<not> is_ptr arg \<and> reqType = arg) \<and>
       (is_ptr resp \<or> (\<exists>n k key. resp \<in> {TSlice (TStruct n), TArray k (TStruct n), TMap key (TStruct n), TChan (TStruct n)})))"

lemma is_struct_iff: "is_struct t \<longleftrightarrow> (\<exists>n. t = TStruct n)"
  by (cases t) (auto simp: is_struct_def)

lemma check_handler_type_pair:
  "check_handler_type (TFunc [c, a] [b, e]) = Inr q \<longleftrightarrow>
     c = TContext \<and> e = TError \<and> (a = TPtr q \<and> is_struct q \<or> \<not> is_ptr a \<and> q = a) \<and>
     (is_ptr b \<or> (\<exists>n k key. b \<in> {TSlice (TStruct n), TArray k (TStruct n), TMap key (TStruct n), TChan (TStruct n)}))"
proof (cases "is_ptr a")
  case True
  then obtain a' where a: "a = TPtr a'" by (auto simp: is_ptr_iff)
  show ?thesis
    by (cases b) (auto simp: check_handler_type_def a is_ptr_def is_struct_iff)
next
  case False
  then show ?thesis
    by (cases b) (auto simp: check_handler_type_def is_ptr_def is_struct_iff)
qed

lemma check_handler_type_iff: "check_handler_type t = Inr q \<longleftrightarrow> handler_ok t q"
proof (cases "\<exists>c a b e. t = TFunc [c, a] [b, e]")
  case True
  then show ?thesis by (auto simp: check_handler_type_pair handler_ok_def)
next
  case False
  then have "check_handler_type t \<noteq> Inr q"
    by (cases t) (auto simp: check_handler_type_def list_len2)
  moreover have "\<not> handler_ok t q" using False by (auto simp: handler_ok_def)
  ultimately show ?thesis by simp
qed

text \<open>The handler at a path and a method.\<close>

definition find_route :: "('s, 'v, 'd) route_map \<Rightarrow> string \<Rightarrow> string \<Rightarrow> ('s, 'v, 'd) handler_reflect option" where
  "find_route m path method = (case m path of None \<Rightarrow> None | Some mm \<Rightarrow> mm method)"

lemma find_add_route:
  "find_route (add_route p q h m) p' q' = (if p' = p \<and> q' = q then Some h else find_route m p' q')"
  by (simp add: find_route_def add_route_def Let_def split: option.splits)

lemma register_route_find:
  assumes "register_route vld route r = (None, r')"
  shows "\<exists>h. check_route vld route = Inr h \<and> \<not> ro_isBooted r' \<and>
    (\<forall>p q. find_route (ro_routeMap r') p q =
       (if p = hr_Path route \<and> q = hr_Method route then Some h else find_route (ro_routeMap r) p q))"
  using assms by (auto simp: register_route_def find_add_route split: if_splits sum.splits)

text \<open>The route of a list that decides on a path and a method: the last one.\<close>

fun last_route :: "('s, 'v, 'd) http_route list \<Rightarrow> string \<Rightarrow> string \<Rightarrow> ('s, 'v, 'd) http_route option" where
  "last_route [] p q = None"
| "last_route (r # rs) p q =
     (case last_route rs p q of
        Some r' \<Rightarrow> Some r'
      | None \<Rightarrow> if hr_Path r = p \<and> hr_Method r = q then Some r else None)"

lemma register_batch_find:
  assumes "register_batch vld routes r = (None, r')"
  shows "(\<forall>route \<in> set routes. \<exists>h. check_route vld route = Inr h) \<and>
    (\<forall>p q. find_route (ro_routeMap r') p q =
      (case last_route routes p q of
         None \<Rightarrow> find_route (ro_routeMap r) p q
       | Some route \<Rightarrow> (case check_route vld route of Inr h \<Rightarrow> Some h | Inl e \<Rightarrow> None)))"
  using assms
proof (induction routes arbitrary: r)
  case (Cons route routes)
  from Cons.prems obtain r1 where r1: "register_route vld route r = (None, r1)"
    and rest: "register_batch vld routes r1 = (None, r')"
    by (auto split: prod.splits option.splits)
  from register_route_find [OF r1] obtain h where h: "check_route vld route = Inr h"
    and f: "\<And>p q. find_route (ro_routeMap r1) p q =
      (if p = hr_Path route \<and> q = hr_Method route then Some h else find_route (ro_routeMap r) p q)"
    by blast
  from Cons.IH [OF rest] show ?case
    by (auto simp: f h split: option.splits if_splits)
qed simp

section \<open>Callers of Register and Boot\<close>

definition router_run ::
    "route_validator \<Rightarrow> ('s, 'v, 'd) caller list \<times> ('s, 'v, 'd) router \<Rightarrow>
       ('s, 'v, 'd) caller list \<times> ('s, 'v, 'd) router \<Rightarrow> bool" where
  "router_run vld = (router_step vld)\<^sup>*\<^sup>*"

inductive_cases router_stepE: "router_step vld (cs, r) (cs', r')"

text \<open>Who holds the mutex, and who serves requests.\<close>

fun holds_mu :: "('s, 'v, 'd) caller \<Rightarrow> bool" where
  "holds_mu BootRecheck = True"
| "holds_mu (RegRecheck p m h) = True"
| "holds_mu c = False"

fun is_start :: "('s, 'v, 'd) caller \<Rightarrow> bool" where
  "is_start BootCheck = True"
| "is_start (RegCheck route) = True"
| "is_start c = False"

lemma is_start_not: "is_start c \<Longrightarrow> \<not> holds_mu c \<and> c \<noteq> BootServe"
  by (cases c) auto

definition router_inv :: "('s, 'v, 'd) caller list \<times> ('s, 'v, 'd) router \<Rightarrow> bool" where
  "router_inv cr \<longleftrightarrow>
     length (filter holds_mu (fst cr)) \<le> (if ro_locked (snd cr) then 1 else 0) \<and>
     length (filter (\<lambda>c. c = BootServe) (fst cr)) = (if ro_isBooted (snd cr) then 1 else 0)"

lemma caller_step_shape:
  assumes "caller_step vld down c r = Some (c', r')"
  shows "c \<noteq> c'"
    and "holds_mu c' \<Longrightarrow> \<not> ro_locked r \<and> ro_locked r' \<and> \<not> holds_mu c"
    and "holds_mu c \<Longrightarrow> \<not> holds_mu c'"
    and "\<not> holds_mu c \<Longrightarrow> \<not> holds_mu c' \<Longrightarrow> ro_locked r' = ro_locked r"
    and "c' = BootServe \<Longrightarrow> c = BootRecheck \<and> \<not> ro_isBooted r \<and> ro_isBooted r'"
    and "c = BootServe \<Longrightarrow> \<not> ro_isBooted r'"
    and "c \<noteq> BootServe \<Longrightarrow> c' \<noteq> BootServe \<Longrightarrow> ro_isBooted r' = ro_isBooted r"
    and "ro_routeMap r' \<noteq> ro_routeMap r \<Longrightarrow>
      \<exists>p m h. c = RegRecheck p m h \<and> \<not> ro_isBooted r \<and> ro_routeMap r' = add_route p m h (ro_routeMap r)"
  using assms by (cases c; auto split: if_splits sum.splits)+

lemma router_inv_step:
  assumes "router_step vld (cs, r) (cs', r')" "router_inv (cs, r)"
  shows "router_inv (cs', r')"
  using assms(1)
proof (rule router_stepE)
  fix k down c'
  assume k: "cs' = cs[k := c']" "k < length cs" "caller_step vld down (cs ! k) r = Some (c', r')"
  note shape = caller_step_shape [OF k(3)]
  have "holds_mu (cs ! k) \<Longrightarrow> 0 < length (filter holds_mu cs)"
    using nth_mem [OF k(2)] by (intro length_filter_pos [of "cs ! k"]) auto
  moreover have "cs ! k = BootServe \<Longrightarrow> 0 < length (filter (\<lambda>c. c = BootServe) cs)"
    using nth_mem [OF k(2)] by (intro length_filter_pos [of "cs ! k"]) auto
  ultimately show ?thesis
    using assms(2) shape length_filter_update [OF k(2), of holds_mu c']
      length_filter_update [OF k(2), of "\<lambda>c. c = BootServe" c']
    unfolding router_inv_def k(1) fst_conv snd_conv
    by (cases "holds_mu (cs ! k)"; cases "holds_mu c'"; cases "cs ! k = BootServe"; cases "c' = BootServe")
      (auto simp del: length_0_conv length_greater_0_conv split: if_splits)
qed

lemma router_inv_run:
  assumes "router_run vld (cs, new_router) (cs', r')" "list_all is_start cs"
  shows "router_inv (cs', r')"
  using assms unfolding router_run_def
proof (induction rule: rtranclp_induct2)
  case refl
  then have "\<forall>c \<in> set cs. \<not> holds_mu c \<and> c \<noteq> BootServe"
    by (auto simp: list_all_iff dest: is_start_not)
  then show ?case by (auto simp: router_inv_def new_router_def filter_empty_conv)
next
  case (step cs1 r1 cs2 r2)
  then show ?case by (blast intro: router_inv_step)
qed

lemma routes_fixed_step:
  assumes "router_step vld (cs, r) (cs', r')" "router_inv (cs, r)" "BootServe \<in> set cs"
  shows "ro_routeMap r' = ro_routeMap r"
  using assms(1)
proof (rule router_stepE)
  fix k down c'
  assume k: "caller_step vld down (cs ! k) r = Some (c', r')"
  have "0 < length (filter (\<lambda>c. c = BootServe) cs)" by (rule length_filter_pos [OF assms(3)]) simp
  then have "ro_isBooted r" using assms(2) by (auto simp: router_inv_def split: if_splits)
  with caller_step_shape(8) [OF k] show ?thesis by blast
qed

text \<open>When the mutex is taken and nobody holds it, it stays taken, and the routes stay as they are.\<close>

definition mu_leaked :: "('s, 'v, 'd) caller list \<times> ('s, 'v, 'd) router \<Rightarrow> bool" where
  "mu_leaked cr \<longleftrightarrow> ro_locked (snd cr) \<and> list_all (\<lambda>c. \<not> holds_mu c) (fst cr)"

lemma mu_leaked_step:
  assumes "router_step vld (cs, r) (cs', r')" "mu_leaked (cs, r)"
  shows "mu_leaked (cs', r') \<and> ro_routeMap r' = ro_routeMap r"
  using assms(1)
proof (rule router_stepE)
  fix k down c'
  assume k: "cs' = cs[k := c']" "k < length cs" "caller_step vld down (cs ! k) r = Some (c', r')"
  note shape = caller_step_shape [OF k(3)]
  have nh: "\<not> holds_mu (cs ! k)" using assms(2) k(2) by (auto simp: mu_leaked_def list_all_iff)
  moreover have nh': "\<not> holds_mu c'" using shape(2) assms(2) by (auto simp: mu_leaked_def)
  ultimately have "ro_locked r' = ro_locked r" by (rule shape(4))
  moreover have "ro_routeMap r' = ro_routeMap r" using shape(8) nh by fastforce
  ultimately show ?thesis
    using assms(2) nh' k(1) by (auto simp: mu_leaked_def list_all_iff dest!: set_updateD)
qed

lemma mu_leaked_stuck: "mu_leaked (cs, r) \<Longrightarrow> caller_step vld down (RegLock p m h) r = None"
  by (simp add: mu_leaked_def)

lemma mu_leaked_run:
  assumes "router_run vld (cs, r) (cs', r')" "mu_leaked (cs, r)"
  shows "mu_leaked (cs', r') \<and> ro_routeMap r' = ro_routeMap r"
  using assms unfolding router_run_def
proof (induction rule: rtranclp_induct2)
  case (step cs1 r1 cs2 r2)
  from step.IH [OF step.prems] have l: "mu_leaked (cs1, r1)" and e: "ro_routeMap r1 = ro_routeMap r" by auto
  from mu_leaked_step [OF step.hyps(2) l] e show ?case by simp
qed simp

lemma router_run_move:
  assumes "k < length cs" "caller_step vld down (cs ! k) r = Some (c', r')" "router_run vld (cs[k := c'], r') z"
  shows "router_run vld (cs, r) z"
  using router_step.move [OF assms(1,2)] assms(3) unfolding router_run_def
  by (rule converse_rtranclp_into_rtranclp)

lemma router_run_refl: "router_run vld z z"
  by (simp add: router_run_def)

text \<open>A schedule: the callers in the order of their steps.\<close>

fun router_exec ::
    "route_validator \<Rightarrow> go_err \<Rightarrow> nat list \<Rightarrow> ('s, 'v, 'd) caller list \<times> ('s, 'v, 'd) router \<Rightarrow>
       (('s, 'v, 'd) caller list \<times> ('s, 'v, 'd) router) option" where
  "router_exec vld down [] z = Some z"
| "router_exec vld down (k # ks) (cs, r) =
     (if k < length cs
      then (case caller_step vld down (cs ! k) r of
              None \<Rightarrow> None | Some (c', r') \<Rightarrow> router_exec vld down ks (cs[k := c'], r'))
      else None)"

lemma router_exec_run: "router_exec vld down ks z = Some z' \<Longrightarrow> router_run vld z z'"
proof (induction ks arbitrary: z)
  case Nil
  then show ?case by (simp add: router_run_refl)
next
  case (Cons k ks)
  obtain cs r where z: "z = (cs, r)" by (cases z)
  from Cons.prems obtain c' r' where s: "k < length cs" "caller_step vld down (cs ! k) r = Some (c', r')"
    "router_exec vld down ks (cs[k := c'], r') = Some z'"
    by (auto simp: z split: if_splits option.splits prod.splits)
  show ?case unfolding z by (rule router_run_move [OF s(1,2) Cons.IH [OF s(3)]])
qed

lemma router_run_move1:
  assumes "caller_step vld undefined c r = Some (c', r')" "router_run vld ([c'], r') z"
  shows "router_run vld ([c], r) z"
  using router_run_move [of 0 "[c]" vld undefined r c' r' z] assms by simp

lemma locked_out:
  assumes "router_run vld (cs, r) (cs', r')" "mu_leaked (cs, r)" "k < length cs" "cs ! k = RegLock p m h"
  shows "k < length cs' \<and> cs' ! k = RegLock p m h"
  using assms unfolding router_run_def
proof (induction rule: rtranclp_induct2)
  case (step cs1 r1 cs2 r2)
  from step.IH [OF step.prems] have c1: "k < length cs1" "cs1 ! k = RegLock p m h" by auto
  have leak: "mu_leaked (cs1, r1)"
    using mu_leaked_run [of vld cs r cs1 r1] step.hyps(1) step.prems(1) by (simp add: router_run_def)
  from step.hyps(2) show ?case
  proof (rule router_stepE)
    fix l down c'
    assume "cs2 = cs1[l := c']" "caller_step vld down (cs1 ! l) r1 = Some (c', r2)"
    moreover from this(2) leak c1 have "l \<noteq> k" by (auto simp: mu_leaked_def)
    ultimately show ?thesis using c1 by simp
  qed
qed simp

text \<open>A caller of \<open>Register\<close> that nobody interrupts: the states it goes through.\<close>

definition register_trace ::
    "route_validator \<Rightarrow> ('s, 'v, 'd) http_route \<Rightarrow> ('s, 'v, 'd) router \<Rightarrow>
       ('s, 'v, 'd) caller list \<times> ('s, 'v, 'd) router \<Rightarrow> bool" where
  "register_trace vld route r cr \<longleftrightarrow>
     cr = ([RegCheck route], r) \<or>
     (\<exists>h. check_route vld route = Inr h \<and> \<not> ro_isBooted r \<and>
        cr \<in> {([RegLock (hr_Path route) (hr_Method route) h], r),
              ([RegRecheck (hr_Path route) (hr_Method route) h], r\<lparr>ro_locked := True\<rparr>)}) \<or>
     (\<exists>e r'. register_route vld route r = (e, r') \<and> cr = ([RegEnd e], r'))"

lemma register_trace_step:
  assumes "\<not> ro_locked r" "register_trace vld route r (cs, s)" "router_step vld (cs, s) (cs', s')"
  shows "register_trace vld route r (cs', s')"
  using assms(3)
proof (rule router_stepE)
  fix k down c'
  assume k: "cs' = cs[k := c']" "k < length cs" "caller_step vld down (cs ! k) s = Some (c', s')"
  from k(2) assms(2) have [simp]: "k = 0" by (auto simp: register_trace_def)
  have r: "r\<lparr>ro_locked := False\<rparr> = r" "r\<lparr>ro_routeMap := m, ro_locked := False\<rparr> = r\<lparr>ro_routeMap := m\<rparr>" for m
    using assms(1) by simp_all
  from assms(2) k show ?thesis
    by (auto simp: register_trace_def register_route_def r split: if_splits sum.splits)
qed

lemma register_alone_iff:
  assumes "\<not> ro_locked r"
  shows "router_run vld ([RegCheck route], r) ([RegEnd e], r') \<longleftrightarrow> register_route vld route r = (e, r')"
proof
  assume "router_run vld ([RegCheck route], r) ([RegEnd e], r')"
  then have "register_trace vld route r ([RegEnd e], r')"
    unfolding router_run_def
  proof (induction rule: rtranclp_induct2)
    case refl
    show ?case by (simp add: register_trace_def)
  next
    case (step cs1 r1 cs2 r2)
    from register_trace_step [OF assms step.IH step.hyps(2)] show ?case .
  qed
  then show "register_route vld route r = (e, r')" by (auto simp: register_trace_def)
next
  assume reg: "register_route vld route r = (e, r')"
  have r: "r\<lparr>ro_routeMap := m, ro_locked := False\<rparr> = r\<lparr>ro_routeMap := m\<rparr>" for m
    using assms by simp
  show "router_run vld ([RegCheck route], r) ([RegEnd e], r')"
  proof (cases "\<not> ro_isBooted r \<and> (\<exists>h. check_route vld route = Inr h)")
    case True
    then obtain h where h: "check_route vld route = Inr h" and nb: "\<not> ro_isBooted r" by blast
    have e: "e = None" "r' = r\<lparr>ro_routeMap := add_route (hr_Path route) (hr_Method route) h (ro_routeMap r)\<rparr>"
      using reg h nb by (simp_all add: register_route_def)
    have "router_run vld ([RegRecheck (hr_Path route) (hr_Method route) h], r\<lparr>ro_locked := True\<rparr>) ([RegEnd e], r')"
      by (rule router_run_move1 [OF _ router_run_refl]) (simp add: nb e r)
    then have "router_run vld ([RegLock (hr_Path route) (hr_Method route) h], r) ([RegEnd e], r')"
      by (rule router_run_move1 [rotated]) (simp add: assms)
    then show ?thesis by (rule router_run_move1 [rotated]) (simp add: h nb)
  next
    case False
    then have "r' = r" "caller_step vld undefined (RegCheck route) r = Some (RegEnd e, r)"
      using reg by (auto simp: register_route_def split: sum.splits if_splits)
    then show ?thesis by (auto simp del: caller_step.simps intro: router_run_move1 [OF _ router_run_refl])
  qed
qed

section \<open>Answering a request\<close>

lemma handle_request_paused: "handle_request HL mm True tid req s = (Inr (resp_err HL ErrCodeServerStopped [] tid), s)"
  by (simp add: handle_request_def)

lemma call_handler_cases:
  "call_handler h v s = (case gh_type (hf_handler h) of
     TFunc [c, t] outs \<Rightarrow> if t = TPtr (hf_req h) then gh_call (hf_handler h) v s
       else (Inl (Panic ''reflect: Call using wrong type''), s)
   | _ \<Rightarrow> (Inl (Panic ''reflect: Call with too many input arguments''), s))"
  by (simp add: call_handler_def split: go_type.splits list.splits)

lemma call_handler_frame: "snd (call_handler h v s) = s \<or> call_handler h v s = gh_call (hf_handler h) v s"
  by (auto simp: call_handler_cases split: go_type.splits list.splits)

lemma handle_request_frame:
  "snd (handle_request HL mm p tid req s) = s \<or>
     \<not> p \<and> (\<exists>h v. mm (rq_Method req) = Some h \<and> decode_req HL (hf_req h) req = Inr v \<and>
       hl_validate HL v = None \<and> snd (handle_request HL mm p tid req s) = snd (gh_call (hf_handler h) v s))"
proof (cases "\<exists>h v. \<not> p \<and> mm (rq_Method req) = Some h \<and> decode_req HL (hf_req h) req = Inr v \<and> hl_validate HL v = None")
  case True
  then obtain h v where g: "\<not> p" "mm (rq_Method req) = Some h" "decode_req HL (hf_req h) req = Inr v"
      "hl_validate HL v = None" by blast
  then have "snd (handle_request HL mm p tid req s) = snd (call_handler h v s)"
    by (simp add: handle_request_def split: prod.splits sum.splits go_err.splits)
  with g call_handler_frame [of h v s] show ?thesis by auto
next
  case False
  then have "snd (handle_request HL mm p tid req s) = s"
    by (auto simp: handle_request_def split: option.splits sum.splits)
  then show ?thesis ..
qed

text \<open>The response to a handler's answer.\<close>

lemma handle_request_answer:
  assumes "mm (rq_Method req) = Some h" "decode_req HL (hf_req h) req = Inr v" "hl_validate HL v = None"
  shows
    "call_handler h v s = (Inl (BizError code msg), t) \<Longrightarrow>
       handle_request HL mm False tid req s = (Inr (resp_err HL code msg tid), t)"
    "call_handler h v s = (Inl e, t) \<Longrightarrow> (\<And>code msg. e \<noteq> BizError code msg) \<Longrightarrow> (\<And>p. e \<noteq> Panic p) \<Longrightarrow>
       handle_request HL mm False tid req s = (Inr (resp_err HL ErrCodeInternal [] tid), t)"
    "call_handler h v s = (Inr d, t) \<Longrightarrow>
       hl_json HL \<lparr>fr_Code = 0, fr_Msg = [], fr_Data = Some d, fr_Hint = tid\<rparr> = Inr content \<Longrightarrow>
       handle_request HL mm False tid req s = (Inr (Some content), t)"
  using assms by (auto simp: handle_request_def split: go_err.splits)

section \<open>Writing the response\<close>

text \<open>The contract of \<open>io.Writer\<close>: a short write has an error.\<close>

definition writer_law :: "(string \<Rightarrow> nat \<times> go_err option) \<Rightarrow> bool" where
  "writer_law wr \<longleftrightarrow>
     (\<forall>c. fst (wr c) \<le> length c \<and> (snd (wr c) = None \<longrightarrow> fst (wr c) = length c))"

lemma write_resp_law:
  assumes "writer_law wr"
  shows "write_resp wr (Suc n) content = Some (snd (wr content), take (fst (wr content)) content)"
proof (cases "wr content")
  case (Pair k e)
  then have "k \<le> length content" "e = None \<Longrightarrow> k = length content"
    using assms [unfolded writer_law_def, rule_format, of content] by auto
  then show ?thesis using Pair by (cases e) (auto simp: write_resp_def)
qed

text \<open>Without that contract the cut by the total loses bytes and then leaves the slice.\<close>

lemma short_writes_lose_bytes:
  "write_resp (\<lambda>c. (1, None)) (3 + n) [a, b, c, d] =
     Some (Some (Panic ''slice bounds out of range''), [a, b, d])"
  by (simp add: write_resp_def numeral_3_eq_3)

section \<open>Requests and the caller of Stop\<close>

definition gate_run ::
    "('v, 'd) http_lib \<Rightarrow> ('c \<Rightarrow> ('s, 'v, 'd) route_map) \<Rightarrow> 's gate \<Rightarrow> 's gate \<Rightarrow> bool" where
  "gate_run HL m = (gate_step HL m)\<^sup>*\<^sup>*"

fun is_inside :: "rq_pc \<Rightarrow> bool" where
  "is_inside (RqCounted req) = True"
| "is_inside (RqChecked p req) = True"
| "is_inside q = False"

definition gate_inv :: "'s gate \<Rightarrow> bool" where
  "gate_inv g \<longleftrightarrow>
     gt_servingWait g = int (length (filter is_inside (gt_rqs g))) \<and>
     (gt_stop g \<noteq> StopIdle \<longrightarrow> gt_isPaused g) \<and>
     (gt_stop g = StopReturned \<longrightarrow> (\<forall>req. RqChecked False req \<notin> set (gt_rqs g)))"

lemma gate_inv_step: "gate_step HL m g h \<Longrightarrow> gate_inv g \<Longrightarrow> gate_inv h"
proof (erule gate_stepE)
  assume "gate_inv g" "h = g\<lparr>gt_stop := StopReturned\<rparr>" "gt_stop g = StopWaiting" "gt_servingWait g = 0"
  moreover from this have "\<not> is_inside (RqChecked False req)" if "RqChecked False req \<in> set (gt_rqs g)" for req
    using that by (auto simp: gate_inv_def filter_empty_conv)
  ultimately show "gate_inv h" by (auto simp: gate_inv_def)
qed (auto simp: gate_inv_def length_filter_update dest!: set_updateD)

lemma gate_inv_run: "gate_run HL m (gate_init s) g \<Longrightarrow> gate_inv g"
  unfolding gate_run_def
proof (induction rule: rtranclp_induct)
  case base
  show ?case by (simp add: gate_init_def gate_inv_def)
next
  case (step g h)
  from gate_inv_step [OF step.hyps(2) step.IH] show ?case .
qed

text \<open>What holds of a state \<open>h\<close> reached after \<open>Stop\<close> returned in \<open>g\<close>.\<close>

definition after_stop :: "('v, 'd) http_lib \<Rightarrow> 's gate \<Rightarrow> 's gate \<Rightarrow> bool" where
  "after_stop HL g h \<longleftrightarrow>
     gate_inv h \<and> gt_stop h = StopReturned \<and> gt_state h = gt_state g \<and>
     length (gt_rqs g) \<le> length (gt_rqs h) \<and>
     (\<forall>k out. k < length (gt_rqs h) \<longrightarrow> gt_rqs h ! k = RqDone out \<longrightarrow>
       k < length (gt_rqs g) \<and> gt_rqs g ! k = RqDone out \<or>
       (\<exists>tid. out = resp_err HL ErrCodeServerStopped [] tid))"

lemma after_stop_step:
  assumes "gate_step HL m h h'" "after_stop HL g h"
  shows "after_stop HL g h'"
proof -
  have "gate_inv h'" by (rule gate_inv_step [OF assms(1)]) (use assms(2) in \<open>simp add: after_stop_def\<close>)
  with assms show ?thesis
  proof (elim gate_stepE)
    fix k p req mm tid out s
    assume h: "after_stop HL g h" "gate_inv h'"
      "h' = h\<lparr>gt_rqs := (gt_rqs h)[k := RqDone out], gt_servingWait := gt_servingWait h - 1, gt_state := s\<rparr>"
      "k < length (gt_rqs h)" "gt_rqs h ! k = RqChecked p req"
      "handle_request HL mm p tid req (gt_state h) = (Inr out, s)"
    have "RqChecked p req \<in> set (gt_rqs h)" using h(4,5) nth_mem by metis
    then have "p" using h(1) by (cases p) (auto simp: after_stop_def gate_inv_def)
    with h(6) have "out = resp_err HL ErrCodeServerStopped [] tid" "s = gt_state h"
      by (simp_all add: handle_request_paused)
    with h(1-4) show "after_stop HL g h'" by (auto simp: after_stop_def nth_list_update)
  qed (auto simp: after_stop_def nth_append nth_list_update split: if_splits)
qed

lemma after_stop_run:
  assumes "gate_run HL m (gate_init s) g" "gt_stop g = StopReturned" "gate_run HL m g h"
  shows "after_stop HL g h"
  using assms(3) unfolding gate_run_def
proof (induction rule: rtranclp_induct)
  case base
  then show ?case using gate_inv_run [OF assms(1)] assms(2) by (auto simp: after_stop_def)
next
  case (step h h')
  from after_stop_step [OF step.hyps(2) step.IH] show ?case .
qed

end
