(* ===== verification/Api_Server.thy ===== *)
theory Api_Server
  imports Task_Api Router_Props
begin

text \<open>
  \<open>src/api_route.go\<close> and the API server of \<open>src/main.go\<close>: the five handlers of \<open>Task_Api\<close> as routes of
  the router of \<open>Http_Router\<close>.

  A value of any of the five request structs is an \<open>api_msg\<close>, of the five response structs an
  \<open>api_data\<close>. What a handler reads from the clock is an argument of the routes: the routes are
  registered once and differ in nothing else.
\<close>

section \<open>Messages of the API\<close>

datatype api_msg =
    MAddTask http_add_task_req
  | MStopTask http_stop_task_req
  | MConfirmTask http_confirm_task_req
  | MRegister http_register_req
  | MUnregister http_unregister_req

datatype api_data = DAddTask http_add_task_resp | DStopTask | DConfirmTask | DRegister | DUnregister

text \<open>The fields tagged \<open>validate:"required"\<close>, and whether they hold their zero value.\<close>

fun msg_required :: "api_msg \<Rightarrow> (string \<times> bool) list" where
  "msg_required (MAddTask q) =
     [(''Name'', ha_Name q = []), (''SrvName'', ha_SrvName q = []), (''SchedMode'', ha_SchedMode q = 0)]"
| "msg_required (MStopTask q) = [(''TaskId'', hst_TaskId q = [])]"
| "msg_required (MConfirmTask q) =
     [(''TaskId'', hct_TaskId q = []), (''TaskRunTimes'', hct_TaskRunTimes q = 0)]"
| "msg_required (MRegister q) =
     [(''Name'', hrg_Name q = []), (''Schema'', hrg_Schema q = []), (''Host'', hrg_Host q = []),
      (''Port'', hrg_Port q = 0)]"
| "msg_required (MUnregister q) =
     [(''Name'', hun_Name q = []), (''Schema'', hun_Schema q = []), (''Host'', hun_Host q = []),
      (''Port'', hun_Port q = 0)]"

fun msg_struct :: "api_msg \<Rightarrow> string" where
  "msg_struct (MAddTask q) = ''AddTaskReq''"
| "msg_struct (MStopTask q) = ''StopTaskReq''"
| "msg_struct (MConfirmTask q) = ''ConfirmTaskReq''"
| "msg_struct (MRegister q) = ''RegisterTaskCallbackSrvReq''"
| "msg_struct (MUnregister q) = ''UnregisterTaskCallbackSrvReq''"

definition msg_type :: "api_msg \<Rightarrow> go_type" where
  "msg_type q = TStruct (msg_struct q)"

section \<open>Routes\<close>

definition AddTaskCmdPath :: string where "AddTaskCmdPath = ''/add_task''"
definition StopTaskCmdPath :: string where "StopTaskCmdPath = ''/stop_task''"
definition ConfirmTaskCmdPath :: string where "ConfirmTaskCmdPath = ''/confirm_task''"
definition RegisterTaskCallbackSrvCmdPath :: string where
  "RegisterTaskCallbackSrvCmdPath = ''/add_task_server''"
definition UnregisterTaskCallbackSrvCmdPath :: string where
  "UnregisterTaskCallbackSrvCmdPath = ''/del_task_server''"

lemmas cmd_path_defs =
  AddTaskCmdPath_def StopTaskCmdPath_def ConfirmTaskCmdPath_def RegisterTaskCallbackSrvCmdPath_def
  UnregisterTaskCallbackSrvCmdPath_def

text \<open>The type of a handler: \<open>func(context.Context, *Req) (*Resp, error)\<close>.\<close>

definition api_func :: "string \<Rightarrow> string \<Rightarrow> go_type" where
  "api_func req resp = TFunc [TContext, TPtr (TStruct req)] [TPtr (TStruct resp), TError]"

definition reply :: "api_data \<Rightarrow> ('s, unit) io \<Rightarrow> ('s, api_data) io" where
  "reply d m = bind_io m (\<lambda>_. ret_io d)"

text \<open>The handler that a message is passed to.\<close>

fun api_call :: "'s api \<Rightarrow> int \<Rightarrow> int \<Rightarrow> api_msg \<Rightarrow> ('s, api_data) io" where
  "api_call A now nowLog (MAddTask q) = bind_io (api_add_task A now q) (\<lambda>r. ret_io (DAddTask r))"
| "api_call A now nowLog (MStopTask q) = reply DStopTask (api_stop_task A q)"
| "api_call A now nowLog (MConfirmTask q) = reply DConfirmTask (api_confirm_task A now nowLog q)"
| "api_call A now nowLog (MRegister q) = reply DRegister (api_register A q)"
| "api_call A now nowLog (MUnregister q) = reply DUnregister (api_unregister A q)"

text \<open>\<open>Call\<close> with a value of another struct panics.\<close>

definition api_handler ::
    "'s api \<Rightarrow> int \<Rightarrow> int \<Rightarrow> string \<Rightarrow> string \<Rightarrow> ('s, api_msg, api_data) go_handler" where
  "api_handler A now nowLog req resp =
     \<lparr>gh_type = api_func req resp,
      gh_call = (\<lambda>q. if msg_struct q = req then api_call A now nowLog q
                     else throw_io (Panic ''reflect: Call using wrong type''))\<rparr>"

definition post_route :: "string \<Rightarrow> ('s, 'v, 'd) go_handler \<Rightarrow> ('s, 'v, 'd) http_route" where
  "post_route path h = \<lparr>hr_Path = path, hr_Method = ''POST'', hr_Handler = Some h\<rparr>"

definition api_routes :: "'s api \<Rightarrow> int \<Rightarrow> int \<Rightarrow> ('s, api_msg, api_data) http_route list" where
  "api_routes A now nowLog =
     [post_route AddTaskCmdPath (api_handler A now nowLog ''AddTaskReq'' ''AddTaskResp''),
      post_route StopTaskCmdPath (api_handler A now nowLog ''StopTaskReq'' ''StopTaskResp''),
      post_route ConfirmTaskCmdPath (api_handler A now nowLog ''ConfirmTaskReq'' ''ConfirmTaskResp''),
      post_route RegisterTaskCallbackSrvCmdPath
        (api_handler A now nowLog ''RegisterTaskCallbackSrvReq'' ''RegisterTaskCallbackSrvResp''),
      post_route UnregisterTaskCallbackSrvCmdPath
        (api_handler A now nowLog ''UnregisterTaskCallbackSrvReq'' ''UnregisterTaskCallbackSrvResp'')]"

text \<open>The router that \<open>runHttpApiServer\<close> sets up, with the outcome of \<open>RegisterBatch\<close>.\<close>

definition api_router ::
    "'s api \<Rightarrow> int \<Rightarrow> int \<Rightarrow> go_err option \<times> ('s, api_msg, api_data) router" where
  "api_router A now nowLog = register_batch (ap_vld A) (api_routes A now nowLog) new_router"

definition api_map :: "'s api \<Rightarrow> int \<times> int \<Rightarrow> ('s, api_msg, api_data) route_map" where
  "api_map A c = ro_routeMap (snd (api_router A (fst c) (snd c)))"

text \<open>
  One request to the running server: \<open>ServeMux\<close> finds the function registered at the path, its own
  answer otherwise.
\<close>

definition mux_not_found :: string where
  "mux_not_found = ''404 page not found'' @ [CHR 0x0A]"

definition mux_serve ::
    "('v, 'd) http_lib \<Rightarrow> ('s, 'v, 'd) route_map \<Rightarrow> bool \<Rightarrow> string \<Rightarrow> http_request \<Rightarrow> ('s, string option) io" where
  "mux_serve HL m isPaused traceId req s =
     (case m (rq_Path req) of
        None \<Rightarrow> (Inr (Some mux_not_found), s)
      | Some mm \<Rightarrow> handle_request HL mm isPaused traceId req s)"

section \<open>Lemmas\<close>

text \<open>The command of a message: its path, its handler and the struct it is decoded into.\<close>

fun msg_path :: "api_msg \<Rightarrow> string" where
  "msg_path (MAddTask q) = AddTaskCmdPath"
| "msg_path (MStopTask q) = StopTaskCmdPath"
| "msg_path (MConfirmTask q) = ConfirmTaskCmdPath"
| "msg_path (MRegister q) = RegisterTaskCallbackSrvCmdPath"
| "msg_path (MUnregister q) = UnregisterTaskCallbackSrvCmdPath"

fun resp_struct :: "api_msg \<Rightarrow> string" where
  "resp_struct (MAddTask q) = ''AddTaskResp''"
| "resp_struct (MStopTask q) = ''StopTaskResp''"
| "resp_struct (MConfirmTask q) = ''ConfirmTaskResp''"
| "resp_struct (MRegister q) = ''RegisterTaskCallbackSrvResp''"
| "resp_struct (MUnregister q) = ''UnregisterTaskCallbackSrvResp''"

lemma check_api_func: "check_handler_type (api_func req resp) = Inr (TStruct req)"
  by (simp add: check_handler_type_def api_func_def is_ptr_def is_struct_def)

lemma register_api_route:
  assumes "validator_law vld" "\<not> ro_isBooted r" "path \<noteq> []"
  shows "register_route vld (post_route path (api_handler A now nowLog req resp)) r =
    (None, r\<lparr>ro_routeMap := add_route path ''POST''
       \<lparr>hf_handler = api_handler A now nowLog req resp, hf_req = TStruct req\<rparr> (ro_routeMap r)\<rparr>)"
proof -
  have "vld [(''Path'', path = []), (''Method'', ''POST'' = []), (''Handler'', False)] = None"
    using assms(1,3) by (simp add: validator_law_def)
  then show ?thesis using assms(2)
    by (simp add: register_route_def check_route_def http_route_check_def post_route_def
        api_handler_def check_api_func)
qed

lemma api_router_ok:
  assumes "validator_law (ap_vld A)"
  shows "fst (api_router A now nowLog) = None"
    "ro_routeMap (snd (api_router A now nowLog)) p =
      map_of (map (\<lambda>(path, req, resp). (path, [''POST'' \<mapsto>
          \<lparr>hf_handler = api_handler A now nowLog req resp, hf_req = TStruct req\<rparr>]))
        [(AddTaskCmdPath, ''AddTaskReq'', ''AddTaskResp''), (StopTaskCmdPath, ''StopTaskReq'', ''StopTaskResp''),
         (ConfirmTaskCmdPath, ''ConfirmTaskReq'', ''ConfirmTaskResp''),
         (RegisterTaskCallbackSrvCmdPath, ''RegisterTaskCallbackSrvReq'', ''RegisterTaskCallbackSrvResp''),
         (UnregisterTaskCallbackSrvCmdPath, ''UnregisterTaskCallbackSrvReq'', ''UnregisterTaskCallbackSrvResp'')]) p"
  by (simp_all add: api_router_def api_routes_def register_api_route [OF assms] new_router_def
      add_route_def cmd_path_defs)

lemma api_map_path:
  assumes "validator_law (ap_vld A)"
  shows "api_map A (now, nowLog) (msg_path q) =
    Some [''POST'' \<mapsto> \<lparr>hf_handler = api_handler A now nowLog (msg_struct q) (resp_struct q), hf_req = msg_type q\<rparr>]"
  by (cases q) (simp_all add: api_map_def api_router_ok(2) [OF assms] cmd_path_defs msg_type_def)

lemma call_api_handler:
  "call_handler \<lparr>hf_handler = api_handler A now nowLog (msg_struct q) resp, hf_req = msg_type q\<rparr> q =
     api_call A now nowLog q"
  by (rule ext) (simp add: call_handler_def api_handler_def api_func_def msg_type_def)

end
