(* ===== verification/Rpc_Client.thy ===== *)
theory Rpc_Client
  imports Api_Server
begin

text \<open>
  \<open>pkg/rpc/http_cli.go\<close>, the client of the API, and its conversation with the server of
  \<open>Api_Server\<close>.

  Third-party code is a parameter (\<open>cli_lib\<close>): \<open>json.Marshal\<close> of a request, \<open>json.Unmarshal\<close> into the
  response envelope, \<open>http.NewRequest\<close>, and the exchange (\<open>Client.Do\<close> with \<open>io.ReadAll\<close>). The locale
  \<open>http_codec\<close> states what the two ends rely on: what one side writes the other reads, for
  texts of ASCII characters. \<open>api_link\<close> states that a body which the client reads is the server's answer
  to its request; when the exchange fails the request may or may not have been served.
\<close>

section \<open>The client\<close>

record ('s, 'q, 'd) cli_lib =
  cl_json :: "'q \<Rightarrow> go_err + string"
  cl_new_req :: "string \<Rightarrow> go_err option"
  cl_do :: "string \<Rightarrow> string \<Rightarrow> int option \<Rightarrow> ('s, string) io"
  cl_resp_json :: "string \<Rightarrow> 'd final_resp \<Rightarrow> go_err option \<times> 'd final_resp"

text \<open>An option changes the timeout of the client; 0 is none.\<close>

type_synonym http_req_opt = "int \<Rightarrow> go_err + int"

definition with_timeout_http_opt :: "int \<Rightarrow> http_req_opt" where
  "with_timeout_http_opt timeout = (\<lambda>_. Inr timeout)"

fun apply_opts :: "http_req_opt list \<Rightarrow> int \<Rightarrow> go_err + int" where
  "apply_opts [] timeout = Inr timeout"
| "apply_opts (opt # opts) timeout =
     (case opt timeout of Inl e \<Rightarrow> Inl e | Inr timeout' \<Rightarrow> apply_opts opts timeout')"

definition new_http_cli :: "string \<Rightarrow> string" where
  "new_http_cli addr = rev (dropWhile (\<lambda>c. c = CHR ''/'') (rev addr))"

text \<open>
  \<open>post\<close>. \<open>resp\<close> is what the caller's response struct holds; the answer is what it holds
  afterwards. A \<open>null\<close> in the envelope leaves it as it was.
\<close>

definition cli_post ::
    "('s, 'q, 'd) cli_lib \<Rightarrow> string \<Rightarrow> string \<Rightarrow> 'q \<Rightarrow> 'd \<Rightarrow> http_req_opt list \<Rightarrow> ('s, 'd) io" where
  "cli_post C apiSrvAddr path req resp opts s =
     (case cl_json C req of
        Inl e \<Rightarrow> (Inl e, s)
      | Inr httpReqBody \<Rightarrow>
          (case cl_new_req C (apiSrvAddr @ path) of
             Some e \<Rightarrow> (Inl e, s)
           | None \<Rightarrow>
               (case apply_opts opts 0 of
                  Inl e \<Rightarrow> (Inl e, s)
                | Inr timeout \<Rightarrow>
                    (case cl_do C (apiSrvAddr @ path) httpReqBody (http_timeout timeout) s of
                       (Inl e, s1) \<Rightarrow> (Inl e, s1)
                     | (Inr httpRespBody, s1) \<Rightarrow>
                         (case cl_resp_json C httpRespBody
                                 \<lparr>fr_Code = 0, fr_Msg = [], fr_Data = Some resp, fr_Hint = []\<rparr> of
                            (Some e, formattedResp) \<Rightarrow> (Inl e, s1)
                          | (None, formattedResp) \<Rightarrow>
                              if fr_Code formattedResp > 0
                              then (Inl (newBizErrWithMsg (fr_Code formattedResp) (fr_Msg formattedResp)), s1)
                              else (Inr (case fr_Data formattedResp of Some d \<Rightarrow> d | None \<Rightarrow> resp), s1))))))"

definition cli_add_task ::
    "('s, api_msg, api_data) cli_lib \<Rightarrow> string \<Rightarrow> http_add_task_req \<Rightarrow> http_req_opt list \<Rightarrow> ('s, api_data) io" where
  "cli_add_task C addr req opts =
     cli_post C addr AddTaskCmdPath (MAddTask req) (DAddTask \<lparr>had_TaskId = []\<rparr>) opts"

definition cli_stop_task ::
    "('s, api_msg, api_data) cli_lib \<Rightarrow> string \<Rightarrow> http_stop_task_req \<Rightarrow> http_req_opt list \<Rightarrow> ('s, api_data) io" where
  "cli_stop_task C addr req opts = cli_post C addr StopTaskCmdPath (MStopTask req) DStopTask opts"

definition cli_confirm_task ::
    "('s, api_msg, api_data) cli_lib \<Rightarrow> string \<Rightarrow> http_confirm_task_req \<Rightarrow> http_req_opt list \<Rightarrow> ('s, api_data) io" where
  "cli_confirm_task C addr req opts = cli_post C addr ConfirmTaskCmdPath (MConfirmTask req) DConfirmTask opts"

definition cli_register ::
    "('s, api_msg, api_data) cli_lib \<Rightarrow> string \<Rightarrow> http_register_req \<Rightarrow> http_req_opt list \<Rightarrow> ('s, api_data) io" where
  "cli_register C addr req opts =
     cli_post C addr RegisterTaskCallbackSrvCmdPath (MRegister req) DRegister opts"

definition cli_unregister ::
    "('s, api_msg, api_data) cli_lib \<Rightarrow> string \<Rightarrow> http_unregister_req \<Rightarrow> http_req_opt list \<Rightarrow> ('s, api_data) io" where
  "cli_unregister C addr req opts =
     cli_post C addr UnregisterTaskCallbackSrvCmdPath (MUnregister req) DUnregister opts"

text \<open>The five calls as one function of the message.\<close>

fun cli_call ::
    "('s, api_msg, api_data) cli_lib \<Rightarrow> string \<Rightarrow> api_msg \<Rightarrow> http_req_opt list \<Rightarrow> ('s, api_data) io" where
  "cli_call C addr (MAddTask q) opts = cli_add_task C addr q opts"
| "cli_call C addr (MStopTask q) opts = cli_stop_task C addr q opts"
| "cli_call C addr (MConfirmTask q) opts = cli_confirm_task C addr q opts"
| "cli_call C addr (MRegister q) opts = cli_register C addr q opts"
| "cli_call C addr (MUnregister q) opts = cli_unregister C addr q opts"

section \<open>What the two ends rely on\<close>

definition ascii :: "string \<Rightarrow> bool" where
  "ascii t \<longleftrightarrow> list_all (\<lambda>c. (of_char c :: nat) < 128) t"

fun ascii_msg :: "api_msg \<Rightarrow> bool" where
  "ascii_msg (MAddTask q) \<longleftrightarrow>
     ascii (ha_Name q) \<and> ascii (ha_SrvName q) \<and> ascii (ha_CallbackPath q) \<and> ascii (ha_TimeCron q) \<and>
     ascii (ha_Arg q) \<and> ascii (ha_BizId q)"
| "ascii_msg (MStopTask q) \<longleftrightarrow> ascii (hst_TaskId q)"
| "ascii_msg (MConfirmTask q) \<longleftrightarrow> ascii (hct_TaskId q) \<and> ascii (hct_Extra q)"
| "ascii_msg (MRegister q) \<longleftrightarrow> ascii (hrg_Name q) \<and> ascii (hrg_Schema q) \<and> ascii (hrg_Host q)"
| "ascii_msg (MUnregister q) \<longleftrightarrow> ascii (hun_Name q) \<and> ascii (hun_Schema q) \<and> ascii (hun_Host q)"

fun ascii_data :: "api_data \<Rightarrow> bool" where
  "ascii_data (DAddTask r) \<longleftrightarrow> ascii (had_TaskId r)"
| "ascii_data d \<longleftrightarrow> True"

definition ascii_resp :: "api_data final_resp \<Rightarrow> bool" where
  "ascii_resp r \<longleftrightarrow> ascii (fr_Msg r) \<and> ascii (fr_Hint r) \<and> (\<forall>d. fr_Data r = Some d \<longrightarrow> ascii_data d)"

text \<open>The response struct a client decodes into is the one the handler answers with.\<close>

fun zero_data :: "api_msg \<Rightarrow> api_data" where
  "zero_data (MAddTask q) = DAddTask \<lparr>had_TaskId = []\<rparr>"
| "zero_data (MStopTask q) = DStopTask"
| "zero_data (MConfirmTask q) = DConfirmTask"
| "zero_data (MRegister q) = DRegister"
| "zero_data (MUnregister q) = DUnregister"

fun same_struct :: "api_data \<Rightarrow> api_data \<Rightarrow> bool" where
  "same_struct (DAddTask a) (DAddTask b) \<longleftrightarrow> True"
| "same_struct a b \<longleftrightarrow> a = b"

locale http_codec =
  fixes C :: "('s, api_msg, api_data) cli_lib" and HL :: "(api_msg, api_data) http_lib"
  assumes req_json: "ascii_msg q \<Longrightarrow> \<exists>body. cl_json C q = Inr body \<and>
      (\<forall>req. rq_Method req = ''POST'' \<longrightarrow> rq_Body req = body \<longrightarrow> hl_post_arg HL (msg_type q) req = Inr q)"
    and required: "hl_validate HL q = None \<longleftrightarrow> list_all (\<lambda>f. \<not> snd f) (msg_required q)"
    and required_text: "hl_validate HL q = Some msg \<Longrightarrow> ascii msg"
    and resp_json: "ascii_resp r \<Longrightarrow> (\<And>d. fr_Data r = Some d \<Longrightarrow> same_struct d d0) \<Longrightarrow>
      \<exists>raw. hl_json HL r = Inr raw \<and>
        cl_resp_json C raw \<lparr>fr_Code = 0, fr_Msg = [], fr_Data = Some d0, fr_Hint = []\<rparr> = (None, r)"

definition api_link ::
    "('s, api_msg, api_data) cli_lib \<Rightarrow> (api_msg, api_data) http_lib \<Rightarrow> 's api \<Rightarrow> string \<Rightarrow> bool" where
  "api_link C HL A addr \<longleftrightarrow>
     (\<forall>path body timeout s raw t. cl_do C (addr @ path) body timeout s = (Inr raw, t) \<longrightarrow>
       (\<exists>isPaused tid clock. ascii tid \<and>
          mux_serve HL (api_map A clock) isPaused tid
            \<lparr>rq_Method = ''POST'', rq_Path = path, rq_Body = body\<rparr> s = (Inr (Some raw), t))) \<and>
     (\<forall>path body timeout s e t. cl_do C (addr @ path) body timeout s = (Inl e, t) \<longrightarrow>
       (\<exists>txt. e = HttpErr txt) \<and>
       (t = s \<or> (\<exists>isPaused tid clock.
          t = snd (mux_serve HL (api_map A clock) isPaused tid
                \<lparr>rq_Method = ''POST'', rq_Path = path, rq_Body = body\<rparr> s))))"

text \<open>The texts a handler answers with are ASCII.\<close>

definition ascii_answers :: "'s api \<Rightarrow> api_msg \<Rightarrow> 's \<Rightarrow> bool" where
  "ascii_answers A q s \<longleftrightarrow>
     (\<forall>now nowLog. (\<forall>d. fst (api_call A now nowLog q s) = Inr d \<longrightarrow> ascii_data d) \<and>
        (\<forall>code msg. fst (api_call A now nowLog q s) = Inl (BizError code msg) \<longrightarrow> ascii msg))"

lemma ascii_answersD:
  assumes "ascii_answers A q s" "api_call A now nowLog q s = (r, t)"
  shows "r = Inr d \<Longrightarrow> ascii_data d" "r = Inl (BizError code msg) \<Longrightarrow> ascii msg"
  using assms(1) [unfolded ascii_answers_def, rule_format, of now nowLog] assms(2) by simp_all

section \<open>A call of the client\<close>

lemma cli_call_post: "cli_call C addr q opts = cli_post C addr (msg_path q) q (zero_data q) opts"
  by (cases q) (simp_all add: cli_add_task_def cli_stop_task_def cli_confirm_task_def cli_register_def
      cli_unregister_def)

lemma api_call_struct: "api_call A now nowLog q s = (Inr d, t) \<Longrightarrow> same_struct d (zero_data q)"
  by (cases q) (auto simp: reply_def bind_io_ok)

lemma ascii_getErrMsg: "ascii (getErrMsg code)"
  by (simp add: getErrMsg_def errMap_def ascii_def)

text \<open>What a client is told of a handler's answer, and when the server has answered.\<close>

definition told :: "api_msg \<Rightarrow> go_err + api_data \<Rightarrow> go_err + api_data \<Rightarrow> bool" where
  "told q r res \<longleftrightarrow>
     (case r of
        Inr d \<Rightarrow> res = Inr d
      | Inl (Panic p) \<Rightarrow> False
      | Inl (BizError code msg) \<Rightarrow>
          res = (if code > 0 then Inl (BizError code (if msg = [] then getErrMsg code else msg))
                 else Inr (zero_data q))
      | Inl e \<Rightarrow> res = Inl (newBizErr ErrCodeInternal))"

definition client_outcome :: "'s api \<Rightarrow> api_msg \<Rightarrow> 's \<Rightarrow> go_err + api_data \<Rightarrow> 's \<Rightarrow> bool" where
  "client_outcome A q s res t \<longleftrightarrow>
     res = Inl (newBizErr ErrCodeServerStopped) \<and> t = s \<or>
     (\<exists>msg. res = Inl (BizError ErrCodeArgsInvalid msg)) \<and> t = s \<and>
       \<not> list_all (\<lambda>f. \<not> snd f) (msg_required q) \<or>
     list_all (\<lambda>f. \<not> snd f) (msg_required q) \<and>
       (\<exists>now nowLog r. api_call A now nowLog q s = (r, t) \<and> told q r res)"

text \<open>The last step of \<open>post\<close>.\<close>

definition cli_read :: "('s, 'q, 'd) cli_lib \<Rightarrow> 'd \<Rightarrow> string \<Rightarrow> go_err + 'd" where
  "cli_read C resp raw =
     (case cl_resp_json C raw \<lparr>fr_Code = 0, fr_Msg = [], fr_Data = Some resp, fr_Hint = []\<rparr> of
        (Some e, f) \<Rightarrow> Inl e
      | (None, f) \<Rightarrow> if fr_Code f > 0 then Inl (newBizErrWithMsg (fr_Code f) (fr_Msg f))
                     else Inr (case fr_Data f of Some d \<Rightarrow> d | None \<Rightarrow> resp))"

lemma cli_post_read:
  assumes "cl_json C q = Inr body" "cl_new_req C (addr @ path) = None"
  shows "cli_post C addr path q resp [] s =
    (case cl_do C (addr @ path) body None s of
       (Inl e, t) \<Rightarrow> (Inl e, t) | (Inr raw, t) \<Rightarrow> (cli_read C resp raw, t))"
  using assms by (auto simp: cli_post_def cli_read_def http_timeout_def split: prod.splits sum.splits option.splits)

context http_codec
begin

lemma read_err:
  assumes "resp_err HL code msg tid = Some raw" "ascii msg" "ascii tid"
  shows "cli_read C d0 raw =
    (if code > 0 then Inl (BizError code (if msg = [] then getErrMsg code else msg)) else Inr d0)"
proof -
  let ?m = "if msg = [] then getErrMsg code else msg"
  let ?r = "\<lparr>fr_Code = code, fr_Msg = ?m, fr_Data = None, fr_Hint = tid\<rparr> :: api_data final_resp"
  have "ascii_resp ?r" using assms(2,3) by (simp add: ascii_resp_def ascii_getErrMsg)
  from resp_json [OF this, of d0] obtain raw' where "hl_json HL ?r = Inr raw'"
    "cl_resp_json C raw' \<lparr>fr_Code = 0, fr_Msg = [], fr_Data = Some d0, fr_Hint = []\<rparr> = (None, ?r)"
    by auto
  with assms(1) show ?thesis by (simp add: resp_err_def Let_def cli_read_def newBizErrWithMsg_def)
qed

lemma read_data:
  assumes "hl_json HL \<lparr>fr_Code = 0, fr_Msg = [], fr_Data = Some d, fr_Hint = tid\<rparr> = Inr raw"
    "ascii_data d" "ascii tid" "same_struct d d0"
  shows "cli_read C d0 raw = Inr d"
proof -
  let ?r = "\<lparr>fr_Code = 0, fr_Msg = [], fr_Data = Some d, fr_Hint = tid\<rparr>"
  have "ascii_resp ?r" using assms(2,3) by (simp add: ascii_resp_def ascii_def)
  from resp_json [OF this, of d0] assms(1,4) show ?thesis by (auto simp: cli_read_def)
qed

lemma data_json: "ascii_data d \<Longrightarrow> ascii tid \<Longrightarrow>
    \<exists>raw. hl_json HL \<lparr>fr_Code = 0, fr_Msg = [], fr_Data = Some d, fr_Hint = tid\<rparr> = Inr raw"
  using resp_json [of "\<lparr>fr_Code = 0, fr_Msg = [], fr_Data = Some d, fr_Hint = tid\<rparr>" d]
  by (cases d) (auto simp: ascii_resp_def ascii_def)

text \<open>What the server writes for a message, and what the client reads from it.\<close>

lemma handler_told:
  assumes "mm ''POST'' = Some h" "decode_req HL (hf_req h) req = Inr q" "hl_validate HL q = None"
    and "rq_Method req = ''POST''" and call: "call_handler h q s = (r, t')"
    and run: "handle_request HL mm False tid req s = (Inr (Some raw), t)" and tid: "ascii tid"
    and data: "\<And>d. r = Inr d \<Longrightarrow> ascii_data d \<and> same_struct d (zero_data q)"
    and msg: "\<And>code msg. r = Inl (BizError code msg) \<Longrightarrow> ascii msg"
  shows "t' = t \<and> told q r (cli_read C (zero_data q) raw)"
proof (cases r)
  case (Inr d)
  with data_json [OF _ tid, of d] data obtain raw' where
    j: "hl_json HL \<lparr>fr_Code = 0, fr_Msg = [], fr_Data = Some d, fr_Hint = tid\<rparr> = Inr raw'" by blast
  then have "raw' = raw" "t' = t" using run assms(1-4) call Inr by (simp_all add: handle_request_def)
  with read_data [OF j _ tid] data Inr show ?thesis by (simp add: told_def)
next
  case e: (Inl e)
  note unf = handle_request_def assms(1-4) call e
  show ?thesis
  proof (cases "\<exists>code msg. e = BizError code msg")
    case True
    then obtain code m where b: "e = BizError code m" by blast
    then have "resp_err HL code m tid = Some raw" "t' = t" using run by (simp_all add: unf)
    with read_err [OF this(1) _ tid] msg e b show ?thesis by (simp add: told_def)
  next
    case False
    then have *: "\<not> (\<exists>p. e = Panic p) \<and> resp_err HL ErrCodeInternal [] tid = Some raw \<and> t' = t"
      using run by (cases e) (simp_all add: unf)
    then have "cli_read C (zero_data q) raw = Inl (newBizErr ErrCodeInternal)"
      using read_err [of ErrCodeInternal "[]" tid raw] tid
      by (simp add: newBizErr_eq ascii_def ErrCodeInternal_def)
    with * False e show ?thesis by (cases e) (simp_all add: told_def)
  qed
qed

lemma served_outcome:
  assumes vld: "validator_law (ap_vld A)" and q: "ascii_msg q" "ascii_answers A q s"
    and body: "cl_json C q = Inr body" and tid: "ascii tid"
    and served: "mux_serve HL (api_map A clock) p tid
      \<lparr>rq_Method = ''POST'', rq_Path = msg_path q, rq_Body = body\<rparr> s = (Inr (Some raw), t)"
  shows "client_outcome A q s (cli_read C (zero_data q) raw) t"
proof -
  obtain now nowLog where clock: "clock = (now, nowLog)" by (cases clock)
  let ?req = "\<lparr>rq_Method = ''POST'', rq_Path = msg_path q, rq_Body = body\<rparr>"
  let ?h = "\<lparr>hf_handler = api_handler A now nowLog (msg_struct q) (resp_struct q), hf_req = msg_type q\<rparr>"
  have run: "handle_request HL [''POST'' \<mapsto> ?h] p tid ?req s = (Inr (Some raw), t)"
    using served by (simp add: mux_serve_def clock api_map_path [OF vld])
  have arg: "decode_req HL (hf_req ?h) ?req = Inr q" using req_json [OF q(1)] body by (auto simp: decode_req_def)
  consider (paused) p | (bad) msg where "\<not> p" "hl_validate HL q = Some msg" | (call) "\<not> p" "hl_validate HL q = None"
    by (cases "hl_validate HL q") auto
  then show ?thesis
  proof cases
    case paused
    then have "resp_err HL ErrCodeServerStopped [] tid = Some raw" "t = s"
      using run by (simp_all add: handle_request_paused)
    with read_err [OF this(1)] tid show ?thesis
      by (simp add: client_outcome_def newBizErr_eq ascii_def ErrCodeServerStopped_def)
  next
    case (bad msg)
    then have "resp_err HL ErrCodeArgsInvalid msg tid = Some raw" "t = s"
      using run arg by (simp_all add: handle_request_def)
    with read_err [OF this(1) required_text [OF bad(2)] tid] required [of q] bad(2) show ?thesis
      by (simp add: client_outcome_def ErrCodeArgsInvalid_def)
  next
    case call
    obtain r t' where c: "api_call A now nowLog q s = (r, t')" by fastforce
    have "t' = t \<and> told q r (cli_read C (zero_data q) raw)"
    proof (rule handler_told [OF _ arg call(2) _ _ _ tid])
      show "call_handler ?h q s = (r, t')" by (simp add: call_api_handler c)
      show "handle_request HL [''POST'' \<mapsto> ?h] False tid ?req s = (Inr (Some raw), t)" using run call(1) by simp
    qed (use ascii_answersD [OF q(2) c] api_call_struct [of A now nowLog q s] c in auto)
    with c required [of q] call(2) show ?thesis unfolding client_outcome_def by auto
  qed
qed

lemma serve_state:
  assumes "validator_law (ap_vld A)" "ascii_msg q" "cl_json C q = Inr body"
    and "snd (mux_serve HL (api_map A clock) p tid
      \<lparr>rq_Method = ''POST'', rq_Path = msg_path q, rq_Body = body\<rparr> s) = t"
  shows "t = s \<or> (\<exists>now nowLog. t = snd (api_call A now nowLog q s))"
proof -
  obtain now nowLog where clock: "clock = (now, nowLog)" by (cases clock)
  let ?req = "\<lparr>rq_Method = ''POST'', rq_Path = msg_path q, rq_Body = body\<rparr>"
  let ?h = "\<lparr>hf_handler = api_handler A now nowLog (msg_struct q) (resp_struct q), hf_req = msg_type q\<rparr>"
  have arg: "decode_req HL (msg_type q) ?req = Inr q"
    using req_json [OF assms(2)] assms(3) by (auto simp: decode_req_def)
  have "t = snd (handle_request HL [''POST'' \<mapsto> ?h] p tid ?req s)"
    using assms(4) by (simp add: mux_serve_def clock api_map_path [OF assms(1)])
  with handle_request_frame [of HL "[''POST'' \<mapsto> ?h]" p tid ?req s] arg show ?thesis
    by (auto simp: api_handler_def)
qed

theorem call_outcome:
  assumes vld: "validator_law (ap_vld A)" and q: "ascii_msg q" "ascii_answers A q s"
    and link: "api_link C HL A addr" and new: "cl_new_req C (addr @ msg_path q) = None"
    and run: "cli_call C addr q [] s = (res, t)"
  shows "client_outcome A q s res t \<or>
    (\<exists>txt. res = Inl (HttpErr txt)) \<and> (t = s \<or> (\<exists>now nowLog. t = snd (api_call A now nowLog q s)))"
proof -
  obtain body where body: "cl_json C q = Inr body" using req_json [OF q(1)] by blast
  note post = cli_post_read [OF body new, of "zero_data q" s, folded cli_call_post]
  show ?thesis
  proof (cases "cl_do C (addr @ msg_path q) body None s")
    case (Pair r u)
    show ?thesis
    proof (cases r)
      case (Inr raw)
      with run post Pair have "res = cli_read C (zero_data q) raw" "t = u" by simp_all
      moreover from link [unfolded api_link_def] Pair Inr obtain p tid clock where "ascii tid"
        "mux_serve HL (api_map A clock) p tid
          \<lparr>rq_Method = ''POST'', rq_Path = msg_path q, rq_Body = body\<rparr> s = (Inr (Some raw), u)" by blast
      ultimately show ?thesis using served_outcome [OF vld q body] by blast
    next
      case (Inl e)
      with run post Pair have "res = Inl e" "t = u" by simp_all
      moreover from link [unfolded api_link_def] Pair Inl have "\<exists>txt. e = HttpErr txt"
        "u = s \<or> (\<exists>p tid clock. u = snd (mux_serve HL (api_map A clock) p tid
                \<lparr>rq_Method = ''POST'', rq_Path = msg_path q, rq_Body = body\<rparr> s))" by blast+
      ultimately show ?thesis using serve_state [OF vld q(1) body] by blast
    qed
  qed
qed

end

end
