(* ===== verification/Repo_Props.thy ===== *)
theory Repo_Props
  imports Mem_Store
begin

text \<open>
  The properties of the MySQL repositories, over any database that meets the contract
  \<open>easytask_store\<close> and any contents that meet the invariant \<open>store_inv\<close>. Each witness applies
  its property to a concrete run on the store in memory.
\<close>

section \<open>Helpers of the witnesses\<close>

lemma easytask_sql: "easytask_store S co clk view L \<Longrightarrow> sql_store S co clk view"
  by (rule easytask_store.axioms)

section \<open>Locking\<close>

context easytask_store
begin

lemma takes_run:
  assumes "inv_db db"
    and "lock_task L S (mysql_log_repo S) now nowSched nowLog t db = (Inr True, t', db')"
  shows "\<exists>w nxt r i n srvId.
    checkedTaskModelId (t_id t) = Inr w \<and> get_sched_next_at (lb_cron L) nowSched t = Inr nxt \<and>
    r \<in> set (tb_task (view db)) \<and> bm_DeletedAt r = 0 \<and> bm_Id r = w \<and>
    tm_RunTimes r = t_runTimes t \<and> tm_LastRunAt r = t_lastRunAt t \<and> t' = incr_run_times t \<and>
    (\<forall>y \<in> set (tb_log (view db)). \<not> (lm_TaskId y = w \<and> lm_RunTimes y = t_runTimes t')) \<and>
    view db' =
      (view db)\<lparr>tb_task := map (\<lambda>x. if x = r then locked_row now nxt (clk db) r else x) (tb_task (view db)),
        tb_log := tb_log (view db) @
          [stamped i n (zero_log_model\<lparr>lm_TaskId := w, lm_StartedAt := nowLog,
             lm_TaskStatus := statusRunning, lm_RunTimes := t_runTimes t', lm_SrvId := srvId\<rparr>)]\<rparr>"
proof -
  from assms(2,1) obtain w nxt r i n srvId where
    c: "t' = incr_run_times t" "checkedTaskModelId (t_id t) = Inr w"
    "get_sched_next_at (lb_cron L) nowSched t = Inr nxt" "r \<in> set (tb_task (view db))"
    "bm_DeletedAt r = 0" "bm_Id r = w" "tm_LastRunAt r = t_lastRunAt t" "tm_RunTimes r = t_runTimes t"
    and tk: "tb_task (view db') =
       map (\<lambda>x. if x = r then locked_row now nxt (clk db) r else x) (tb_task (view db))"
    and sr: "tb_srv (view db') = tb_srv (view db)" "tb_route (view db') = tb_route (view db)"
    and lg: "tb_log (view db') = tb_log (view db) @
       [stamped i n (zero_log_model\<lparr>lm_TaskId := w, lm_StartedAt := nowLog,
          lm_TaskStatus := statusRunning, lm_RunTimes := t_runTimes t', lm_SrvId := srvId\<rparr>)]"
    and new: "\<forall>y \<in> set (tb_log (view db)). \<not> (lm_TaskId y = w \<and> lm_RunTimes y = t_runTimes t')"
    by (rule lock_task_True)
  have "view db' =
      (view db)\<lparr>tb_task := map (\<lambda>x. if x = r then locked_row now nxt (clk db) r else x) (tb_task (view db)),
        tb_log := tb_log (view db) @
          [stamped i n (zero_log_model\<lparr>lm_TaskId := w, lm_StartedAt := nowLog,
             lm_TaskStatus := statusRunning, lm_RunTimes := t_runTimes t', lm_SrvId := srvId\<rparr>)]\<rparr>"
    by (rule tables.equality) (simp_all add: tk sr lg)
  with c new show ?thesis by (intro exI conjI)
qed

lemma refuses_stale:
  assumes inv: "inv_db db" and "checkedTaskModelId (t_id t) = Inr w"
    and "\<forall>r \<in> set (tb_task (view db)). bm_Id r = w \<longrightarrow>
      bm_DeletedAt r \<noteq> 0 \<or> tm_RunTimes r \<noteq> t_runTimes t \<or> tm_LastRunAt r \<noteq> t_lastRunAt t"
  shows "\<exists>b db'. lock_task L S (mysql_log_repo S) now nowSched nowLog t db = (b, t, db') \<and>
    b \<noteq> Inr True \<and> view db' = view db"
proof -
  obtain b t' db' where run: "lock_task L S (mysql_log_repo S) now nowSched nowLog t db = (b, t', db')"
    by (rule prod_cases3)
  from run inv have "b \<noteq> Inr True \<and> t' = t \<and> view db' = view db"
    by (cases rule: lock_task_cases) (use assms(2,3) in auto)
  with run show ?thesis by auto
qed

lemma log_failure:
  assumes inv: "inv_db db"
    and run: "lock_task L S (mysql_log_repo S) now nowSched nowLog t db = (Inl e, t', db')" and "t' \<noteq> t"
  shows "\<exists>w. checkedTaskModelId (t_id t) = Inr w \<and> run_no (view db) w = Some (t_runTimes t) \<and>
    run_no (view db') w = Some (t_runTimes t + 1) \<and> tb_log (view db') = tb_log (view db)"
proof -
  note inv' = lock_task_effect(1) [OF run inv]
  from run inv show ?thesis
  proof (cases rule: lock_task_cases)
    case (taken w nxt r db1)
    then have v: "view db' = view db1" using save_started_err by auto
    have "locked_row now nxt (clk db) r \<in> set (tb_task (view db'))"
      using taken(4,9) v by auto
    then have "run_no (view db') w = Some (t_runTimes t + 1)"
      using run_no_iff [OF inv'] taken(6,8) by (force simp: locked_row_def)
    moreover have "run_no (view db) w = Some (t_runTimes t)"
      using run_no_iff [OF inv] taken(4,6,8) by auto
    ultimately show ?thesis using taken(2,9) v by auto
  qed (use assms(3) in auto)
qed

end

text \<open>
  C3. A granted lock consumes exactly one run of the task the caller read: the live row with the
  caller's identifier, run number and last run time gets the next run number, the new last run
  time and the next planned time, one log row for the new run number is added with status
  running, and nothing else in the database changes. The caller's task object counts up too.
\<close>

lemma lock_task_takes_run:
  assumes "easytask_store S co clk view L" "store_inv co (view db)"
    and "lock_task L S (mysql_log_repo S) now nowSched nowLog t db = (Inr True, t', db')"
  shows "\<exists>w nxt r i n srvId.
    checkedTaskModelId (t_id t) = Inr w \<and> get_sched_next_at (lb_cron L) nowSched t = Inr nxt \<and>
    r \<in> set (tb_task (view db)) \<and> bm_DeletedAt r = 0 \<and> bm_Id r = w \<and>
    tm_RunTimes r = t_runTimes t \<and> tm_LastRunAt r = t_lastRunAt t \<and> t' = incr_run_times t \<and>
    (\<forall>y \<in> set (tb_log (view db)). \<not> (lm_TaskId y = w \<and> lm_RunTimes y = t_runTimes t')) \<and>
    view db' =
      (view db)\<lparr>tb_task := map (\<lambda>x. if x = r then locked_row now nxt (clk db) r else x) (tb_task (view db)),
        tb_log := tb_log (view db) @
          [stamped i n (zero_log_model\<lparr>lm_TaskId := w, lm_StartedAt := nowLog,
             lm_TaskStatus := statusRunning, lm_RunTimes := t_runTimes t', lm_SrvId := srvId\<rparr>)]\<rparr>"
  by (rule easytask_store.takes_run [OF assms])

lemma lock_task_takes_run_witness:
  "\<exists>t' db'. lock_task ref_libs mem_store (mysql_log_repo mem_store) 1000 1000 1000 demo_task demo_mem =
      (Inr True, t', db') \<and> t' = incr_run_times demo_task"
proof -
  let ?run = "lock_task ref_libs mem_store (mysql_log_repo mem_store) 1000 1000 1000 demo_task demo_mem"
  have "fst ?run = Inr True" by code_simp
  then obtain t' db' where run: "?run = (Inr True, t', db')" by (rule fst_eqE3)
  from lock_task_takes_run [OF mem_is_easytask demo_inv run]
  have "t' = incr_run_times demo_task" by blast
  with run show ?thesis by blast
qed

text \<open>
  C4. A caller whose copy of the task is out of date takes nothing: unless a live row carries the
  caller's identifier, run number and last run time, the lock is not granted and the database
  and the caller's task object stay as they are.
\<close>

lemma lock_task_refuses_stale:
  assumes "easytask_store S co clk view L" "store_inv co (view db)"
    and "checkedTaskModelId (t_id t) = Inr w"
    and "\<forall>r \<in> set (tb_task (view db)). bm_Id r = w \<longrightarrow>
      bm_DeletedAt r \<noteq> 0 \<or> tm_RunTimes r \<noteq> t_runTimes t \<or> tm_LastRunAt r \<noteq> t_lastRunAt t"
  shows "\<exists>b db'. lock_task L S (mysql_log_repo S) now nowSched nowLog t db = (b, t, db') \<and>
    b \<noteq> Inr True \<and> view db' = view db"
  by (rule easytask_store.refuses_stale [OF assms])

lemma lock_task_refuses_stale_witness:
  "\<exists>b db'. lock_task ref_libs mem_store (mysql_log_repo mem_store) 1000 1000 1000
      (demo_task\<lparr>t_runTimes := 5\<rparr>) demo_mem = (b, demo_task\<lparr>t_runTimes := 5\<rparr>, db') \<and>
    b \<noteq> Inr True \<and> mm_tabs db' = mm_tabs demo_mem"
proof (rule lock_task_refuses_stale [OF mem_is_easytask demo_inv])
  show "checkedTaskModelId (t_id (demo_task\<lparr>t_runTimes := 5\<rparr>)) = Inr 7" by code_simp
  show "\<forall>r \<in> set (tb_task (mm_tabs demo_mem)). bm_Id r = 7 \<longrightarrow>
      bm_DeletedAt r \<noteq> 0 \<or> tm_RunTimes r \<noteq> t_runTimes (demo_task\<lparr>t_runTimes := 5\<rparr>) \<or>
      tm_LastRunAt r \<noteq> t_lastRunAt (demo_task\<lparr>t_runTimes := 5\<rparr>)" by code_simp
qed

text \<open>
  When the log row of a granted run cannot be written, \<open>LockTask\<close> reports the error but the
  run number stays consumed: the row already counts the run that nobody will carry out.
\<close>

lemma lock_task_log_failure:
  assumes "easytask_store S co clk view L" "store_inv co (view db)"
    and "lock_task L S (mysql_log_repo S) now nowSched nowLog t db = (Inl e, t', db')" "t' \<noteq> t"
  shows "\<exists>w. checkedTaskModelId (t_id t) = Inr w \<and> run_no (view db) w = Some (t_runTimes t) \<and>
    run_no (view db') w = Some (t_runTimes t + 1) \<and> tb_log (view db') = tb_log (view db)"
  by (rule easytask_store.log_failure [OF assms])

definition demo_log_fault :: mem where
  "demo_log_fault = demo_mem\<lparr>mm_faults := [False, True]\<rparr>"

lemma lock_task_log_failure_witness:
  "\<exists>e t' db'. lock_task ref_libs mem_store (mysql_log_repo mem_store) 1000 1000 1000 demo_task
      demo_log_fault = (Inl e, t', db') \<and> run_no (mm_tabs db') 7 = Some 1"
proof -
  let ?run = "lock_task ref_libs mem_store (mysql_log_repo mem_store) 1000 1000 1000 demo_task demo_log_fault"
  have "fst ?run = Inl (DbErr ''connection lost'')" "fst (snd ?run) \<noteq> demo_task"
    by code_simp+
  then obtain t' db' where run: "?run = (Inl (DbErr ''connection lost''), t', db')"
    by (elim fst_eqE3)
  have ne: "t' \<noteq> demo_task"
    using \<open>fst (snd ?run) \<noteq> demo_task\<close> by (simp add: run)
  have "store_inv mem_co (mm_tabs demo_log_fault)" "checkedTaskModelId (t_id demo_task) = Inr 7"
    "t_runTimes demo_task = 0"
    by code_simp+
  with lock_task_log_failure [OF mem_is_easytask _ run ne] run show ?thesis by auto
qed

section \<open>Stopping and paging\<close>

context easytask_store
begin

lemma stopped:
  assumes inv: "inv_db db" and del: "del_task_by_id S i db = (Inr u, db1)"
  shows "\<exists>w. checkedTaskModelId i = Inr w \<and>
    (\<forall>r \<in> set (tb_task (view db1)). bm_Id r = w \<longrightarrow> bm_DeletedAt r \<noteq> 0) \<and>
    (\<forall>now nowSched nowLog t. checkedTaskModelId (t_id t) = Inr w \<longrightarrow>
       fst (lock_task L S (mysql_log_repo S) now nowSched nowLog t db1) \<noteq> Inr True) \<and>
    (\<forall>now lim cursor ts nxt db2. 0 < lim \<longrightarrow>
       timeout_tasks L S (mysql_srv_repo L S) now lim cursor db1 = (Inr (ts, nxt), db2) \<longrightarrow>
       toTaskEntityId w \<notin> t_id ` set ts)"
proof -
  obtain w n where w: "checkedTaskModelId i = Inr w"
    and run: "op_delete (st_task S) (where_q [CEq DbFieldId (VId w)]) db = (Inr n, db1)"
    using del by (auto simp: del_task_by_id_def bind_io_ok)
  have inv1: "inv_db db1" by (rule pres_ioD [OF pres_task_ops(1) del inv])
  have dead: "\<forall>r \<in> set (tb_task (view db1)). bm_Id r = w \<longrightarrow> bm_DeletedAt r \<noteq> 0"
  proof -
    have rows: "tb_task (view db1) = map (\<lambda>r. if bm_DeletedAt r = 0 \<and> bm_Id r = w
        then r\<lparr>bm_DeletedAt := clk db\<rparr> else r) (tb_task (view db))"
      using task_delete [OF run] by (simp add: del_rows_def)
    have "bm_DeletedAt y \<noteq> 0"
      if x: "y = (if bm_DeletedAt x = 0 \<and> bm_Id x = w then x\<lparr>bm_DeletedAt := clk db\<rparr> else x)"
        and y: "bm_Id y = w" for x y
      using x y tk.clk_pos [of db] by (cases "bm_DeletedAt x = 0 \<and> bm_Id x = w") auto
    then show ?thesis unfolding rows set_map by blast
  qed
  moreover have "fst (lock_task L S (mysql_log_repo S) now nowSched nowLog t db1) \<noteq> Inr True"
    if t: "checkedTaskModelId (t_id t) = Inr w" for now nowSched nowLog t
    using refuses_stale [OF inv1 t, of now nowSched nowLog] dead by auto
  moreover have "toTaskEntityId w \<notin> t_id ` set ts"
    if "0 < lim" "timeout_tasks L S (mysql_srv_repo L S) now lim cursor db1 = (Inr (ts, nxt), db2)"
    for now lim cursor ts nxt db2
  proof
    assume "toTaskEntityId w \<in> t_id ` set ts"
    then obtain t where t: "t \<in> set ts" "t_id t = toTaskEntityId w" by auto
    from that(2) inv1 that(1) obtain c ms where "due_page now lim c (tb_task (view db1)) ms"
      and ts: "list_all2 (\<lambda>m t. snapshot m t \<and> t_bizId t = tm_BizId m) (filter (served (view db1)) ms) ts"
      by (rule timeout_tasks_ok)
    obtain m where m: "m \<in> set ms" "snapshot m t"
      using list_all2_right [OF ts t(1)] by auto
    then have "m \<in> set (tb_task (view db1))" "due now m" "bm_Id m = w"
      using due_page_set [OF \<open>due_page now lim c (tb_task (view db1)) ms\<close> m(1)] t(2)
      by (auto simp: snapshot_def id_defs)
    with dead show False by (auto simp: due_def)
  qed
  ultimately show ?thesis by (intro exI [of _ w] conjI allI impI w)
qed

lemma timeout_sound:
  assumes inv: "inv_db db" and "0 < lim"
    and run: "timeout_tasks L S (mysql_srv_repo L S) now lim cursor db = (Inr (ts, nxt), db')"
  shows "view db' = view db \<and> nxt = next_cursor ts \<and> length ts \<le> nat lim \<and>
    (\<exists>c. cursor_task_model_id cursor = Inr c \<and>
      (\<forall>t \<in> set ts. \<exists>m \<in> set (tb_task (view db)). snapshot m t \<and> t_bizId t = tm_BizId m \<and>
         due now m \<and> served (view db) m \<and> uint c < uint (bm_Id m)))"
proof -
  from run inv assms(2) obtain c ms where c: "cursor_task_model_id cursor = Inr c" "view db' = view db"
    "nxt = next_cursor ts" and page: "due_page now lim c (tb_task (view db)) ms"
    and ts: "list_all2 (\<lambda>m t. snapshot m t \<and> t_bizId t = tm_BizId m) (filter (served (view db)) ms) ts"
    by (rule timeout_tasks_ok)
  have "length ts = length (filter (served (view db)) ms)"
    using ts by (simp add: list_all2_lengthD)
  also have "\<dots> \<le> length ms" by simp
  also have "\<dots> \<le> nat lim" using page by (auto simp: due_page_def)
  finally have "length ts \<le> nat lim" .
  moreover have "\<exists>m \<in> set (tb_task (view db)). snapshot m t \<and> t_bizId t = tm_BizId m \<and>
         due now m \<and> served (view db) m \<and> uint c < uint (bm_Id m)" if t: "t \<in> set ts" for t
  proof -
    from t ts obtain m where "m \<in> set (filter (served (view db)) ms)" "snapshot m t" "t_bizId t = tm_BizId m"
      by (blast dest: list_all2_right)
    with due_page_set [OF page, of m] show ?thesis by auto
  qed
  ultimately show ?thesis using c by blast
qed

lemma timeout_complete:
  assumes inv: "inv_db db" and lim: "0 < lim"
    and run: "timeout_tasks L S (mysql_srv_repo L S) now lim cursor db = (Inr (ts, nxt), db')"
    and nxt: "nxt = toTaskEntityId l"
    and m: "m \<in> set (tb_task (view db))" "due now m" "served (view db) m" "bm_Id m \<le> l"
    and c: "cursor_task_model_id cursor = Inr c" "uint c < uint (bm_Id m)"
  shows "\<exists>t \<in> set ts. snapshot m t"
proof -
  from run inv lim obtain ms where page: "due_page now lim c (tb_task (view db)) ms"
    and ts: "list_all2 (\<lambda>m t. snapshot m t \<and> t_bizId t = tm_BizId m) (filter (served (view db)) ms) ts"
    and nx: "nxt = next_cursor ts"
    by (rule timeout_tasks_ok) (use c(1) in simp)
  have "ts \<noteq> []" using nx nxt by (auto simp: next_cursor_def id_defs)
  then obtain r where r: "r \<in> set ms" "snapshot r (last ts)"
    using list_all2_right [OF ts last_in_set] by auto
  have "bm_Id r = l"
    using r(2) nx nxt \<open>ts \<noteq> []\<close> by (simp add: next_cursor_def snapshot_def id_defs)
  then have "m \<in> set ms"
    using due_page_complete [OF page store_inv_ids [OF inv] m(1,2) c(2) r(1)] m(4) by simp
  with m(3) have "m \<in> set (filter (served (view db)) ms)" by simp
  with list_all2_left [OF ts] show ?thesis by blast
qed

lemma timeout_starves:
  assumes inv: "inv_db db" and lim: "0 < lim"
    and run: "timeout_tasks L S (mysql_srv_repo L S) now lim cursor db = (Inr (ts, nxt), db')"
    and c: "cursor_task_model_id cursor = Inr c"
    and orphans: "nat lim \<le> length (filter (\<lambda>m. uint c < uint (bm_Id m) \<and> due now m \<and>
      (\<forall>m' \<in> set (tb_task (view db)). due now m' \<longrightarrow> served (view db) m' \<longrightarrow> bm_Id m < bm_Id m'))
      (tb_task (view db)))"
  shows "ts = [] \<and> nxt = []"
proof -
  let ?P = "\<lambda>m. uint c < uint (bm_Id m) \<and> due now m"
  let ?O = "\<lambda>m. \<forall>m' \<in> set (tb_task (view db)). due now m' \<longrightarrow> served (view db) m' \<longrightarrow> bm_Id m < bm_Id m'"
  from run inv lim obtain ms where page: "due_page now lim c (tb_task (view db)) ms"
    and ts: "list_all2 (\<lambda>m t. snapshot m t \<and> t_bizId t = tm_BizId m) (filter (served (view db)) ms) ts"
    and nx: "nxt = next_cursor ts"
    by (rule timeout_tasks_ok) (use c(1) in simp)
  obtain xs where xs: "mset xs = mset (filter ?P (tb_task (view db)))" "sorted (map bm_Id xs)"
    and ms: "ms = take (nat lim) xs"
    using page by (auto simp: due_page_def)
  have len: "length (filter Q R) = size (filter_mset Q (mset R))" for Q and R :: "task_model list"
    by (metis mset_filter size_mset)
  have "length (filter (\<lambda>m. ?P m \<and> ?O m) (tb_task (view db))) = size (filter_mset ?O (mset xs))"
    by (simp add: len xs(1) filter_filter_mset ac_simps)
  also have "\<dots> = length (filter ?O xs)" by (simp add: len)
  finally have many: "nat lim \<le> length (filter ?O xs)" using orphans by simp
  have "\<not> served (view db) m" if in_ms: "m \<in> set ms" for m
  proof
    assume served: "served (view db) m"
    obtain j where j: "j < nat lim" "j < length xs" "m = xs ! j"
      using in_ms unfolding ms in_set_conv_nth by auto
    have m: "m \<in> set (tb_task (view db))" "due now m" using due_page_set [OF page in_ms] by auto
    have "i < j" if "i < length xs" "?O (xs ! i)" for i
    proof (rule ccontr)
      assume "\<not> i < j"
      then have "bm_Id (xs ! j) \<le> bm_Id (xs ! i)"
        using sorted_nth_mono [OF xs(2), of j i] that(1) j(2) by simp
      moreover have "bm_Id (xs ! i) < bm_Id m" using that(2) m served by blast
      ultimately show False using j(3) by simp
    qed
    then have "{i. i < length xs \<and> ?O (xs ! i)} \<subseteq> {..<j}" by blast
    from card_mono [OF _ this] have "length (filter ?O xs) \<le> j" by (simp add: length_filter_conv_card)
    with many j(1) show False by simp
  qed
  then have "filter (served (view db)) ms = []" by (simp add: filter_empty_conv)
  with ts nx show ?thesis by (simp add: next_cursor_def)
qed

end

text \<open>
  C11. Stopping a task by its identifier takes it out of circulation: whatever run number a caller
  still holds, no lock on it is granted, and no page of due tasks contains it.
\<close>

lemma stopped_task_never_runs:
  assumes "easytask_store S co clk view L" "store_inv co (view db)"
    and "del_task_by_id S i db = (Inr u, db1)"
  shows "\<exists>w. checkedTaskModelId i = Inr w \<and>
    (\<forall>r \<in> set (tb_task (view db1)). bm_Id r = w \<longrightarrow> bm_DeletedAt r \<noteq> 0) \<and>
    (\<forall>now nowSched nowLog t. checkedTaskModelId (t_id t) = Inr w \<longrightarrow>
       fst (lock_task L S (mysql_log_repo S) now nowSched nowLog t db1) \<noteq> Inr True) \<and>
    (\<forall>now lim cursor ts nxt db2. 0 < lim \<longrightarrow>
       timeout_tasks L S (mysql_srv_repo L S) now lim cursor db1 = (Inr (ts, nxt), db2) \<longrightarrow>
       toTaskEntityId w \<notin> t_id ` set ts)"
  by (rule easytask_store.stopped [OF assms])

lemma stopped_task_never_runs_witness:
  "\<exists>db1. del_task_by_id mem_store ''7'' demo_mem = (Inr (), db1) \<and>
    fst (lock_task ref_libs mem_store (mysql_log_repo mem_store) 1000 1000 1000 demo_task db1) \<noteq> Inr True"
proof -
  have "fst (del_task_by_id mem_store ''7'' demo_mem) = Inr ()" by code_simp
  then obtain db1 where run: "del_task_by_id mem_store ''7'' demo_mem = (Inr (), db1)"
    by (rule fst_eqE)
  have ids: "checkedTaskModelId ''7'' = Inr 7" "checkedTaskModelId (t_id demo_task) = Inr 7"
    by code_simp+
  from stopped_task_never_runs [OF mem_is_easytask demo_inv run] ids run show ?thesis by auto
qed

text \<open>
  C9. Every task on a page stands for a live row that is due at the query's time, has runs left,
  lies behind the cursor and whose service is registered; the page carries the row's run number
  and last run time, it is no longer than asked for, the cursor it answers is its last task, and
  the query changes nothing.
\<close>

lemma timeout_tasks_sound:
  assumes "easytask_store S co clk view L" "store_inv co (view db)" "0 < lim"
    and "timeout_tasks L S (mysql_srv_repo L S) now lim cursor db = (Inr (ts, nxt), db')"
  shows "view db' = view db \<and> nxt = next_cursor ts \<and> length ts \<le> nat lim \<and>
    (\<exists>c. cursor_task_model_id cursor = Inr c \<and>
      (\<forall>t \<in> set ts. \<exists>m \<in> set (tb_task (view db)). snapshot m t \<and> t_bizId t = tm_BizId m \<and>
         due now m \<and> served (view db) m \<and> uint c < uint (bm_Id m)))"
  by (rule easytask_store.timeout_sound [OF assms])

lemma demo_page:
  obtains db' where "timeout_tasks ref_libs mem_store (mysql_srv_repo ref_libs mem_store) 1000 10 [] demo_mem =
    (Inr ([demo_task], ''7''), db')"
proof -
  have "fst (timeout_tasks ref_libs mem_store (mysql_srv_repo ref_libs mem_store) 1000 10 [] demo_mem) =
      Inr ([demo_task], ''7'')" by code_simp
  then show thesis by (rule fst_eqE) (rule that)
qed

lemma timeout_tasks_sound_witness:
  "\<exists>db'. timeout_tasks ref_libs mem_store (mysql_srv_repo ref_libs mem_store) 1000 10 [] demo_mem =
    (Inr ([demo_task], ''7''), db') \<and> mm_tabs db' = mm_tabs demo_mem"
proof -
  obtain db' where run: "timeout_tasks ref_libs mem_store (mysql_srv_repo ref_libs mem_store) 1000 10 []
      demo_mem = (Inr ([demo_task], ''7''), db')" by (rule demo_page)
  have "mm_tabs db' = mm_tabs demo_mem"
    using timeout_tasks_sound [OF mem_is_easytask demo_inv _ run] by simp
  with run show ?thesis by blast
qed

text \<open>
  C10. A page leaves no one out: every due task of a registered service between the cursor of the
  query and the cursor of its answer is on the page.
\<close>

lemma timeout_tasks_complete:
  assumes "easytask_store S co clk view L" "store_inv co (view db)" "0 < lim"
    and "timeout_tasks L S (mysql_srv_repo L S) now lim cursor db = (Inr (ts, nxt), db')"
    and "nxt = toTaskEntityId l" "m \<in> set (tb_task (view db))" "due now m" "served (view db) m"
    and "bm_Id m \<le> l" "cursor_task_model_id cursor = Inr c" "uint c < uint (bm_Id m)"
  shows "\<exists>t \<in> set ts. snapshot m t"
  by (rule easytask_store.timeout_complete [OF assms])

lemma timeout_tasks_complete_witness:
  "\<exists>t \<in> set [demo_task]. snapshot (demo_task_row 7 ''job'') t"
proof -
  obtain db' where run: "timeout_tasks ref_libs mem_store (mysql_srv_repo ref_libs mem_store) 1000 10 []
      demo_mem = (Inr ([demo_task], ''7''), db')" by (rule demo_page)
  have hyps: "''7'' = toTaskEntityId 7" "list_ex (\<lambda>m. m = demo_task_row 7 ''job'') (tb_task (mm_tabs demo_mem))"
    "due 1000 (demo_task_row 7 ''job'')" "served (mm_tabs demo_mem) (demo_task_row 7 ''job'')"
    "bm_Id (demo_task_row 7 ''job'') \<le> 7" "cursor_task_model_id [] = Inr 0"
    "uint (0 :: u64) < uint (bm_Id (demo_task_row 7 ''job''))"
    by code_simp+
  have mem: "demo_task_row 7 ''job'' \<in> set (tb_task (mm_tabs demo_mem))"
    using hyps(2) by (auto simp: list_ex_iff)
  show ?thesis
    by (rule timeout_tasks_complete [OF mem_is_easytask demo_inv _ run hyps(1) mem hyps(3-7)]) simp
qed

text \<open>
  A page full of tasks whose service is gone hides the tasks behind it: when such tasks fill
  the page, the answer is empty with an empty cursor, so the next query starts over at the same
  page.
\<close>

lemma timeout_tasks_starved:
  assumes "easytask_store S co clk view L" "store_inv co (view db)" "0 < lim"
    and "timeout_tasks L S (mysql_srv_repo L S) now lim cursor db = (Inr (ts, nxt), db')"
    and "cursor_task_model_id cursor = Inr c"
    and "nat lim \<le> length (filter (\<lambda>m. uint c < uint (bm_Id m) \<and> due now m \<and>
      (\<forall>m' \<in> set (tb_task (view db)). due now m' \<longrightarrow> served (view db) m' \<longrightarrow> bm_Id m < bm_Id m'))
      (tb_task (view db)))"
  shows "ts = [] \<and> nxt = []"
  by (rule easytask_store.timeout_starves [OF assms])

definition demo_orphan :: mem where
  "demo_orphan = mem_of
     \<lparr>tb_task = [(demo_task_row 3 ''orphan'')\<lparr>tm_CallbackSrvId := 9\<rparr>, demo_task_row 7 ''job''],
      tb_srv = [demo_srv_row], tb_route = [demo_route_row], tb_log = []\<rparr>"

lemma timeout_tasks_starved_witness:
  "\<exists>ts nxt db'. timeout_tasks ref_libs mem_store (mysql_srv_repo ref_libs mem_store) 1000 1 [] demo_orphan =
      (Inr (ts, nxt), db') \<and> ts = [] \<and> nxt = []"
proof -
  let ?run = "timeout_tasks ref_libs mem_store (mysql_srv_repo ref_libs mem_store) 1000 1 [] demo_orphan"
  have "(case fst ?run of Inr p \<Rightarrow> True | Inl e \<Rightarrow> False)" by code_simp
  then obtain ts nxt db' where run: "?run = (Inr (ts, nxt), db')"
    by (cases ?run) (auto split: sum.splits)
  have inv: "store_inv mem_co (mm_tabs demo_orphan)" by code_simp
  have full: "nat 1 \<le> length (filter (\<lambda>m. uint (0 :: u64) < uint (bm_Id m) \<and> due 1000 m \<and>
      (\<forall>m' \<in> set (tb_task (mm_tabs demo_orphan)). due 1000 m' \<longrightarrow> served (mm_tabs demo_orphan) m' \<longrightarrow>
         bm_Id m < bm_Id m')) (tb_task (mm_tabs demo_orphan)))" by code_simp
  have "cursor_task_model_id [] = Inr 0" by code_simp
  with timeout_tasks_starved [OF mem_is_easytask inv _ run _ full] run show ?thesis by simp
qed

section \<open>Adding tasks\<close>

lemma same_key_task:
  "same_key co task_schema x y \<longleftrightarrow> co_eq co (tm_Name x) (tm_Name y) \<and> co_eq co (tm_BizId x) (tm_BizId y)"
  by (simp add: same_key_def task_schema_def task_get_def)

text \<open>What a row says of the task it was written for.\<close>

definition scheduled_as :: "u64 \<Rightarrow> int \<Rightarrow> task \<Rightarrow> task_model \<Rightarrow> bool" where
  "scheduled_as srvId nxt t m \<longleftrightarrow>
     bm_DeletedAt m = 0 \<and> tm_PlanSchedNextAt m = nxt \<and>
     toTaskEntitySchedMode (tm_SchedMode m) = Inr (t_schedMode t) \<and>
     tm_TimeCronExpr m = t_timeCronExpr t \<and> tm_TimeIntervalSec m = t_timeIntervalSec t \<and>
     tm_Arg m = t_arg t \<and> tm_CallbackPath m = t_callbackPath t \<and> tm_CallbackSrvId m = srvId"

context easytask_store
begin

lemma same_task_unique:
  assumes "inv_db db" "x \<in> set (tb_task (view db))" "y \<in> set (tb_task (view db))"
    and "same_task co t x" "same_task co t y"
  shows "x = y"
proof (rule table_inv_unique)
  show "table_inv co task_schema (tb_task (view db))" using assms(1) by (simp add: store_inv_def)
  show "same_key co task_schema x y"
    using assms(4,5) by (auto simp: same_key_task same_task_def intro: co_trans co_sym)
  show "same_key co task_schema x y \<Longrightarrow> same_key co task_schema y x" for x y
    by (auto simp: same_key_task intro: co_sym)
qed (use assms in auto)

lemma add_task_row:
  assumes inv: "inv_db db" and run: "add_task L S now t db = (Inr taskId, db')" and ok: "taskId \<noteq> []"
  obtains srvId schedMode nxt m where
    "toCallbackSrvRouteModelId (cs_id (t_callbackSrv t)) = Inr srvId"
    "toTaskModelSchedMode (t_schedMode t) = Inr schedMode"
    "get_sched_next_at (lb_cron L) now t = Inr nxt" "taskId = toTaskEntityId (bm_Id m)"
    "m \<in> set (tb_task (view db'))" "same_task co t m" "scheduled_as srvId nxt t m"
    "\<forall>x \<in> set (tb_task (view db)). bm_Id x \<noteq> bm_Id m \<longrightarrow> x \<in> set (tb_task (view db'))"
    "\<forall>x \<in> set (tb_task (view db')). x = m \<or> x \<in> set (tb_task (view db))"
    "(view db')\<lparr>tb_task := []\<rparr> = (view db)\<lparr>tb_task := []\<rparr>"
    "(\<forall>x \<in> set (tb_task (view db)). \<not> same_task co t x) \<and>
       tm_RunTimes m = 0 \<and> tm_AllowMaxRunTimes m = allow_max_run_times (t_schedMode t) \<or>
     (\<exists>x \<in> set (tb_task (view db)). \<exists>stamp. same_task co t x \<and> m = readd_row srvId schedMode nxt t stamp x)"
  using run inv
proof (cases rule: add_task_cases)
  case swallowed
  with ok show thesis by simp
next
  case (created srvId schedMode nxt i)
  then show thesis
    using sched_mode_roundtrip [OF created(2)]
    by (intro that [of srvId schedMode nxt "stamped i (clk db) (new_task_row srvId schedMode nxt t)"])
      (simp_all add: stamped_def new_task_row_def same_task_def scheduled_as_def zero_task_model_def)
next
  case (readded srvId schedMode nxt m stamp)
  let ?m = "readd_row srvId schedMode nxt t stamp m"
  have fields: "bm_Id ?m = bm_Id m" "same_task co t ?m" "scheduled_as srvId nxt t ?m"
    using readded(5) sched_mode_roundtrip [OF readded(2)]
    by (simp_all add: readd_row_def same_task_def scheduled_as_def)
  have rows: "tb_task (view db') = map (\<lambda>x. if x = m then ?m else x) (tb_task (view db))"
    using readded(7) by simp
  show thesis
  proof (rule that [of srvId schedMode nxt ?m])
    show "?m \<in> set (tb_task (view db'))" using readded(4) by (auto simp: rows)
    show "\<forall>x \<in> set (tb_task (view db)). bm_Id x \<noteq> bm_Id ?m \<longrightarrow> x \<in> set (tb_task (view db'))"
      using fields(1) by (auto simp: rows)
    show "\<forall>x \<in> set (tb_task (view db')). x = ?m \<or> x \<in> set (tb_task (view db))"
      by (auto simp: rows)
    show "(view db')\<lparr>tb_task := []\<rparr> = (view db)\<lparr>tb_task := []\<rparr>" using readded(7) by simp
    show "taskId = toTaskEntityId (bm_Id ?m)" using readded(6) fields(1) by simp
  qed (use readded(1-5) fields in blast)+
qed

lemma add_stores:
  assumes inv: "inv_db db" and run: "add_task L S now t db = (Inr taskId, db')" and ok: "taskId \<noteq> []"
  shows "\<exists>srvId nxt m. toCallbackSrvRouteModelId (cs_id (t_callbackSrv t)) = Inr srvId \<and>
    get_sched_next_at (lb_cron L) now t = Inr nxt \<and> taskId = toTaskEntityId (bm_Id m) \<and>
    scheduled_as srvId nxt t m \<and>
    {x \<in> set (tb_task (view db')). same_task co t x} = {m} \<and>
    (\<forall>x \<in> set (tb_task (view db)). bm_Id x \<noteq> bm_Id m \<longrightarrow> x \<in> set (tb_task (view db'))) \<and>
    (\<forall>x \<in> set (tb_task (view db')). x = m \<or> x \<in> set (tb_task (view db))) \<and>
    (view db')\<lparr>tb_task := []\<rparr> = (view db)\<lparr>tb_task := []\<rparr>"
proof -
  have inv': "inv_db db'" by (rule pres_ioD [OF pres_task_ops(4) run inv])
  from inv run ok show ?thesis
  proof (rule add_task_row)
    fix srvId schedMode nxt m
    assume a: "toCallbackSrvRouteModelId (cs_id (t_callbackSrv t)) = Inr srvId"
      "get_sched_next_at (lb_cron L) now t = Inr nxt" "taskId = toTaskEntityId (bm_Id m)"
      "m \<in> set (tb_task (view db'))" "same_task co t m" "scheduled_as srvId nxt t m"
      "\<forall>x \<in> set (tb_task (view db)). bm_Id x \<noteq> bm_Id m \<longrightarrow> x \<in> set (tb_task (view db'))"
      "\<forall>x \<in> set (tb_task (view db')). x = m \<or> x \<in> set (tb_task (view db))"
      "(view db')\<lparr>tb_task := []\<rparr> = (view db)\<lparr>tb_task := []\<rparr>"
    have "{x \<in> set (tb_task (view db')). same_task co t x} = {m}"
      using a(4,5) same_task_unique [OF inv' _ a(4) _ a(5)] by blast
    with a show ?thesis by (intro exI conjI)
  qed
qed

lemma readd_same_time:
  assumes inv: "inv_db db" and run: "add_task L S now t db = (Inr taskId, db')" and ok: "taskId \<noteq> []"
    and mode: "t_schedMode t = SchedModeTimeSpec"
    and old: "m \<in> set (tb_task (view db))" "same_task co t m" "1 \<le> tm_RunTimes m"
      "tm_SchedMode m = schedModeTimeSpec" "tm_PlanSchedNextAt m = t_timeSpecAt t"
  shows "\<exists>m' \<in> set (tb_task (view db')). taskId = toTaskEntityId (bm_Id m') \<and> (\<forall>later. \<not> due later m')"
  using inv run ok
proof (rule add_task_row)
  fix srvId schedMode nxt m'
  assume a: "toTaskModelSchedMode (t_schedMode t) = Inr schedMode"
    "get_sched_next_at (lb_cron L) now t = Inr nxt" "taskId = toTaskEntityId (bm_Id m')"
    "m' \<in> set (tb_task (view db'))"
    "(\<forall>x \<in> set (tb_task (view db)). \<not> same_task co t x) \<and>
       tm_RunTimes m' = 0 \<and> tm_AllowMaxRunTimes m' = allow_max_run_times (t_schedMode t) \<or>
     (\<exists>x \<in> set (tb_task (view db)). \<exists>stamp. same_task co t x \<and> m' = readd_row srvId schedMode nxt t stamp x)"
  then obtain stamp where "m' = readd_row srvId schedMode nxt t stamp m"
    using old(1,2) same_task_unique [OF inv] by blast
  moreover have "nxt = t_timeSpecAt t" using a(2) mode by (simp add: get_sched_next_at_def)
  ultimately have "tm_AllowMaxRunTimes m' \<le> tm_RunTimes m'"
    using old(3-5) mode by (simp add: readd_row_def allow_max_run_times_def)
  then show ?thesis using a(3,4) by (auto simp: due_def)
qed

lemma readd_other_time:
  assumes inv: "inv_db db" and run: "add_task L S now t db = (Inr taskId, db')" and ok: "taskId \<noteq> []"
    and mode: "t_schedMode t = SchedModeTimeSpec"
    and old: "m \<in> set (tb_task (view db))" "same_task co t m"
      "tm_SchedMode m \<noteq> schedModeTimeSpec \<or> tm_PlanSchedNextAt m \<noteq> t_timeSpecAt t"
  shows "\<exists>m' \<in> set (tb_task (view db')). taskId = toTaskEntityId (bm_Id m') \<and>
    tm_RunTimes m' = tm_RunTimes m \<and> tm_AllowMaxRunTimes m' = tm_RunTimes m + 1 \<and>
    (\<forall>later. due later m' \<longleftrightarrow> t_timeSpecAt t \<le> later)"
  using inv run ok
proof (rule add_task_row)
  fix srvId schedMode nxt m'
  assume a: "toTaskModelSchedMode (t_schedMode t) = Inr schedMode"
    "get_sched_next_at (lb_cron L) now t = Inr nxt" "taskId = toTaskEntityId (bm_Id m')"
    "m' \<in> set (tb_task (view db'))"
    "(\<forall>x \<in> set (tb_task (view db)). \<not> same_task co t x) \<and>
       tm_RunTimes m' = 0 \<and> tm_AllowMaxRunTimes m' = allow_max_run_times (t_schedMode t) \<or>
     (\<exists>x \<in> set (tb_task (view db)). \<exists>stamp. same_task co t x \<and> m' = readd_row srvId schedMode nxt t stamp x)"
  then obtain stamp where m': "m' = readd_row srvId schedMode nxt t stamp m"
    using old(1,2) same_task_unique [OF inv] by blast
  have "nxt = t_timeSpecAt t" "schedMode = schedModeTimeSpec"
    using a(1,2) mode by (simp_all add: get_sched_next_at_def toTaskModelSchedMode_def)
  with m' old(3) mode have "tm_RunTimes m' = tm_RunTimes m" "tm_AllowMaxRunTimes m' = tm_RunTimes m + 1"
    "bm_DeletedAt m' = 0" "tm_PlanSchedNextAt m' = t_timeSpecAt t"
    by (auto simp: readd_row_def allow_max_run_times_def)
  with a(3,4) show ?thesis by (intro bexI [of _ m']) (simp_all add: due_def)
qed

end

text \<open>
  C8. A successful \<open>AddTask\<close> leaves exactly one row of that name and business id, live, with the
  schedule, argument, path and service of the request, under the identifier it answers; every
  other task and every other table stays as it was.
\<close>

lemma add_task_stores:
  assumes "easytask_store S co clk view L" "store_inv co (view db)"
    and "add_task L S now t db = (Inr taskId, db')" "taskId \<noteq> []"
  shows "\<exists>srvId nxt m. toCallbackSrvRouteModelId (cs_id (t_callbackSrv t)) = Inr srvId \<and>
    get_sched_next_at (lb_cron L) now t = Inr nxt \<and> taskId = toTaskEntityId (bm_Id m) \<and>
    scheduled_as srvId nxt t m \<and>
    {x \<in> set (tb_task (view db')). same_task co t x} = {m} \<and>
    (\<forall>x \<in> set (tb_task (view db)). bm_Id x \<noteq> bm_Id m \<longrightarrow> x \<in> set (tb_task (view db'))) \<and>
    (\<forall>x \<in> set (tb_task (view db')). x = m \<or> x \<in> set (tb_task (view db))) \<and>
    (view db')\<lparr>tb_task := []\<rparr> = (view db)\<lparr>tb_task := []\<rparr>"
  by (rule easytask_store.add_stores [OF assms])

definition demo_new :: task where
  "demo_new = demo_task\<lparr>t_id := [], t_name := ''fresh''\<rparr>"

lemma add_task_stores_witness:
  "\<exists>db' m. add_task ref_libs mem_store 1000 demo_new demo_mem = (Inr ''8'', db') \<and>
    {x \<in> set (tb_task (mm_tabs db')). same_task mem_co demo_new x} = {m}"
proof -
  have "fst (add_task ref_libs mem_store 1000 demo_new demo_mem) = Inr ''8''" by code_simp
  then obtain db' where run: "add_task ref_libs mem_store 1000 demo_new demo_mem = (Inr ''8'', db')"
    by (rule fst_eqE)
  have "\<exists>m. {x \<in> set (tb_task (mm_tabs db')). same_task mem_co demo_new x} = {m}"
    using add_task_stores [OF mem_is_easytask demo_inv run] by blast
  with run show ?thesis by blast
qed

text \<open>
  A failed insert is reported as success: when \<open>FirstOrCreate\<close> fails, \<open>AddTask\<close> answers no error
  and an empty identifier, and no task was stored.
\<close>

lemma add_task_hides_failure:
  assumes "easytask_store S co clk view L"
    and "toCallbackSrvRouteModelId (cs_id (t_callbackSrv t)) = Inr srvId"
    and "toTaskModelSchedMode (t_schedMode t) = Inr schedMode"
    and "get_sched_next_at (lb_cron L) now t = Inr nxt"
    and "op_first_or_create (st_task S)
      (unscoped_q [CEq DbFieldName (VText (t_name t)), CEq DbFieldBizId (VText (t_bizId t))])
      (new_task_row srvId schedMode nxt t) db = (Inl e, db')"
  shows "add_task L S now t db = (Inr [], db') \<and> view db' = view db"
  using assms(2-5) sql_store.stmt_err(7) [OF easytask_sql [OF assms(1)] assms(5)]
  by (simp add: add_task_def upsert_task_def bind_io_def)

definition demo_fault :: mem where
  "demo_fault = demo_mem\<lparr>mm_faults := [True]\<rparr>"

lemma add_task_hides_failure_witness:
  "\<exists>db'. add_task ref_libs mem_store 1000 demo_new demo_fault = (Inr [], db') \<and>
    mm_tabs db' = mm_tabs demo_fault"
proof -
  let ?foc = "op_first_or_create (st_task mem_store)
      (unscoped_q [CEq DbFieldName (VText (t_name demo_new)), CEq DbFieldBizId (VText (t_bizId demo_new))])
      (new_task_row 1 3 1060 demo_new) demo_fault"
  have "fst ?foc = Inl (DbErr ''connection lost'')" by code_simp
  then obtain db' where foc: "?foc = (Inl (DbErr ''connection lost''), db')" by (rule fst_eqE)
  have hyps: "toCallbackSrvRouteModelId (cs_id (t_callbackSrv demo_new)) = Inr 1"
    "toTaskModelSchedMode (t_schedMode demo_new) = Inr 3"
    "get_sched_next_at (lb_cron ref_libs) 1000 demo_new = Inr 1060"
    by code_simp+
  from add_task_hides_failure [OF mem_is_easytask hyps foc] show ?thesis by blast
qed

text \<open>
  Adding a one-time task again for the time it is already planned for cancels it when the task
  ran before: the number of allowed runs falls back to one, and the task is never due again.
\<close>

lemma readd_same_time_cancels:
  assumes "easytask_store S co clk view L" "store_inv co (view db)"
    and "add_task L S now t db = (Inr taskId, db')" "taskId \<noteq> []"
    and "t_schedMode t = SchedModeTimeSpec" "m \<in> set (tb_task (view db))" "same_task co t m"
    and "1 \<le> tm_RunTimes m" "tm_SchedMode m = schedModeTimeSpec"
    and "tm_PlanSchedNextAt m = t_timeSpecAt t"
  shows "\<exists>m' \<in> set (tb_task (view db')). taskId = toTaskEntityId (bm_Id m') \<and> (\<forall>later. \<not> due later m')"
  by (rule easytask_store.readd_same_time [OF assms])

definition demo_spec_row :: task_model where
  "demo_spec_row = (demo_task_row 7 ''job'')\<lparr>tm_SchedMode := schedModeTimeSpec,
     tm_PlanSchedNextAt := 2000, tm_RunTimes := 1, tm_AllowMaxRunTimes := 2\<rparr>"

definition demo_spec :: mem where
  "demo_spec = mem_of
     \<lparr>tb_task = [demo_spec_row], tb_srv = [demo_srv_row], tb_route = [demo_route_row], tb_log = []\<rparr>"

definition demo_spec_task :: "int \<Rightarrow> task" where
  "demo_spec_task at = demo_task\<lparr>t_schedMode := SchedModeTimeSpec, t_timeSpecAt := at\<rparr>"

lemma demo_spec_facts:
  "store_inv mem_co (mm_tabs demo_spec)" "tb_task (mm_tabs demo_spec) = [demo_spec_row]"
  "t_schedMode (demo_spec_task at) = SchedModeTimeSpec" "t_timeSpecAt (demo_spec_task at) = at"
  "same_task mem_co (demo_spec_task at) demo_spec_row" "1 \<le> tm_RunTimes demo_spec_row"
  "tm_SchedMode demo_spec_row = schedModeTimeSpec" "tm_PlanSchedNextAt demo_spec_row = 2000"
  "due 2000 demo_spec_row"
  by code_simp+

lemma readd_same_time_cancels_witness:
  "due 2000 demo_spec_row \<and>
   (\<exists>db'. add_task ref_libs mem_store 1000 (demo_spec_task 2000) demo_spec = (Inr ''7'', db') \<and>
      (\<exists>m' \<in> set (tb_task (mm_tabs db')). ''7'' = toTaskEntityId (bm_Id m') \<and> (\<forall>later. \<not> due later m')))"
proof -
  have "fst (add_task ref_libs mem_store 1000 (demo_spec_task 2000) demo_spec) = Inr ''7''" by code_simp
  then obtain db' where run: "add_task ref_libs mem_store 1000 (demo_spec_task 2000) demo_spec = (Inr ''7'', db')"
    by (rule fst_eqE)
  have "\<exists>m' \<in> set (tb_task (mm_tabs db')). ''7'' = toTaskEntityId (bm_Id m') \<and> (\<forall>later. \<not> due later m')"
    by (rule readd_same_time_cancels [OF mem_is_easytask demo_spec_facts(1) run, of demo_spec_row])
      (simp_all add: demo_spec_facts)
  with run demo_spec_facts(9) show ?thesis by blast
qed

text \<open>
  Adding a one-time task again for another time grants exactly one more run, at that time, and
  keeps the count of the runs so far; a stopped task comes back this way.
\<close>

lemma readd_other_time_grants_one:
  assumes "easytask_store S co clk view L" "store_inv co (view db)"
    and "add_task L S now t db = (Inr taskId, db')" "taskId \<noteq> []"
    and "t_schedMode t = SchedModeTimeSpec" "m \<in> set (tb_task (view db))" "same_task co t m"
    and "tm_SchedMode m \<noteq> schedModeTimeSpec \<or> tm_PlanSchedNextAt m \<noteq> t_timeSpecAt t"
  shows "\<exists>m' \<in> set (tb_task (view db')). taskId = toTaskEntityId (bm_Id m') \<and>
    tm_RunTimes m' = tm_RunTimes m \<and> tm_AllowMaxRunTimes m' = tm_RunTimes m + 1 \<and>
    (\<forall>later. due later m' \<longleftrightarrow> t_timeSpecAt t \<le> later)"
  by (rule easytask_store.readd_other_time [OF assms])

lemma readd_other_time_grants_one_witness:
  "\<exists>db'. add_task ref_libs mem_store 1000 (demo_spec_task 3000) demo_spec = (Inr ''7'', db') \<and>
    (\<exists>m' \<in> set (tb_task (mm_tabs db')). tm_AllowMaxRunTimes m' = 2 \<and> (\<forall>later. due later m' \<longleftrightarrow> 3000 \<le> later))"
proof -
  have "fst (add_task ref_libs mem_store 1000 (demo_spec_task 3000) demo_spec) = Inr ''7''" by code_simp
  then obtain db' where run: "add_task ref_libs mem_store 1000 (demo_spec_task 3000) demo_spec = (Inr ''7'', db')"
    by (rule fst_eqE)
  have "\<exists>m' \<in> set (tb_task (mm_tabs db')). ''7'' = toTaskEntityId (bm_Id m') \<and>
    tm_RunTimes m' = tm_RunTimes demo_spec_row \<and> tm_AllowMaxRunTimes m' = tm_RunTimes demo_spec_row + 1 \<and>
    (\<forall>later. due later m' \<longleftrightarrow> t_timeSpecAt (demo_spec_task 3000) \<le> later)"
    by (rule readd_other_time_grants_one [OF mem_is_easytask demo_spec_facts(1) run, of demo_spec_row])
      (simp_all add: demo_spec_facts)
  moreover have "tm_RunTimes demo_spec_row = 1" by code_simp
  ultimately show ?thesis using run by (auto simp: demo_spec_facts)
qed

section \<open>Confirming runs and their logs\<close>

context migrated_store
begin

lemma confirm_fails:
  assumes "tr_taskStatus p = StatusSuccess \<or> tr_taskStatus p = StatusFailed"
  shows "\<exists>e db'. confirm_task S LR now nowLog p db = (Inl e, db') \<and> view db' = view db"
proof -
  let ?w = "fst (toTaskModelId (tr_taskId p))"
  have fails: "\<exists>e db'. op_updates (st_task S) (where_q [CEq DbFieldId (VId ?w)]) [(f, Lit (VInt now))] db =
      (Inl e, db') \<and> view db' = view db"
    if f: "f = DbFieldLastSuccessAt \<or> f = DbFieldLastFailedAt" for f
  proof -
    have "f \<notin> set (sc_cols task_schema)"
      using f by (auto simp: task_schema_def base_cols_def)
    then obtain e where "fst (op_updates (st_task S) (where_q [CEq DbFieldId (VId ?w)])
        [(f, Lit (VInt now))] db) = Inl e"
      using unknown_task_column [of "[(f, Lit (VInt now))]"] by auto
    then obtain db' where "op_updates (st_task S) (where_q [CEq DbFieldId (VId ?w)])
        [(f, Lit (VInt now))] db = (Inl e, db')" by (rule fst_eqE)
    with stmt_err(12) [OF this] show ?thesis by blast
  qed
  from assms show ?thesis
  proof
    assume st: "tr_taskStatus p = StatusSuccess"
    from fails [of DbFieldLastSuccessAt] obtain e db' where
      "op_updates (st_task S) (where_q [CEq DbFieldId (VId ?w)]) [(DbFieldLastSuccessAt, Lit (VInt now))] db =
        (Inl e, db')" "view db' = view db" by auto
    with st show ?thesis by (simp add: confirm_task_def Let_def task_status_defs bind_io_def)
  next
    assume st: "tr_taskStatus p = StatusFailed"
    from fails [of DbFieldLastFailedAt] obtain e db' where
      "op_updates (st_task S) (where_q [CEq DbFieldId (VId ?w)]) [(DbFieldLastFailedAt, Lit (VInt now))] db =
        (Inl e, db')" "view db' = view db" by auto
    with st show ?thesis by (simp add: confirm_task_def Let_def task_status_defs bind_io_def)
  qed
qed

end

text \<open>
  On tables created from the program's own row structs the outcome of a run is never recorded:
  \<open>ConfirmTask\<close> of a successful or failed run updates a column that \<open>TaskModel\<close> does not declare,
  so it ends in an error before it reaches the log, and nothing is stored.
\<close>

lemma confirm_task_fails_on_own_schema:
  assumes "migrated_store S co clk view"
    and "tr_taskStatus p = StatusSuccess \<or> tr_taskStatus p = StatusFailed"
  shows "\<exists>e db'. confirm_task S LR now nowLog p db = (Inl e, db') \<and> view db' = view db"
  by (rule migrated_store.confirm_fails [OF assms])

lemma confirm_task_fails_on_own_schema_witness:
  "\<exists>e db'. confirm_task mem_store (mysql_log_repo mem_store) 1000 1000
      (new_task_resp ''7'' True StatusSuccess 1 []) demo_mem = (Inl e, db') \<and> mm_tabs db' = mm_tabs demo_mem"
  by (rule confirm_task_fails_on_own_schema [OF mem_is_migrated]) (simp add: new_task_resp_def)

text \<open>
  C36. A confirmation reaches the log of its run and no other: the live row of the task and run
  number gets the outcome, there is at most one such row, and the other rows and tables stay as
  they are. Identifiers below \<open>2 ^ 53\<close>, where MySQL compares a text with a number exactly.
\<close>

lemma confirmed_log_hits_its_run:
  assumes "easytask_store S co clk view L" "store_inv co (view db)"
    and "save_task_confirmed_log S now \<lparr>fd_taskResp = p\<rparr> db = (Inr u, db')"
    and "tr_taskId p = toTaskEntityId w" "uint w < 2 ^ 53"
  shows "view db' = (view db)\<lparr>tb_log := map (\<lambda>r.
      if bm_DeletedAt r = 0 \<and> log_key r = (w, tr_taskRunTimes p)
      then (confirmed_row now p r)\<lparr>bm_UpdatedAt := clk db\<rparr> else r) (tb_log (view db))\<rparr> \<and>
    length (filter (\<lambda>r. log_key r = (w, tr_taskRunTimes p)) (tb_log (view db))) \<le> 1"
proof -
  note sq = easytask_sql [OF assms(1)]
  have "log_run co (tr_taskId p) (tr_taskRunTimes p) r \<longleftrightarrow>
      bm_DeletedAt r = 0 \<and> log_key r = (w, tr_taskRunTimes p)" for r
    using assms(4,5) sql_store.co_num_id [OF sq]
    by (auto simp: log_run_def log_key_def toTaskEntityId_def)
  moreover have "length (filter (\<lambda>r. log_key r = k) R) \<le> 1" if "distinct (map log_key R)" for k R
    using that by (induction R) (auto simp: filter_empty_conv image_iff)
  ultimately show ?thesis
    using sql_store.save_confirmed_ok [OF sq assms(3)] distinct_log_keys [OF assms(2)] by simp
qed

definition demo_log_row :: "u64 \<Rightarrow> int \<Rightarrow> log_model" where
  "demo_log_row w k =
     zero_log_model\<lparr>bm_Id := 1, lm_TaskId := w, lm_RunTimes := k, lm_TaskStatus := statusRunning\<rparr>"

definition demo_logged :: mem where
  "demo_logged = mem_of
     \<lparr>tb_task = [demo_task_row 7 ''job''], tb_srv = [demo_srv_row], tb_route = [demo_route_row],
      tb_log = [demo_log_row 7 1]\<rparr>"

lemma confirmed_log_hits_its_run_witness:
  "\<exists>db'. save_task_confirmed_log mem_store 1000
      \<lparr>fd_taskResp = new_task_resp ''7'' True StatusSuccess 1 ''x''\<rparr> demo_logged = (Inr (), db') \<and>
    map lm_TaskStatus (tb_log (mm_tabs db')) = [statusSuccess]"
proof -
  let ?p = "new_task_resp ''7'' True StatusSuccess 1 ''x''"
  let ?run = "save_task_confirmed_log mem_store 1000 \<lparr>fd_taskResp = ?p\<rparr> demo_logged"
  have "fst ?run = Inr ()" by code_simp
  then obtain db' where run: "?run = (Inr (), db')" by (rule fst_eqE)
  have hyps: "store_inv mem_co (mm_tabs demo_logged)" "tr_taskId ?p = toTaskEntityId 7"
    "uint (7 :: u64) < 2 ^ 53"
    by code_simp+
  have logs: "tb_log (mm_tabs demo_logged) = [demo_log_row 7 1]"
    "bm_DeletedAt (demo_log_row 7 1) = 0" "log_key (demo_log_row 7 1) = (7, tr_taskRunTimes ?p)"
    "lm_TaskStatus (confirmed_row 1000 ?p (demo_log_row 7 1)) = statusSuccess"
    by code_simp+
  from confirmed_log_hits_its_run [OF mem_is_easytask hyps(1) run hyps(2,3)] run logs show ?thesis
    by simp
qed

text \<open>
  When a callback fails inside the worker, the response it confirms carries run number 0, so
  the run's log row keeps its status: the confirmation touches no row of any run.
\<close>

lemma internal_error_leaves_log:
  assumes "easytask_store S co clk view L"
    and "new_internal_err_task_resp jdet taskId err occurredAt = Inr p"
    and "save_task_confirmed_log S now \<lparr>fd_taskResp = p\<rparr> db = (x, db')"
    and "\<forall>r \<in> set (tb_log (view db)). 1 \<le> lm_RunTimes r"
  shows "view db' = view db"
proof -
  note sq = easytask_sql [OF assms(1)]
  have p: "tr_taskRunTimes p = 0"
    using assms(2) by (auto simp: new_internal_err_task_resp_def split: sum.splits)
  show ?thesis
  proof (cases x)
    case (Inl e)
    with assms(3) show ?thesis using sql_store.save_confirmed_err [OF sq] by blast
  next
    case (Inr u)
    have "\<not> log_run co (tr_taskId p) 0 r" if "r \<in> set (tb_log (view db))" for r
      using assms(4) that by (force simp: log_run_def)
    with sql_store.save_confirmed_ok [OF sq assms(3) [unfolded Inr]] p show ?thesis
      by (simp add: map_if_none)
  qed
qed

definition demo_jdet :: "internal_err_detail \<Rightarrow> go_err + string" where
  "demo_jdet d = Inr ''{}''"

lemma internal_error_leaves_log_witness:
  "\<exists>p x db'. new_internal_err_task_resp demo_jdet ''7'' (HttpErr ''refused'') 1000 = Inr p \<and>
    save_task_confirmed_log mem_store 1000 \<lparr>fd_taskResp = p\<rparr> demo_logged = (x, db') \<and>
    mm_tabs db' = mm_tabs demo_logged"
proof -
  obtain p where p: "new_internal_err_task_resp demo_jdet ''7'' (HttpErr ''refused'') 1000 = Inr p"
    by (simp add: new_internal_err_task_resp_def demo_jdet_def)
  obtain x db' where run: "save_task_confirmed_log mem_store 1000 \<lparr>fd_taskResp = p\<rparr> demo_logged = (x, db')"
    by (rule prod.exhaust)
  have "\<forall>r \<in> set (tb_log (mm_tabs demo_logged)). 1 \<le> lm_RunTimes r" by code_simp
  from internal_error_leaves_log [OF mem_is_easytask p run this] p run show ?thesis by blast
qed

section \<open>Cleaning up\<close>

text \<open>
  The clean-up of the logs deletes tasks: \<open>DelLogs\<close> with a creation time removes for good every
  task row created after it, live or not, and leaves the logs alone.
\<close>

lemma del_logs_removes_tasks:
  assumes "easytask_store S co clk view L"
    and "del_logs S [QueryOptKeyCreatedExceed bound] db = (Inr u, db')"
  shows "tb_log (view db') = tb_log (view db) \<and>
    tb_task (view db') = filter (\<lambda>r. bm_CreatedAt r \<le> bound) (tb_task (view db))"
proof -
  obtain n where "op_delete (st_task S) (unscoped_q [CGt DbFieldCreatedAt bound]) db = (Inr n, db')"
    using assms(2) by (auto simp: del_logs_def bind_io_ok)
  from sql_store.task_delete [OF easytask_sql [OF assms(1)] this] show ?thesis
    by (simp add: del_rows_def not_less)
qed

definition demo_old :: mem where
  "demo_old = demo_logged\<lparr>mm_tabs := (mm_tabs demo_logged)\<lparr>
     tb_task := [(demo_task_row 7 ''job'')\<lparr>bm_CreatedAt := 50\<rparr>]\<rparr>\<rparr>"

lemma del_logs_removes_tasks_witness:
  "\<exists>db'. del_logs mem_store [QueryOptKeyCreatedExceed 10] demo_old = (Inr (), db') \<and>
    tb_task (mm_tabs db') = [] \<and> tb_log (mm_tabs db') = tb_log (mm_tabs demo_old)"
proof -
  have "fst (del_logs mem_store [QueryOptKeyCreatedExceed 10] demo_old) = Inr ()" by code_simp
  then obtain db' where run: "del_logs mem_store [QueryOptKeyCreatedExceed 10] demo_old = (Inr (), db')"
    by (rule fst_eqE)
  have "filter (\<lambda>r. bm_CreatedAt r \<le> 10) (tb_task (mm_tabs demo_old)) = []" by code_simp
  with del_logs_removes_tasks [OF mem_is_easytask run] run show ?thesis by auto
qed

text \<open>
  \<open>DelTasks\<close> runs its statement on a table of its own, so it removes nothing the program stores.
\<close>

lemma del_tasks_frame:
  assumes "easytask_store S co clk view L"
  shows "view (snd (del_tasks S opts db)) = view db"
proof -
  obtain r db1 where run: "st_delete_untracked S ''task_log_repos'' (unscoped_q (del_tasks_conds opts)) db = (r, db1)"
    by (rule prod.exhaust)
  from sql_store.delete_untracked [OF easytask_sql [OF assms(1)] run] run show ?thesis
    by (simp add: del_tasks_def bind_io_def split: sum.splits)
qed

section \<open>The invariant of the database\<close>

context sql_store
begin

lemma pres_task_reads [pres]:
  "pres_io inv_db (get_srvs_by_ids L S ids)" "pres_io inv_db (get_task_by_id L S (mysql_srv_repo L S) i)"
proof -
  show srvs: "pres_io inv_db (get_srvs_by_ids L S ids)" for ids
    unfolding get_srvs_by_ids_def by (rule pres_srv_ops)
  have task: "pres_io inv_db (take_task S w)" for w
  proof (rule pres_ioI)
    fix s r t assume run: "take_task S w s = (r, t)" and inv: "inv_db s"
    obtain x s1 where take: "op_take (st_task S) (where_q [CEq DbFieldId (VId w)]) s = (x, s1)"
      by (rule prod.exhaust)
    have "pres_io inv_db (op_take (st_task S) (where_q [CEq DbFieldId (VId w)]))" by (rule pres)
    with inv have "inv_db (snd (op_take (st_task S) (where_q [CEq DbFieldId (VId w)]) s))"
      unfolding pres_io_def by blast
    with run take show "inv_db t" by (auto simp: take_task_def split: sum.splits if_splits)
  qed
  show "pres_io inv_db (get_task_by_id L S (mysql_srv_repo L S) i)"
    by (auto simp: get_task_by_id_def intro!: task srvs pres split: list.splits)
qed

end

lemma keep_inv:
  "pres_io (\<lambda>db. store_inv co (view db)) m \<Longrightarrow> store_inv co (view db) \<Longrightarrow> store_inv co (view (snd (m db)))"
  by (simp add: pres_io_def)

text \<open>
  C12. Every one of the sixteen operations of the three repository interfaces keeps the tables well formed: identifiers stay
  unique, no two tasks share a name and business id, no two services a name, no two routes of a
  service an address, and no two log rows a run. This holds on error paths too.
\<close>

lemma repositories_keep_invariant:
  assumes "easytask_store S co clk view L" "store_inv co (view db)"
  shows "store_inv co (view (snd (add_task L S n1 t db))) \<and>
    store_inv co (view (snd (snd (lock_task L S (mysql_log_repo S) n1 n2 n3 t db)))) \<and>
    store_inv co (view (snd (confirm_task S (mysql_log_repo S) n1 n2 p db))) \<and>
    store_inv co (view (snd (timeout_tasks L S (mysql_srv_repo L S) n1 lim cursor db))) \<and>
    store_inv co (view (snd (get_task_by_id L S (mysql_srv_repo L S) i db))) \<and>
    store_inv co (view (snd (del_task_by_id S i db))) \<and>
    store_inv co (view (snd (del_tasks S opts db))) \<and>
    store_inv co (view (snd (save_task_started_log S n1 sd db))) \<and>
    store_inv co (view (snd (save_task_callback_log S n1 n2 cd db))) \<and>
    store_inv co (view (snd (save_task_confirmed_log S n1 fd db))) \<and>
    store_inv co (view (snd (del_logs S opts db))) \<and>
    store_inv co (view (snd (add_srv_routes S srv db))) \<and>
    store_inv co (view (snd (del_srv_routes S srv db))) \<and>
    store_inv co (view (snd (set_srv_routes_pass_health_check S n1 srv db))) \<and>
    store_inv co (view (snd (get_srvs_by_ids L S ids db))) \<and>
    store_inv co (view (snd (get_srvs L S qs db)))"
proof -
  note sq = easytask_sql [OF assms(1)]
  have lock: "store_inv co (view (snd (snd (lock_task L S (mysql_log_repo S) n1 n2 n3 t db))))"
    using sql_store.lock_task_effect(1) [OF sq _ assms(2)]
    by (cases "lock_task L S (mysql_log_repo S) n1 n2 n3 t db") auto
  have page: "store_inv co (view (snd (timeout_tasks L S (mysql_srv_repo L S) n1 lim cursor db)))"
    using easytask_store.timeout_tasks_frame [OF assms(1)] assms(2)
    by (cases "timeout_tasks L S (mysql_srv_repo L S) n1 lim cursor db") auto
  show ?thesis
    by (intro conjI lock page sql_store.pres_task_ops [OF sq, THEN keep_inv, OF assms(2)]
        sql_store.pres_log_ops [OF sq, THEN keep_inv, OF assms(2)]
        sql_store.pres_srv_ops [OF sq, THEN keep_inv, OF assms(2)]
        sql_store.pres_task_reads [OF sq, THEN keep_inv, OF assms(2)])
qed

lemma repositories_keep_invariant_witness:
  "store_inv mem_co (mm_tabs (snd (add_task ref_libs mem_store 1000 demo_new demo_mem))) \<and>
   store_inv mem_co (mm_tabs (snd (snd (lock_task ref_libs mem_store (mysql_log_repo mem_store)
     1000 1000 1000 demo_task demo_mem))))"
  using repositories_keep_invariant [OF mem_is_easytask demo_inv] by blast

section \<open>Services and routes\<close>

text \<open>
  C37. A successful registration leaves a live service of that name with every route of the request
  live under it, and marks the service as health-checked when one of the routes asks for it. A
  service or a route that was deleted comes back.
\<close>

lemma add_srv_routes_registers:
  assumes "easytask_store S co clk view L" "store_inv co (view db)"
    and "add_srv_routes S srv db = (Inr u, db')"
  shows "\<exists>m \<in> set (tb_srv (view db')). bm_DeletedAt m = 0 \<and> co_eq co (sm_Name m) (cs_name srv) \<and>
    (list_ex rt_isEnableHealthCheck (cs_routes srv) \<longrightarrow> sm_HasEnableHealthCheck m) \<and>
    (\<forall>route \<in> set (cs_routes srv). \<exists>r \<in> set (tb_route (view db')). route_at co (bm_Id m) route r)"
  by (rule sql_store.add_srv_routes_ok [OF easytask_sql [OF assms(1)] assms(3,2)]) blast

definition demo_reg :: callback_srv where
  "demo_reg = new_callback_srv [] ''other'' [new_srv_route [] ''http'' ''g'' 81 5 True] True"

lemma add_srv_routes_registers_witness:
  "\<exists>db'. add_srv_routes mem_store demo_reg demo_mem = (Inr (), db') \<and>
    (\<exists>m \<in> set (tb_srv (mm_tabs db')). bm_DeletedAt m = 0 \<and> co_eq mem_co (sm_Name m) (cs_name demo_reg))"
proof -
  have "fst (add_srv_routes mem_store demo_reg demo_mem) = Inr ()" by code_simp
  then obtain db' where run: "add_srv_routes mem_store demo_reg demo_mem = (Inr (), db')" by (rule fst_eqE)
  from add_srv_routes_registers [OF mem_is_easytask demo_inv run] run show ?thesis by blast
qed

text \<open>
  C38. Removing routes deletes exactly the listed live routes of the named service, and the service
  with its last route. A service that keeps a route keeps its row unchanged, so a service whose
  last health-checked route goes is still marked as health-checked: the statement counts all
  routes twice instead of the health-checked ones.
\<close>

lemma del_srv_routes_effect:
  assumes "easytask_store S co clk view L" "store_inv co (view db)"
    and "del_srv_routes S srv db = (Inr u, db')"
  shows "\<exists>m ids n n'. m \<in> set (tb_srv (view db)) \<and> bm_DeletedAt m = 0 \<and>
    co_eq co (sm_Name m) (cs_name srv) \<and> route_model_ids (cs_routes srv) = Inr ids \<and> 0 < n \<and> 0 < n' \<and>
    tb_route (view db') =
      map (\<lambda>r. if bm_DeletedAt r = 0 \<and> rm_SrvId r = bm_Id m \<and> bm_Id r \<in> set ids
               then r\<lparr>bm_DeletedAt := n\<rparr> else r) (tb_route (view db)) \<and>
    tb_srv (view db') =
      (if live_routes (view db') (bm_Id m) = []
       then map (\<lambda>x. if x = m then m\<lparr>bm_DeletedAt := n'\<rparr> else x) (tb_srv (view db))
       else tb_srv (view db))"
  by (rule sql_store.del_srv_routes_ok [OF easytask_sql [OF assms(1)] assms(3,2)]) (intro exI conjI)

definition demo_two_routes :: mem where
  "demo_two_routes = mem_of
     \<lparr>tb_task = [], tb_srv = [demo_srv_row\<lparr>sm_HasEnableHealthCheck := True\<rparr>],
      tb_route = [demo_route_row,
        demo_route_row\<lparr>bm_Id := 2, rm_Host := ''g'', rm_EnableHealthCheck := True\<rparr>], tb_log = []\<rparr>"

definition demo_dead_route :: callback_srv where
  "demo_dead_route = new_callback_srv ''1'' ''srv'' [new_srv_route ''2'' ''http'' ''g'' 80 5 True] True"

lemma del_srv_routes_effect_witness:
  "\<exists>db' n. del_srv_routes mem_store demo_dead_route demo_two_routes = (Inr (), db') \<and>
    tb_route (mm_tabs db') = map (\<lambda>r. if bm_DeletedAt r = 0 \<and> rm_SrvId r = 1 \<and> bm_Id r = 2
               then r\<lparr>bm_DeletedAt := n\<rparr> else r) (tb_route (mm_tabs demo_two_routes))"
proof -
  have "fst (del_srv_routes mem_store demo_dead_route demo_two_routes) = Inr ()" by code_simp
  then obtain db' where run: "del_srv_routes mem_store demo_dead_route demo_two_routes = (Inr (), db')"
    by (rule fst_eqE)
  have facts: "store_inv mem_co (mm_tabs demo_two_routes)" "route_model_ids (cs_routes demo_dead_route) = Inr [2]"
    "list_all (\<lambda>m. bm_Id m = 1) (tb_srv (mm_tabs demo_two_routes))"
    by code_simp+
  from del_srv_routes_effect [OF mem_is_easytask facts(1) run] obtain m n where
    "m \<in> set (tb_srv (mm_tabs demo_two_routes))"
    "tb_route (mm_tabs db') =
      map (\<lambda>r. if bm_DeletedAt r = 0 \<and> rm_SrvId r = bm_Id m \<and> bm_Id r \<in> set [2]
               then r\<lparr>bm_DeletedAt := n\<rparr> else r) (tb_route (mm_tabs demo_two_routes))"
    using facts(2) by auto
  with facts(3) run show ?thesis by (auto simp: list_all_iff)
qed

text \<open>
  Recording a passed health check writes the time into the listed live routes and the service,
  and changes nothing else.
\<close>

lemma pass_health_check_effect:
  assumes "easytask_store S co clk view L" "store_inv co (view db)"
    and "set_srv_routes_pass_health_check S now srv db = (Inr u, db')" "cs_routes srv \<noteq> []"
  shows "\<exists>m ids n n'. m \<in> set (tb_srv (view db)) \<and> bm_DeletedAt m = 0 \<and>
    co_eq co (sm_Name m) (cs_name srv) \<and> route_model_ids (cs_routes srv) = Inr ids \<and>
    tb_route (view db') =
      map (\<lambda>r. if bm_DeletedAt r = 0 \<and> rm_SrvId r = bm_Id m \<and> bm_Id r \<in> set ids
               then r\<lparr>rm_CheckedHealthAt := now, bm_UpdatedAt := n\<rparr> else r) (tb_route (view db)) \<and>
    tb_srv (view db') =
      map (\<lambda>x. if x = m then m\<lparr>sm_CheckedHealthAt := now, bm_UpdatedAt := n'\<rparr> else x) (tb_srv (view db))"
  by (rule sql_store.set_pass_health_check_ok [OF easytask_sql [OF assms(1)] assms(3,2,4)])
    (intro exI conjI)

lemma pass_health_check_effect_witness:
  "\<exists>db' n. set_srv_routes_pass_health_check mem_store 1000 demo_dead_route demo_two_routes = (Inr (), db') \<and>
    tb_route (mm_tabs db') = map (\<lambda>r. if bm_DeletedAt r = 0 \<and> rm_SrvId r = 1 \<and> bm_Id r = 2
       then r\<lparr>rm_CheckedHealthAt := 1000, bm_UpdatedAt := n\<rparr> else r) (tb_route (mm_tabs demo_two_routes))"
proof -
  have "fst (set_srv_routes_pass_health_check mem_store 1000 demo_dead_route demo_two_routes) = Inr ()"
    by code_simp
  then obtain db' where
    run: "set_srv_routes_pass_health_check mem_store 1000 demo_dead_route demo_two_routes = (Inr (), db')"
    by (rule fst_eqE)
  have facts: "store_inv mem_co (mm_tabs demo_two_routes)" "route_model_ids (cs_routes demo_dead_route) = Inr [2]"
    "list_all (\<lambda>m. bm_Id m = 1) (tb_srv (mm_tabs demo_two_routes))" "cs_routes demo_dead_route \<noteq> []"
    by code_simp+
  from pass_health_check_effect [OF mem_is_easytask facts(1) run facts(4)] obtain m n where
    "m \<in> set (tb_srv (mm_tabs demo_two_routes))"
    "tb_route (mm_tabs db') =
      map (\<lambda>r. if bm_DeletedAt r = 0 \<and> rm_SrvId r = bm_Id m \<and> bm_Id r \<in> set [2]
               then r\<lparr>rm_CheckedHealthAt := 1000, bm_UpdatedAt := n\<rparr> else r) (tb_route (mm_tabs demo_two_routes))"
    using facts(2) by auto
  with facts(3) run show ?thesis by (auto simp: list_all_iff)
qed

end
