(* ===== verification/Api_Props.thy ===== *)
theory Api_Props
  imports Task_Api Repo_Props
begin

text \<open>
  The properties of the API: what a request leaves in the database, through the handler, the
  service, the registry and the repository, and which requests are refused.
\<close>

section \<open>Through the layers\<close>

lemma route_model_ids_in:
  "route_model_ids rs = Inr ids \<Longrightarrow> r \<in> set rs \<Longrightarrow> \<exists>w. toCallbackSrvRouteModelId (rt_id r) = Inr w \<and> w \<in> set ids"
  by (induction rs arbitrary: ids) (auto split: sum.splits)

context easytask_store
begin

text \<open>The time for which a request asks.\<close>

lemma add_req_task:
  assumes "new_task vld (zero_task_req
        \<lparr>nt_CallbackSrv := Some srv, nt_CallbackPath := va_CallbackPath q, nt_Name := va_Name q,
         nt_Arg := va_Arg q, nt_SchedMode := va_SchedMode q, nt_TimeSpecAt := va_TimeSpecAt q,
         nt_TimeCronExpr := va_TimeCron q, nt_TimeIntervalSec := va_TimeIntervalSec q,
         nt_BizId := va_BizId q\<rparr>) = Inr t"
  shows "t_callbackSrv t = srv" "t_callbackPath t = va_CallbackPath q" "t_name t = va_Name q" "t_arg t = va_Arg q"
    "t_schedMode t = va_SchedMode q" "t_timeSpecAt t = va_TimeSpecAt q" "t_timeCronExpr t = va_TimeCron q"
    "t_timeIntervalSec t = va_TimeIntervalSec q" "t_bizId t = va_BizId q"
  using new_task_fields [OF assms] by (simp_all add: zero_task_req_def)

lemma api_add_stores:
  assumes inv: "inv_db db" and A: "easytask_api L S A"
    and run: "api_add_task A now req db = (Inr resp, db')" and id: "had_TaskId resp \<noteq> []"
  shows "\<exists>srv mode t nxt m. srv \<in> set (tb_srv (view db)) \<and> bm_DeletedAt srv = 0 \<and>
    co_eq co (sm_Name srv) (ha_SrvName req) \<and> api_sched_mode req = Inr mode \<and>
    t_schedMode t = mode \<and> t_name t = ha_Name req \<and> t_bizId t = ha_BizId req \<and> t_arg t = ha_Arg req \<and>
    t_callbackPath t = ha_CallbackPath req \<and> t_timeCronExpr t = ha_TimeCron req \<and>
    t_timeIntervalSec t = ha_TimeIntervalSec req \<and> t_timeSpecAt t = ha_TimeSpecAt req \<and>
    get_sched_next_at (lb_cron L) now t = Inr nxt \<and> had_TaskId resp = toTaskEntityId (bm_Id m) \<and>
    scheduled_as (bm_Id srv) nxt t m \<and> {x \<in> set (tb_task (view db')). same_task co t x} = {m}"
proof -
  from A have A': "ap_tasks A = easytask_repo L S" "ap_srvs A = mysql_srv_repo L S"
    by (simp_all add: easytask_api_def)
  from run obtain mode taskId where mode: "api_sched_mode req = Inr mode"
    and svc: "svc_add_task A now (svc_add_req req mode) db = (Inr \<lparr>vad_TaskId = taskId\<rparr>, db')"
    and resp: "had_TaskId resp = taskId"
    by (auto simp: api_add_task_def svc_add_task_def bind_io_ok)
  let ?q = "svc_add_req req mode"
  from svc obtain srv db1 t where disc: "discover (mysql_srv_repo L S) (ha_SrvName req) db = (Inr srv, db1)"
    and new: "new_task (ap_vld A) (zero_task_req
        \<lparr>nt_CallbackSrv := Some srv, nt_CallbackPath := va_CallbackPath ?q, nt_Name := va_Name ?q,
         nt_Arg := va_Arg ?q, nt_SchedMode := va_SchedMode ?q, nt_TimeSpecAt := va_TimeSpecAt ?q,
         nt_TimeCronExpr := va_TimeCron ?q, nt_TimeIntervalSec := va_TimeIntervalSec ?q,
         nt_BizId := va_BizId ?q\<rparr>) = Inr t"
    and add: "add_task L S now t db1 = (Inr taskId, db')"
    by (auto simp: svc_add_task_def bind_io_ok A' svc_add_req_def easytask_repo_def)
  obtain m0 where m0: "view db1 = view db" "m0 \<in> set (tb_srv (view db))" "bm_DeletedAt m0 = 0"
    "co_eq co (sm_Name m0) (ha_SrvName req)" "cs_id srv = toTaskCallbackSrvEntityId (bm_Id m0)"
    by (rule discover_ok [OF disc])
  have inv1: "inv_db db1" using inv m0(1) by simp
  from add_stores [OF inv1 add] id resp obtain srvId nxt m where
    m: "toCallbackSrvRouteModelId (cs_id (t_callbackSrv t)) = Inr srvId"
    "get_sched_next_at (lb_cron L) now t = Inr nxt" "taskId = toTaskEntityId (bm_Id m)"
    "scheduled_as srvId nxt t m" "{x \<in> set (tb_task (view db')). same_task co t x} = {m}" by blast
  note t = add_req_task [OF new]
  have "srvId = bm_Id m0" using m(1) m0(5) t(1) by simp
  with m m0 mode resp t show ?thesis
    by (intro exI [of _ m0] exI [of _ mode] exI [of _ t] exI [of _ nxt] exI [of _ m])
      (simp add: svc_add_req_def)
qed

text \<open>Unregistering removes every route at the address of the request.\<close>

lemma api_unregister_removes:
  assumes inv: "inv_db db" and A: "easytask_api L S A"
    and run: "api_unregister A req db = (Inr u, db')"
    and srv: "m \<in> set (tb_srv (view db'))" "bm_DeletedAt m = 0" "co_eq co (sm_Name m) (hun_Name req)"
    and r: "r \<in> set (live_routes (view db') (bm_Id m))"
  shows "r \<in> set (live_routes (view db) (bm_Id m)) \<and>
    \<not> (rm_Host r = hun_Host req \<and> rm_SrvSchema r = hun_Schema req \<and> rm_Port r = hun_Port req)"
proof -
  let ?req = "\<lparr>vun_Name = hun_Name req, vun_Schema = hun_Schema req, vun_Host = hun_Host req, vun_Port = hun_Port req\<rparr>"
  from A have A': "ap_srvs A = mysql_srv_repo L S" "ap_copy_unregister A req = Inr ?req"
    by (simp_all add: easytask_api_def api_law_def)
  with run obtain found db1 where disc: "discover (mysql_srv_repo L S) (hun_Name req) db = (Inr found, db1)"
    and del: "del_srv_routes S (new_callback_srv (cs_id found) (cs_name found) (ready_del_routes ?req found)
            (has_enable_health_check_route found)) db1 = (Inr u, db')"
    by (auto simp: api_unregister_def svc_unregister_def bind_io_ok unregister_srv_def)
  obtain m0 where m0: "view db1 = view db" "m0 \<in> set (tb_srv (view db))"
    "co_eq co (sm_Name m0) (hun_Name req)" "cs_name found = sm_Name m0"
    "set (cs_routes found) = route_to_entity ` set (live_routes (view db) (bm_Id m0))"
    by (rule discover_ok [OF disc])
  have inv1: "inv_db db1" using inv m0(1) by simp
  obtain m1 ids n n' where d: "m1 \<in> set (tb_srv (view db1))"
    "co_eq co (sm_Name m1) (sm_Name m0)" "route_model_ids (ready_del_routes ?req found) = Inr ids" "0 < n" "0 < n'"
    "tb_route (view db') =
       map (\<lambda>r. if bm_DeletedAt r = 0 \<and> rm_SrvId r = bm_Id m1 \<and> bm_Id r \<in> set ids
                then r\<lparr>bm_DeletedAt := n\<rparr> else r) (tb_route (view db1))"
    "tb_srv (view db') =
       (if live_routes (view db') (bm_Id m1) = []
        then map (\<lambda>x. if x = m1 then m1\<lparr>bm_DeletedAt := n'\<rparr> else x) (tb_srv (view db1))
        else tb_srv (view db1))"
    by (rule del_srv_routes_ok [OF del inv1]) (auto simp: new_callback_srv_def m0(4))
  have m1: "m1 = m0" by (rule srv_name_eq [OF inv1 d(1) _ d(2)]) (simp add: m0)
  have "m \<in> set (tb_srv (view db1))" using srv(1,2) d(5,7) by (auto split: if_splits)
  then have m: "m = m0" using srv_unique [OF inv _ m0(2) srv(3) m0(3)] m0(1) by simp
  from r have live: "r \<in> set (tb_route (view db))" "bm_DeletedAt r = 0" "rm_SrvId r = bm_Id m0" "bm_Id r \<notin> set ids"
    using d(4,6) m0(1) m m1 by (auto simp: live_routes_def split: if_splits)
  have "\<not> (rm_Host r = hun_Host req \<and> rm_SrvSchema r = hun_Schema req \<and> rm_Port r = hun_Port req)"
  proof
    assume "rm_Host r = hun_Host req \<and> rm_SrvSchema r = hun_Schema req \<and> rm_Port r = hun_Port req"
    then have "route_to_entity r \<in> set (ready_del_routes ?req found)"
      using live m0(5) by (simp add: ready_del_routes_def live_routes_def)
    from route_model_ids_in [OF d(3) this] live(4) show False by (simp add: route_to_entity_def new_srv_route_def)
  qed
  with live m show ?thesis by (simp add: live_routes_def)
qed

end

section \<open>Properties\<close>

text \<open>
  C13. An accepted \<open>AddTask\<close> request is stored as it was asked for: the named service is registered, and
  exactly one row of the task's name and business id is left, live, under the identifier of the answer,
  belonging to that service, with the mode, argument and path of the request and planned for the
  time its schedule gives.
\<close>

lemma api_add_task_stores:
  assumes "easytask_store S co clk view L" "store_inv co (view db)" "easytask_api L S A"
    and "api_add_task A now req db = (Inr resp, db')" "had_TaskId resp \<noteq> []"
  shows "\<exists>srv mode t nxt m. srv \<in> set (tb_srv (view db)) \<and> bm_DeletedAt srv = 0 \<and>
    co_eq co (sm_Name srv) (ha_SrvName req) \<and> api_sched_mode req = Inr mode \<and>
    t_schedMode t = mode \<and> t_name t = ha_Name req \<and> t_bizId t = ha_BizId req \<and> t_arg t = ha_Arg req \<and>
    t_callbackPath t = ha_CallbackPath req \<and> t_timeCronExpr t = ha_TimeCron req \<and>
    t_timeIntervalSec t = ha_TimeIntervalSec req \<and> t_timeSpecAt t = ha_TimeSpecAt req \<and>
    get_sched_next_at (lb_cron L) now t = Inr nxt \<and> had_TaskId resp = toTaskEntityId (bm_Id m) \<and>
    scheduled_as (bm_Id srv) nxt t m \<and> {x \<in> set (tb_task (view db')). same_task co t x} = {m}"
  by (rule easytask_store.api_add_stores [OF assms(1,2,3,4,5)])

definition demo_api :: "mem api" where
  "demo_api = ref_api (easytask_repo ref_libs mem_store) (mysql_srv_repo ref_libs mem_store)"

lemma demo_api_ok: "easytask_api ref_libs mem_store demo_api"
  unfolding demo_api_def by (rule ref_is_easytask_api)

definition demo_add_req :: http_add_task_req where
  "demo_add_req =
     \<lparr>ha_Name = ''fresh'', ha_SrvName = ''srv'', ha_CallbackPath = ''/run'', ha_SchedMode = 3, ha_TimeCron = [],
      ha_TimeIntervalSec = 60, ha_TimeSpecAt = 0, ha_Arg = ''x'', ha_BizId = ''b''\<rparr>"

lemma api_add_task_stores_witness:
  "\<exists>db' m. api_add_task demo_api 1000 demo_add_req demo_mem = (Inr \<lparr>had_TaskId = ''8''\<rparr>, db') \<and>
    m \<in> set (tb_task (mm_tabs db')) \<and> tm_Arg m = ''x'' \<and> tm_CallbackSrvId m = 1 \<and> tm_PlanSchedNextAt m = 1060"
proof -
  let ?run = "api_add_task demo_api 1000 demo_add_req demo_mem"
  have "fst ?run = Inr \<lparr>had_TaskId = ''8''\<rparr>" by code_simp
  then obtain db' where run: "?run = (Inr \<lparr>had_TaskId = ''8''\<rparr>, db')" by (rule fst_eqE)
  from api_add_task_stores [OF mem_is_easytask demo_inv demo_api_ok run] obtain srv mode t nxt m where
    srv: "srv \<in> set (tb_srv (mm_tabs demo_mem))"
    and t: "api_sched_mode demo_add_req = Inr mode" "t_schedMode t = mode" "t_arg t = ha_Arg demo_add_req"
      "t_timeIntervalSec t = ha_TimeIntervalSec demo_add_req" "get_sched_next_at (lb_cron ref_libs) 1000 t = Inr nxt"
    and m: "scheduled_as (bm_Id srv) nxt t m" "{x \<in> set (tb_task (mm_tabs db')). same_task mem_co t x} = {m}"
    by auto
  have "api_sched_mode demo_add_req = Inr SchedModeTimeInterval" by code_simp
  with t have "nxt = 1060" by (simp add: get_sched_next_at_def demo_add_req_def wrap64_def)
  moreover have "bm_Id srv = 1" using srv by (simp add: demo_mem_def mem_of_def demo_srv_row_def)
  moreover have "m \<in> set (tb_task (mm_tabs db'))" using m(2) by blast
  ultimately show ?thesis
    using run m(1) t(3) by (intro exI [of _ db'] exI [of _ m]) (simp add: scheduled_as_def demo_add_req_def)
qed

text \<open>
  An incomplete schedule is refused before anything is read or written: a cron task with a blank
  expression, a one-time task without a time, an interval task without an interval are
  answered with \<open>ErrCodeArgsInvalid\<close>.
\<close>

lemma api_rejects_incomplete_schedule:
  assumes "(ha_SchedMode req = proto_SchedModeTimeCron \<and> list_all is_space (ha_TimeCron req)) \<or>
    (ha_SchedMode req = proto_SchedModeTimeSpec \<and> ha_TimeSpecAt req = 0) \<or>
    (ha_SchedMode req = proto_SchedModeTimeInterval \<and> ha_TimeIntervalSec req = 0)"
  shows "\<exists>msg. msg \<noteq> [] \<and> api_add_task A now req db = (Inl (BizError ErrCodeArgsInvalid msg), db)"
  using assms
  by (auto simp: api_add_task_def api_sched_mode_def trim_space_empty proto_mode_defs newBizErrWithMsg_def bind_io_def)

lemma api_rejects_incomplete_schedule_witness:
  "\<exists>msg. msg \<noteq> [] \<and> api_add_task demo_api 1000 (demo_add_req\<lparr>ha_TimeIntervalSec := 0\<rparr>) demo_mem =
     (Inl (BizError ErrCodeArgsInvalid msg), demo_mem)"
  by (rule api_rejects_incomplete_schedule) (simp add: demo_add_req_def proto_mode_defs)

text \<open>
  A mode the protocol does not know is not refused as an invalid argument: for a registered
  service the request ends in an error that is not a business error, which the router answers as an
  internal error, and nothing is stored.
\<close>

lemma api_unknown_mode_is_internal:
  assumes "easytask_store S co clk view L" "easytask_api L S A"
    and "ha_SchedMode req \<notin> {proto_SchedModeTimeCron, proto_SchedModeTimeSpec, proto_SchedModeTimeInterval}"
    and "discover (mysql_srv_repo L S) (ha_SrvName req) db = (Inr srv, db1)"
  shows "\<exists>e. api_add_task A now req db = (Inl (ValidatorErr e), db1) \<and> view db1 = view db"
proof -
  have mode: "api_sched_mode req = Inr SchedModeNil" using assms(3) by (simp add: api_sched_mode_def)
  have A: "ap_srvs A = mysql_srv_repo L S" "validator_law (ap_vld A)"
    using assms(2) by (simp_all add: easytask_api_def api_law_def)
  let ?r = "zero_task_req\<lparr>nt_CallbackSrv := Some srv, nt_CallbackPath := ha_CallbackPath req, nt_Name := ha_Name req,
         nt_Arg := ha_Arg req, nt_SchedMode := SchedModeNil, nt_TimeSpecAt := ha_TimeSpecAt req,
         nt_TimeCronExpr := ha_TimeCron req, nt_TimeIntervalSec := ha_TimeIntervalSec req, nt_BizId := ha_BizId req\<rparr>"
  obtain e where "new_task (ap_vld A) ?r = Inl (ValidatorErr e)"
    using new_task_ok_iff [OF A(2), of ?r] by (auto simp: new_task_def split: option.splits)
  then have "api_add_task A now req db = (Inl (ValidatorErr e), db1)"
    using mode assms(4) A(1)
    by (simp add: api_add_task_def svc_add_task_def svc_add_req_def bind_io_def)
  moreover have "view db1 = view db" by (rule easytask_store.discover_frame [OF assms(1,4)])
  ultimately show ?thesis by blast
qed

lemma api_unknown_mode_is_internal_witness:
  "\<exists>e db1. api_add_task demo_api 1000 (demo_add_req\<lparr>ha_SchedMode := 9\<rparr>) demo_mem = (Inl (ValidatorErr e), db1) \<and>
    mm_tabs db1 = mm_tabs demo_mem"
proof -
  have "fst (discover (mysql_srv_repo ref_libs mem_store) ''srv'' demo_mem) = Inr demo_srv" by code_simp
  then obtain db1 where "discover (mysql_srv_repo ref_libs mem_store) ''srv'' demo_mem = (Inr demo_srv, db1)"
    by (rule fst_eqE)
  then have disc: "discover (mysql_srv_repo ref_libs mem_store) (ha_SrvName (demo_add_req\<lparr>ha_SchedMode := 9\<rparr>)) demo_mem =
      (Inr demo_srv, db1)" by (simp add: demo_add_req_def)
  have "ha_SchedMode (demo_add_req\<lparr>ha_SchedMode := 9\<rparr>) \<notin>
      {proto_SchedModeTimeCron, proto_SchedModeTimeSpec, proto_SchedModeTimeInterval}"
    by (simp add: proto_mode_defs)
  from api_unknown_mode_is_internal [OF mem_is_easytask demo_api_ok this disc] show ?thesis by blast
qed

text \<open>
  C32. An unregistered address is gone: after a successful request the service, when it is still live, has no
  live route with the scheme, host and port of the request, and gained none.
\<close>

lemma api_unregister_removes_address:
  assumes "easytask_store S co clk view L" "store_inv co (view db)" "easytask_api L S A"
    and "api_unregister A req db = (Inr u, db')"
    and "m \<in> set (tb_srv (view db'))" "bm_DeletedAt m = 0" "co_eq co (sm_Name m) (hun_Name req)"
    and "r \<in> set (live_routes (view db') (bm_Id m))"
  shows "r \<in> set (live_routes (view db) (bm_Id m)) \<and>
    \<not> (rm_Host r = hun_Host req \<and> rm_SrvSchema r = hun_Schema req \<and> rm_Port r = hun_Port req)"
  by (rule easytask_store.api_unregister_removes [OF assms])

definition demo_unregister_req :: http_unregister_req where
  "demo_unregister_req = \<lparr>hun_Name = ''srv'', hun_Schema = ''http'', hun_Host = ''g'', hun_Port = 80\<rparr>"

lemma api_unregister_removes_address_witness:
  "\<exists>db' r. api_unregister demo_api demo_unregister_req demo_two_routes = (Inr (), db') \<and>
    r \<in> set (live_routes (mm_tabs db') 1) \<and> rm_Host r \<noteq> ''g''"
proof -
  let ?run = "api_unregister demo_api demo_unregister_req demo_two_routes"
  let ?m = "demo_srv_row\<lparr>sm_HasEnableHealthCheck := True\<rparr>"
  have "fst ?run = Inr ()" by code_simp
  then obtain db' where run: "?run = (Inr (), db')" by (rule fst_eqE)
  have "tb_srv (mm_tabs (snd ?run)) = [?m]" "live_routes (mm_tabs (snd ?run)) 1 = [demo_route_row]" by code_simp+
  then have after: "tb_srv (mm_tabs db') = [?m]" "live_routes (mm_tabs db') 1 = [demo_route_row]"
    unfolding run by simp_all
  have inv: "store_inv mem_co (mm_tabs demo_two_routes)" by code_simp
  have "\<not> (rm_Host demo_route_row = hun_Host demo_unregister_req \<and>
      rm_SrvSchema demo_route_row = hun_Schema demo_unregister_req \<and> rm_Port demo_route_row = hun_Port demo_unregister_req)"
    by (rule api_unregister_removes_address [OF mem_is_easytask inv demo_api_ok run, of ?m, THEN conjunct2])
      (simp_all add: after demo_srv_row_def mem_co_def demo_unregister_req_def)
  then have "rm_Host demo_route_row \<noteq> ''g''"
    by (simp add: demo_unregister_req_def demo_route_row_def)
  with run after(2) show ?thesis
    by (intro exI [of _ db'] exI [of _ demo_route_row]) simp
qed

text \<open>
  C40. On tables created from the row structs no confirmation over the API succeeds: every
  \<open>ConfirmTask\<close> request reports success or failure, both write a column that does not exist, so the request
  fails and the outcome is not stored.
\<close>

lemma api_confirm_always_fails:
  assumes "migrated_store S co clk view" "easytask_api L S A"
  shows "\<exists>e db'. api_confirm_task A now nowLog req db = (Inl e, db') \<and> view db' = view db"
proof -
  let ?q = "\<lparr>vct_TaskId = hct_TaskId req, vct_IsSuccess = hct_IsSuccess req,
        vct_Extra = hct_Extra req, vct_TaskRunTimes = hct_TaskRunTimes req\<rparr>"
  have A: "ap_tasks A = easytask_repo L S" "ap_copy_confirm A req = Inr ?q"
    using assms(2) by (simp_all add: easytask_api_def api_law_def)
  let ?p = "new_task_resp (hct_TaskId req) True (if hct_IsSuccess req then StatusSuccess else StatusFailed)
      (hct_TaskRunTimes req) (hct_Extra req)"
  have "api_confirm_task A now nowLog req db = confirm_task S (mysql_log_repo S) now nowLog ?p db"
    by (simp add: api_confirm_task_def svc_confirm_task_def A bind_io_def easytask_repo_def Let_def)
  moreover have "tr_taskStatus ?p = StatusSuccess \<or> tr_taskStatus ?p = StatusFailed"
    by (simp add: new_task_resp_def)
  ultimately show ?thesis using migrated_store.confirm_fails [OF assms(1)] by metis
qed

lemma api_confirm_always_fails_witness:
  "\<exists>e db'. api_confirm_task demo_api 1000 1000
     \<lparr>hct_TaskId = ''7'', hct_IsSuccess = True, hct_Extra = [], hct_TaskRunTimes = 1\<rparr> demo_mem = (Inl e, db') \<and>
    mm_tabs db' = mm_tabs demo_mem"
  by (rule api_confirm_always_fails [OF mem_is_migrated demo_api_ok])

end
