(* ===== verification/Data_Props.thy ===== *)
theory Data_Props
  imports Data_Model
begin

text \<open>
  Properties of the data: which texts are identifiers, against a reference reading of decimal numbers, and
  the times an interval schedule can give.
\<close>

section \<open>Decimal numbers\<close>

definition undec :: "string \<Rightarrow> int" where
  "undec s = foldl (\<lambda>n c. n * 10 + digit_val c) 0 s"

abbreviation dec_step :: "int \<Rightarrow> char \<Rightarrow> int" where
  "dec_step n c \<equiv> n * 10 + digit_val c"

lemma undec_dec: "undec (dec n) = int n"
proof (induction n rule: dec.induct)
  case (1 n)
  show ?case
  proof (cases "n < 10")
    case True
    then show ?thesis by (simp add: dec.simps [of n] undec_def digit_val_def of_char_digit_char)
  next
    case False
    have "undec (dec n) = undec (dec (n div 10)) * 10 + digit_val (digit_char (n mod 10))"
      using False by (simp add: dec.simps [of n] undec_def)
    also have "\<dots> = int (n div 10) * 10 + int (n mod 10)"
      using 1 False by (simp add: digit_val_def of_char_digit_char)
    also have "\<dots> = int n" by (metis mult.commute div_mult_mod_eq of_nat_add of_nat_mult of_nat_numeral)
    finally show ?thesis .
  qed
qed

lemma digit_val_bounds: "is_digit c \<Longrightarrow> 0 \<le> digit_val c \<and> digit_val c \<le> 9"
  by (simp add: is_digit_def digit_val_def)

lemma dec_step_mono: "list_all is_digit s \<Longrightarrow> 0 \<le> n \<Longrightarrow> n \<le> foldl dec_step n s"
proof (induction s arbitrary: n)
  case (Cons c s)
  then have "0 \<le> dec_step n c" "n \<le> dec_step n c" using digit_val_bounds [of c] by auto
  with Cons.IH [of "dec_step n c"] Cons.prems show ?case by simp
qed simp

lemma parse_loop_iff:
  assumes "0 \<le> n" "n < 2 ^ 64"
  shows "parse_loop s n = (m, None) \<longleftrightarrow> list_all is_digit s \<and> m = foldl dec_step n s \<and> m < 2 ^ 64"
  using assms
proof (induction s arbitrary: n)
  case Nil
  then show ?case by auto
next
  case (Cons c s)
  show ?case
  proof (cases "is_digit c \<and> dec_step n c < 2 ^ 64")
    case True
    then have "0 \<le> dec_step n c" using Cons.prems digit_val_bounds [of c] by simp
    with Cons.IH [of "dec_step n c"] True show ?thesis by auto
  next
    case False
    then have "\<not> (list_all is_digit (c # s) \<and> foldl dec_step n (c # s) < 2 ^ 64)"
      using dec_step_mono [of s "dec_step n c"] Cons.prems digit_val_bounds [of c] by auto
    with False show ?thesis by auto
  qed
qed

lemma parse_uint_iff:
  "parse_uint s = (w, None) \<longleftrightarrow> s \<noteq> [] \<and> list_all is_digit s \<and> undec s = uint w"
proof -
  have "parse_uint s = (w, None) \<longleftrightarrow> s \<noteq> [] \<and> (\<exists>m. parse_loop s 0 = (m, None) \<and> of_int m = w)"
    by (auto simp: parse_uint_def split: prod.splits)
  also have "\<dots> \<longleftrightarrow> s \<noteq> [] \<and> list_all is_digit s \<and> undec s < 2 ^ 64 \<and> of_int (undec s) = w"
    by (auto simp: parse_loop_iff undec_def)
  also have "\<dots> \<longleftrightarrow> s \<noteq> [] \<and> list_all is_digit s \<and> undec s = uint w"
  proof (cases "list_all is_digit s")
    case True
    then have "0 \<le> undec s" using dec_step_mono [of s 0] by (simp add: undec_def)
    moreover have "uint w < 2 ^ 64" using uint_lt2p [of w] by simp
    ultimately show ?thesis
      by (auto simp: uint_word_of_int_eq unsigned_of_int take_bit_int_eq_self dest: sym)
  qed simp
  finally show ?thesis .
qed

section \<open>Properties\<close>

text \<open>
  C34. A task identifier is accepted exactly when it is a nonempty text of decimal digits whose value fits in
  64 bits, and it then stands for that value; so the text of a row's identifier is read back as that
  row's, at every value of the column.
\<close>

lemma task_ids_read_back:
  "(toTaskModelId s = (w, None) \<longleftrightarrow> s \<noteq> [] \<and> list_all is_digit s \<and> undec s = uint w) \<and>
   toTaskModelId (toTaskEntityId w) = (w, None)"
  by (simp add: toTaskModelId_def toTaskEntityId_def parse_uint_iff [symmetric])

text \<open>
  C35. The next time of an interval task is the clock plus the interval at the width of an \<open>int64\<close>, whatever the interval: it
  lies in the future exactly when the interval is positive and the sum does not overflow. When a positive interval overflows the next
  time is negative, and with a negative interval, which the API accepts, it is in the past; either way the
  task is due at once, over and over.
\<close>

lemma interval_next_time_bounds:
  assumes "t_schedMode t = SchedModeTimeInterval" "- (2 ^ 63) \<le> t_timeIntervalSec t" "t_timeIntervalSec t < 2 ^ 63"
    and "0 \<le> now" "now < 2 ^ 63" "get_sched_next_at cron now t = Inr next"
  shows "- (2 ^ 63) \<le> next \<and> next < 2 ^ 63 \<and>
    (now < next \<longleftrightarrow> 0 < t_timeIntervalSec t \<and> now + t_timeIntervalSec t < 2 ^ 63) \<and>
    (0 < t_timeIntervalSec t \<and> \<not> now < next \<longrightarrow> next < 0) \<and>
    (t_timeIntervalSec t \<le> 0 \<longrightarrow> next = now + t_timeIntervalSec t)"
proof -
  let ?sum = "now + t_timeIntervalSec t"
  have next_eq: "next = wrap64 ?sum" using assms(1,6) by (simp add: get_sched_next_at_def)
  show ?thesis
  proof (cases "?sum < 2 ^ 63")
    case True
    then have "next = ?sum" unfolding next_eq using assms by (intro wrap64_id) simp_all
    then show ?thesis using True assms by auto
  next
    case False
    then have "(?sum - 2 ^ 63) mod 2 ^ 64 = ?sum - 2 ^ 63" using assms by (intro mod_pos_pos_trivial) simp_all
    moreover have "(?sum + 2 ^ 63) mod 2 ^ 64 = (?sum - 2 ^ 63) mod 2 ^ 64"
      by (rule trans [OF _ mod_add_self2]) (simp add: algebra_simps)
    ultimately have "next = ?sum - 2 ^ 64" unfolding next_eq wrap64_def by simp
    then show ?thesis using False assms by auto
  qed
qed

definition hourly :: task where
  "hourly = \<lparr>t_id = ''7'', t_callbackSrv = \<lparr>cs_id = ''1'', cs_name = ''srv'', cs_routes = [], cs_hasEnableHealthCheck = False\<rparr>,
     t_callbackPath = [], t_name = ''n'', t_arg = [], t_runTimes = 0, t_lastRunAt = 0, t_allowMaxRunTimes = 0,
     t_maxRunTimeSec = 0, t_schedMode = SchedModeTimeInterval, t_timeCronExpr = [], t_timeIntervalSec = 3600,
     t_timeSpecAt = 0, t_bizId = []\<rparr>"

definition demo_cron :: cron_lib where
  "demo_cron expr = Inr (\<lambda>now. now + 60)"

lemma interval_next_time_bounds_witness:
  "(\<exists>next. get_sched_next_at demo_cron 1000 hourly = Inr next \<and> 1000 < next) \<and>
   (\<exists>next. get_sched_next_at demo_cron (2 ^ 63 - 1) hourly = Inr next \<and> next < 0) \<and>
   (\<exists>next. get_sched_next_at demo_cron 1000 (hourly\<lparr>t_timeIntervalSec := - 5\<rparr>) = Inr next \<and> next = 995)"
proof -
  let ?neg = "hourly\<lparr>t_timeIntervalSec := - 5\<rparr>"
  have h: "t_schedMode hourly = SchedModeTimeInterval" "t_timeIntervalSec hourly = 3600" by (simp_all add: hourly_def)
  have g: "t_schedMode ?neg = SchedModeTimeInterval" by (simp add: hourly_def)
  obtain a where a: "get_sched_next_at demo_cron 1000 hourly = Inr a" by (simp add: get_sched_next_at_def h)
  obtain b where b: "get_sched_next_at demo_cron (2 ^ 63 - 1) hourly = Inr b" by (simp add: get_sched_next_at_def h)
  obtain c where c: "get_sched_next_at demo_cron 1000 ?neg = Inr c" by (simp add: get_sched_next_at_def g)
  have "1000 < a" using interval_next_time_bounds [OF h(1) _ _ _ _ a] by (simp add: h(2))
  moreover have "b < 0" using interval_next_time_bounds [OF h(1) _ _ _ _ b] by (simp add: h(2))
  moreover have "c = 995" using interval_next_time_bounds [OF g _ _ _ _ c] by simp
  ultimately show ?thesis using a b c by blast
qed

end
