(* ===== verification/Rpc_Reference.thy ===== *)
theory Rpc_Reference
  imports Rpc_Client Api_Props Data_Props
begin

text \<open>
  A reference for the third-party parts of the API conversation: a text format for requests and
  responses that both ends read, so that the laws of \<open>http_codec\<close> and \<open>api_link\<close> can hold, with the
  example database behind the server. The development's witnesses run on it.
\<close>

section \<open>Texts of fields\<close>

fun enc_str :: "string \<Rightarrow> string" where
  "enc_str [] = '';''"
| "enc_str (c # cs) = CHR ''x'' # c # enc_str cs"

fun enc_strs :: "string list \<Rightarrow> string" where
  "enc_strs [] = []"
| "enc_strs (s # ss) = enc_str s @ enc_strs ss"

fun dec_strs :: "string \<Rightarrow> string list" where
  "dec_strs [] = []"
| "dec_strs (t # cs) =
     (if t = CHR '';'' then [] # dec_strs cs
      else
        (case cs of
           [] \<Rightarrow> []
         | c # cs' \<Rightarrow> (case dec_strs cs' of [] \<Rightarrow> [[c]] | s # ss \<Rightarrow> (c # s) # ss)))"

lemma dec_enc_str: "dec_strs (enc_str s @ rest) = s # dec_strs rest"
  by (induction s) simp_all

lemma dec_enc_strs: "dec_strs (enc_strs ss) = ss"
  by (induction ss) (simp_all add: dec_enc_str)

definition read_int :: "string \<Rightarrow> int" where
  "read_int s = (case s of [] \<Rightarrow> 0 | c # cs \<Rightarrow> if c = CHR ''-'' then - undec cs else undec s)"

lemma dec_head: "\<exists>c cs. dec n = c # cs \<and> c \<noteq> CHR ''-''"
proof (induction n rule: dec.induct)
  case (1 n)
  have d: "digit_char k \<noteq> CHR ''-''" if "k < 10" for k
  proof
    assume "digit_char k = CHR ''-''"
    then have "(of_char (digit_char k) :: int) = of_char CHR ''-''" by simp
    with that show False by (simp add: of_char_digit_char)
  qed
  show ?case using 1 d by (cases "n < 10") (auto simp: dec.simps [of n])
qed

lemma read_sprintf_int: "read_int (sprintf_int n) = n"
proof (cases "n < 0")
  case True
  then show ?thesis by (simp add: sprintf_int_def read_int_def undec_dec)
next
  case False
  obtain c cs where "dec (nat n) = c # cs" "c \<noteq> CHR ''-''" using dec_head by blast
  with False undec_dec [of "nat n"] show ?thesis by (simp add: sprintf_int_def read_int_def)
qed

definition bool_str :: "bool \<Rightarrow> string" where
  "bool_str b = (if b then ''1'' else [])"

lemma bool_str_eq [simp]: "bool_str b = ''1'' \<longleftrightarrow> b"
  by (simp add: bool_str_def)

section \<open>Messages\<close>

fun msg_strs :: "api_msg \<Rightarrow> string list" where
  "msg_strs (MAddTask q) =
     [ha_Name q, ha_SrvName q, ha_CallbackPath q, sprintf_int (ha_SchedMode q), ha_TimeCron q,
      sprintf_int (ha_TimeIntervalSec q), sprintf_int (ha_TimeSpecAt q), ha_Arg q, ha_BizId q]"
| "msg_strs (MStopTask q) = [hst_TaskId q]"
| "msg_strs (MConfirmTask q) =
     [hct_TaskId q, bool_str (hct_IsSuccess q), hct_Extra q, sprintf_int (hct_TaskRunTimes q)]"
| "msg_strs (MRegister q) =
     [hrg_Name q, hrg_Schema q, hrg_Host q, sprintf_int (hrg_Port q),
      sprintf_int (hrg_CallbackTimeoutSec q), bool_str (hrg_IsEnableHealthCheck q)]"
| "msg_strs (MUnregister q) = [hun_Name q, hun_Schema q, hun_Host q, sprintf_int (hun_Port q)]"

definition read_msg :: "go_type \<Rightarrow> string list \<Rightarrow> go_err + api_msg" where
  "read_msg t ss =
     (if t = TStruct ''AddTaskReq'' then
        Inr (MAddTask \<lparr>ha_Name = ss ! 0, ha_SrvName = ss ! 1, ha_CallbackPath = ss ! 2,
          ha_SchedMode = read_int (ss ! 3), ha_TimeCron = ss ! 4, ha_TimeIntervalSec = read_int (ss ! 5),
          ha_TimeSpecAt = read_int (ss ! 6), ha_Arg = ss ! 7, ha_BizId = ss ! 8\<rparr>)
      else if t = TStruct ''StopTaskReq'' then Inr (MStopTask \<lparr>hst_TaskId = ss ! 0\<rparr>)
      else if t = TStruct ''ConfirmTaskReq'' then
        Inr (MConfirmTask \<lparr>hct_TaskId = ss ! 0, hct_IsSuccess = (ss ! 1 = ''1''), hct_Extra = ss ! 2,
          hct_TaskRunTimes = read_int (ss ! 3)\<rparr>)
      else if t = TStruct ''RegisterTaskCallbackSrvReq'' then
        Inr (MRegister \<lparr>hrg_Name = ss ! 0, hrg_Schema = ss ! 1, hrg_Host = ss ! 2, hrg_Port = read_int (ss ! 3),
          hrg_CallbackTimeoutSec = read_int (ss ! 4), hrg_IsEnableHealthCheck = (ss ! 5 = ''1'')\<rparr>)
      else
        Inr (MUnregister \<lparr>hun_Name = ss ! 0, hun_Schema = ss ! 1, hun_Host = ss ! 2, hun_Port = read_int (ss ! 3)\<rparr>))"

lemma read_msg_strs: "read_msg (msg_type q) (msg_strs q) = Inr q"
  by (cases q) (simp_all add: read_msg_def msg_type_def read_sprintf_int)

fun data_strs :: "api_data option \<Rightarrow> string list" where
  "data_strs None = []"
| "data_strs (Some (DAddTask r)) = [''a'', had_TaskId r]"
| "data_strs (Some DStopTask) = [''s'']"
| "data_strs (Some DConfirmTask) = [''c'']"
| "data_strs (Some DRegister) = [''r'']"
| "data_strs (Some DUnregister) = [''u'']"

definition read_data_strs :: "string list \<Rightarrow> api_data option" where
  "read_data_strs ss =
     (if ss = [] then None
      else if ss ! 0 = ''a'' then Some (DAddTask \<lparr>had_TaskId = ss ! 1\<rparr>)
      else if ss ! 0 = ''s'' then Some DStopTask
      else if ss ! 0 = ''c'' then Some DConfirmTask
      else if ss ! 0 = ''r'' then Some DRegister else Some DUnregister)"

lemma read_data_strs: "read_data_strs (data_strs d) = d"
  by (cases d rule: data_strs.cases) (simp_all add: read_data_strs_def)

definition resp_strs :: "api_data final_resp \<Rightarrow> string list" where
  "resp_strs r = [sprintf_int (fr_Code r), fr_Msg r, fr_Hint r] @ data_strs (fr_Data r)"

definition read_resp :: "string list \<Rightarrow> api_data final_resp" where
  "read_resp ss =
     \<lparr>fr_Code = read_int (ss ! 0), fr_Msg = ss ! 1, fr_Data = read_data_strs (drop 3 ss), fr_Hint = ss ! 2\<rparr>"

lemma read_resp_strs: "read_resp (resp_strs r) = r"
  by (simp add: read_resp_def resp_strs_def read_sprintf_int read_data_strs numeral_3_eq_3)

section \<open>The two ends\<close>

definition ref_http_lib :: "(api_msg, api_data) http_lib" where
  "ref_http_lib =
     \<lparr>hl_post_arg = (\<lambda>t req. read_msg t (dec_strs (rq_Body req))),
      hl_get_arg = (\<lambda>t req. Inl (JsonErr ''GET'')),
      hl_zero = (\<lambda>t. MStopTask \<lparr>hst_TaskId = []\<rparr>),
      hl_validate = (\<lambda>q. if list_all (\<lambda>f. \<not> snd f) (msg_required q) then None else Some ''required''),
      hl_json = (\<lambda>r. Inr (enc_strs (resp_strs r)))\<rparr>"

text \<open>The network: every request reaches the server at \<open>addr\<close>, whose routes work on \<open>A\<close>.\<close>

definition ref_cli_lib :: "'s api \<Rightarrow> string \<Rightarrow> ('s, api_msg, api_data) cli_lib" where
  "ref_cli_lib A addr =
     \<lparr>cl_json = (\<lambda>q. Inr (enc_strs (msg_strs q))),
      cl_new_req = (\<lambda>url. None),
      cl_do = (\<lambda>url body timeout s.
        case mux_serve ref_http_lib (api_map A (1000, 1000)) False ''t''
               \<lparr>rq_Method = ''POST'', rq_Path = drop (length addr) url, rq_Body = body\<rparr> s of
          (Inr (Some raw), t) \<Rightarrow> (Inr raw, t)
        | (_, t) \<Rightarrow> (Inl (HttpErr ''EOF''), t)),
      cl_resp_json = (\<lambda>raw r. (None, read_resp (dec_strs raw)))\<rparr>"

interpretation ref_codec: http_codec "ref_cli_lib A addr" ref_http_lib for A addr
  by unfold_locales
    (auto simp: ref_cli_lib_def ref_http_lib_def dec_enc_strs read_msg_strs read_resp_strs ascii_def split: if_splits)

lemma ref_link: "api_link (ref_cli_lib A addr) ref_http_lib A addr"
proof -
  have t: "ascii ''t''" by (simp add: ascii_def)
  show ?thesis
    unfolding api_link_def ref_cli_lib_def using t
    by (auto split: prod.splits sum.splits option.splits intro!: exI [of _ False] exI [of _ "''t''"] exI [of _ "1000 :: int"]
        simp: prod_eq_iff) 
qed

end
