(* ===== verification/Server_Props.thy ===== *)
theory Server_Props
  imports Rpc_Reference
begin

text \<open>
  The properties of the HTTP server and its client: what may be registered, that registered routes
  are found and stay fixed while the server runs, the answer to a request from the client's
  side, what is written, and the two sides of \<open>Stop\<close>.
\<close>

section \<open>Registration\<close>

text \<open>
  C33. \<open>Register\<close> accepts exactly these handler types: two parameters, the first a context, the second a
  pointer to a struct or any type that is no pointer; two results, the second an error, the first any
  pointer or a slice, array, map or channel of structs. The struct a request is decoded into is what the pointer points to, or
  the parameter's own type.
\<close>

lemma accepted_handler_types:
  "check_handler_type t = Inr reqType \<longleftrightarrow>
     (\<exists>arg resp. t = TFunc [TContext, arg] [resp, TError] \<and>
       (arg = TPtr reqType \<and> is_struct reqType \<or> \<not> is_ptr arg \<and> reqType = arg) \<and>
       (is_ptr resp \<or> (\<exists>n k key. resp \<in> {TSlice (TStruct n), TArray k (TStruct n), TMap key (TStruct n), TChan (TStruct n)})))"
  by (simp add: check_handler_type_iff handler_ok_def)

text \<open>
  A handler that takes its request by value is accepted and then ends the process: every
  request that is decoded and validated for it panics in \<open>Call\<close>, and no response is written.
\<close>

lemma by_value_handler_panics:
  assumes "gh_type h = TFunc [TContext, TStruct n] [TPtr resp, TError]"
    and "mm (rq_Method req) = Some \<lparr>hf_handler = h, hf_req = TStruct n\<rparr>"
    and "decode_req HL (TStruct n) req = Inr v" "hl_validate HL v = None"
  shows "check_handler_type (gh_type h) = Inr (TStruct n) \<and>
    handle_request HL mm False tid req s = (Inl (Panic ''reflect: Call using wrong type''), s)"
proof
  show "check_handler_type (gh_type h) = Inr (TStruct n)"
    by (simp add: check_handler_type_iff handler_ok_def assms(1) is_ptr_def)
  show "handle_request HL mm False tid req s = (Inl (Panic ''reflect: Call using wrong type''), s)"
    using assms by (simp add: handle_request_def call_handler_def)
qed

definition by_value :: "(nat, api_msg, api_data) go_handler" where
  "by_value = \<lparr>gh_type = TFunc [TContext, TStruct ''StopTaskReq''] [TPtr (TStruct ''StopTaskResp''), TError],
               gh_call = (\<lambda>v s. (Inr DStopTask, Suc s))\<rparr>"

lemma by_value_handler_panics_witness:
  "handle_request ref_http_lib [''POST'' \<mapsto> \<lparr>hf_handler = by_value, hf_req = TStruct ''StopTaskReq''\<rparr>] False ''t''
     \<lparr>rq_Method = ''POST'', rq_Path = ''/stop_task'', rq_Body = enc_strs [''7'']\<rparr> (0 :: nat) =
     (Inl (Panic ''reflect: Call using wrong type''), 0)"
  by (rule by_value_handler_panics [of by_value "''StopTaskReq''" "TStruct ''StopTaskResp''" _ _ _
        "MStopTask \<lparr>hst_TaskId = ''7''\<rparr>", THEN conjunct2])
    (simp_all add: by_value_def decode_req_def ref_http_lib_def dec_enc_str read_msg_def)

text \<open>
  After a successful \<open>RegisterBatch\<close> every route of the list was accepted, and the handler at a path
  and method is the one of the last such route of the list; every other path and method is as
  before.
\<close>

lemma registered_routes_are_found:
  assumes "register_batch vld routes r = (None, r')"
  shows "(\<forall>route \<in> set routes. \<exists>h. check_route vld route = Inr h) \<and>
    (\<forall>p q. find_route (ro_routeMap r') p q =
      (case last_route routes p q of
         None \<Rightarrow> find_route (ro_routeMap r) p q
       | Some route \<Rightarrow> (case check_route vld route of Inr h \<Rightarrow> Some h | Inl e \<Rightarrow> None)))"
  by (rule register_batch_find [OF assms])

lemma demo_api_vld: "validator_law (ap_vld demo_api)"
  by (simp add: demo_api_def ref_api_def ref_validator_law)

lemma registered_routes_are_found_witness:
  "\<exists>h. find_route (ro_routeMap (snd (api_router demo_api 1000 1000))) ''/stop_task'' ''POST'' = Some h"
proof -
  let ?out = "register_batch (ap_vld demo_api) (api_routes demo_api 1000 1000) new_router"
  obtain r where run: "?out = (None, r)"
    using api_router_ok(1) [OF demo_api_vld, of 1000 1000] unfolding api_router_def by (rule fst_eqE)
  let ?route = "post_route StopTaskCmdPath (api_handler demo_api 1000 1000 ''StopTaskReq'' ''StopTaskResp'')"
  have "last_route (api_routes demo_api 1000 1000) ''/stop_task'' ''POST'' = Some ?route"
    by (simp add: api_routes_def post_route_def cmd_path_defs)
  moreover have "?route \<in> set (api_routes demo_api 1000 1000)" by (simp add: api_routes_def)
  ultimately show ?thesis
    using registered_routes_are_found [OF run] by (auto simp: api_router_def run)
qed

lemma msg_path_range:
  "range msg_path = {AddTaskCmdPath, StopTaskCmdPath, ConfirmTaskCmdPath, RegisterTaskCallbackSrvCmdPath,
     UnregisterTaskCallbackSrvCmdPath}"
proof -
  have "msg_path q \<in> {AddTaskCmdPath, StopTaskCmdPath, ConfirmTaskCmdPath, RegisterTaskCallbackSrvCmdPath,
     UnregisterTaskCallbackSrvCmdPath}" for q
    by (cases q) simp_all
  moreover have "p \<in> range msg_path" if "p \<in> {AddTaskCmdPath, StopTaskCmdPath, ConfirmTaskCmdPath,
     RegisterTaskCallbackSrvCmdPath, UnregisterTaskCallbackSrvCmdPath}" for p
    using that by (metis insert_iff empty_iff msg_path.simps rangeI)
  ultimately show ?thesis by blast
qed

text \<open>
  C31. The program's own routes: \<open>RegisterBatch\<close> of the five routes succeeds; a POST to each command's path
  reaches the handler of that command, decoded into its own struct; and there is no other path
  or method.
\<close>

lemma api_routes_are_served:
  assumes "validator_law (ap_vld A)"
  shows "fst (api_router A now nowLog) = None \<and>
    (\<forall>q. find_route (api_map A (now, nowLog)) (msg_path q) ''POST'' =
       Some \<lparr>hf_handler = api_handler A now nowLog (msg_struct q) (resp_struct q), hf_req = msg_type q\<rparr>) \<and>
    (\<forall>p meth h. find_route (api_map A (now, nowLog)) p meth = Some h \<longrightarrow>
       meth = ''POST'' \<and> p \<in> range msg_path)"
proof (intro conjI allI impI)
  show "fst (api_router A now nowLog) = None" by (rule api_router_ok(1) [OF assms])
  show "find_route (api_map A (now, nowLog)) (msg_path q) ''POST'' =
       Some \<lparr>hf_handler = api_handler A now nowLog (msg_struct q) (resp_struct q), hf_req = msg_type q\<rparr>" for q
    by (simp add: find_route_def api_map_path [OF assms])
  fix p meth h
  assume "find_route (api_map A (now, nowLog)) p meth = Some h"
  then show "meth = ''POST''" "p \<in> range msg_path"
    by (auto simp: find_route_def api_map_def api_router_ok(2) [OF assms] msg_path_range split: if_splits)
qed

lemma api_routes_are_served_witness:
  "fst (api_router demo_api 1000 1000) = None \<and>
   find_route (api_map demo_api (1000, 1000)) ''/stop_task'' ''GET'' = None"
proof -
  have "find_route (api_map demo_api (1000, 1000)) ''/stop_task'' ''GET'' \<noteq> Some h" for h
    using api_routes_are_served [OF demo_api_vld, of 1000 1000] by auto
  then show ?thesis using api_routes_are_served [OF demo_api_vld, of 1000 1000] by auto
qed

section \<open>Register and Boot\<close>

text \<open>
  C30. The routes do not change while the server runs: with any number of callers of \<open>Register\<close> and \<open>Boot\<close>
  in any interleaving, no step changes the routes while a caller is past the lock in \<open>Boot\<close>, where
  they are read without the lock.
\<close>

lemma routes_fixed_while_serving:
  assumes "list_all is_start cs0" "router_run vld (cs0, new_router) (cs, r)" "BootServe \<in> set cs"
    and "router_step vld (cs, r) (cs', r')"
  shows "ro_routeMap r' = ro_routeMap r"
  by (rule routes_fixed_step [OF assms(4) router_inv_run [OF assms(2,1)] assms(3)])

definition demo_route :: "(mem, api_msg, api_data) http_route" where
  "demo_route = post_route ''/x'' (api_handler demo_api 1000 1000 ''StopTaskReq'' ''StopTaskResp'')"

definition demo_reflect :: "(mem, api_msg, api_data) handler_reflect" where
  "demo_reflect = \<lparr>hf_handler = api_handler demo_api 1000 1000 ''StopTaskReq'' ''StopTaskResp'',
     hf_req = TStruct ''StopTaskReq''\<rparr>"

lemma demo_route_check: "check_route ref_validator demo_route = Inr demo_reflect"
  by (simp add: check_route_def http_route_check_def demo_route_def demo_reflect_def post_route_def
      api_handler_def check_api_func ref_validator_def)

lemma routes_fixed_while_serving_witness:
  "\<exists>cs r cs' r'. router_run ref_validator ([BootCheck, RegCheck demo_route], new_router) (cs, r) \<and>
     BootServe \<in> set cs \<and> router_step ref_validator (cs, r) (cs', r') \<and>
     cs' ! 1 = RegEnd (Some errServerStarted) \<and> ro_routeMap r' = Map.empty"
proof -
  let ?cs = "[BootServe, RegRecheck ''/x'' ''POST'' demo_reflect]"
  let ?r = "\<lparr>ro_routeMap = Map.empty, ro_locked = True, ro_isBooted = True\<rparr> :: (mem, api_msg, api_data) router"
  let ?cs' = "[BootServe, RegEnd (Some errServerStarted)]"
  let ?r' = "?r\<lparr>ro_locked := False\<rparr>"
  have path: "hr_Path demo_route = ''/x''" "hr_Method demo_route = ''POST''"
    by (simp_all add: demo_route_def post_route_def)
  have "router_exec ref_validator (HttpErr ''down'') [1, 0, 0, 0, 1] ([BootCheck, RegCheck demo_route], new_router) = Some (?cs, ?r)"
    by (simp add: new_router_def demo_route_check path)
  then have run: "router_run ref_validator ([BootCheck, RegCheck demo_route], new_router) (?cs, ?r)"
    by (rule router_exec_run)
  have step: "router_step ref_validator (?cs, ?r) (?cs', ?r')"
    using router_step.move [of 1 ?cs ref_validator undefined ?r "RegEnd (Some errServerStarted)" ?r'] by simp
  have "ro_routeMap ?r' = ro_routeMap ?r"
    by (rule routes_fixed_while_serving [OF _ run _ step]) simp_all
  then show ?thesis using run step by (intro exI [of _ ?cs] exI [of _ ?r] exI [of _ ?cs'] exI [of _ ?r']) simp
qed

text \<open>
  A second call of \<open>Boot\<close> can lock everybody out: it returns that the server is started while it holds the
  mutex. From then on no call of \<open>Register\<close> returns that has to take it, also after the server went
  down.
\<close>

lemma second_boot_locks_out:
  assumes "check_route vld route = Inr h"
  shows "\<exists>cs r. router_run vld ([BootCheck, BootCheck, RegCheck route], new_router) (cs, r) \<and>
    cs ! 0 = BootEnd down \<and> cs ! 1 = BootEnd errServerStarted \<and> \<not> ro_isBooted r \<and>
    (\<forall>cs' r'. router_run vld (cs, r) (cs', r') \<longrightarrow> cs' ! 2 = RegLock (hr_Path route) (hr_Method route) h)"
proof -
  let ?cs = "[BootEnd down, BootEnd errServerStarted, RegLock (hr_Path route) (hr_Method route) h]"
  let ?r = "\<lparr>ro_routeMap = Map.empty, ro_locked = True, ro_isBooted = False\<rparr>"
  have "router_exec vld down [2, 1, 0, 0, 0, 1, 1, 0] ([BootCheck, BootCheck, RegCheck route], new_router) = Some (?cs, ?r)"
    using assms by (simp add: new_router_def)
  then have run: "router_run vld ([BootCheck, BootCheck, RegCheck route], new_router) (?cs, ?r)"
    by (rule router_exec_run)
  have leak: "mu_leaked (?cs, ?r)" by (simp add: mu_leaked_def)
  have out: "cs' ! 2 = RegLock (hr_Path route) (hr_Method route) h" if "router_run vld (?cs, ?r) (cs', r')" for cs' r'
    using locked_out [OF that leak, of 2] by simp
  show ?thesis by (rule exI [of _ ?cs], rule exI [of _ ?r]) (use run out in simp)
qed

lemma second_boot_locks_out_witness:
  "\<exists>cs r. router_run ref_validator ([BootCheck, BootCheck, RegCheck demo_route], new_router) (cs, r) \<and>
    \<not> ro_isBooted r \<and> cs ! 2 \<noteq> RegEnd None"
proof -
  obtain cs r where "router_run ref_validator ([BootCheck, BootCheck, RegCheck demo_route], new_router) (cs, r)"
    "\<not> ro_isBooted r" "\<forall>cs' r'. router_run ref_validator (cs, r) (cs', r') \<longrightarrow>
      cs' ! 2 = RegLock (hr_Path demo_route) (hr_Method demo_route) demo_reflect"
    using second_boot_locks_out [OF demo_route_check, of undefined] by blast
  then show ?thesis using router_run_refl [of ref_validator "(cs, r)"]
    by (intro exI [of _ cs] exI [of _ r]) auto
qed

text \<open>
  Both checks around the lock leave \<open>Register\<close> as simple as it reads: for a caller that nobody interrupts and a
  free mutex, the locked steps and the sequential function agree, error for error and route for route.
\<close>

lemma register_alone_agrees:
  assumes "\<not> ro_locked r"
  shows "router_run vld ([RegCheck route], r) ([RegEnd e], r') \<longleftrightarrow> register_route vld route r = (e, r')"
  by (rule register_alone_iff [OF assms])

lemma register_alone_agrees_witness:
  "router_run ref_validator ([RegCheck demo_route], new_router)
     ([RegEnd None], new_router\<lparr>ro_routeMap := add_route ''/x'' ''POST'' demo_reflect Map.empty\<rparr>)"
proof -
  have "\<not> ro_locked (new_router :: (mem, api_msg, api_data) router)" by (simp add: new_router_def)
  from register_alone_agrees [OF this, of ref_validator demo_route None] show ?thesis
    by (simp add: register_route_def demo_route_check new_router_def) (simp add: demo_route_def post_route_def)
qed

section \<open>Requests\<close>

text \<open>
  Over a writer that keeps the contract of \<open>io.Writer\<close> one round of \<open>writeResp\<close> is enough: it ends,
  the writer has got the whole content when there is no error, and a prefix of it otherwise.
\<close>

lemma write_resp_is_whole:
  assumes "writer_law wr" "0 < rounds"
  shows "\<exists>e out. write_resp wr rounds content = Some (e, out) \<and> e = snd (wr content) \<and>
    (e = None \<longrightarrow> out = content) \<and> (\<exists>k. out = take k content)"
proof -
  obtain n where "rounds = Suc n" using assms(2) by (cases rounds) auto
  moreover have "snd (wr content) = None \<Longrightarrow> fst (wr content) = length content"
    using assms(1) by (simp add: writer_law_def)
  ultimately show ?thesis using write_resp_law [OF assms(1)] by auto
qed

definition demo_writer :: "string \<Rightarrow> nat \<times> go_err option" where
  "demo_writer c = (if length c \<le> 4 then (length c, None) else (4, Some (HttpErr ''closed'')))"

lemma write_resp_is_whole_witness:
  "write_resp demo_writer 3 ''pong'' = Some (None, ''pong'') \<and>
   (\<exists>out. write_resp demo_writer 3 ''hello'' = Some (Some (HttpErr ''closed''), out))"
proof -
  have law: "writer_law demo_writer" by (auto simp: writer_law_def demo_writer_def)
  from write_resp_is_whole [OF law, of 3 "''pong''"] write_resp_is_whole [OF law, of 3 "''hello''"]
  show ?thesis by (auto simp: demo_writer_def)
qed

text \<open>
  C15. Once \<open>Stop\<close> of the router has returned, no handler runs any more: whatever requests are on their way
  or still arrive, the database stays as it is, and every request answered from then on is told
  that the server is stopped.
\<close>

lemma router_stop_quiesces:
  assumes "gate_run HL m (gate_init s) g" "gt_stop g = StopReturned" "gate_run HL m g h"
  shows "gt_state h = gt_state g \<and>
    (\<forall>k out. k < length (gt_rqs h) \<and> gt_rqs h ! k = RqDone out \<longrightarrow>
       k < length (gt_rqs g) \<and> gt_rqs g ! k = RqDone out \<or>
       (\<exists>tid. out = resp_err HL ErrCodeServerStopped [] tid))"
  using after_stop_run [OF assms] by (auto simp: after_stop_def)

lemma router_stop_quiesces_witness:
  "\<exists>g h. gate_run ref_http_lib (api_map demo_api) (gate_init demo_mem) g \<and> gt_stop g = StopReturned \<and>
     gate_run ref_http_lib (api_map demo_api) g h \<and>
     gt_rqs h = [RqDone (resp_err ref_http_lib ErrCodeServerStopped [] ''t'')] \<and> gt_state h = demo_mem"
proof -
  let ?step = "gate_step ref_http_lib (api_map demo_api)"
  let ?req = "\<lparr>rq_Method = ''POST'', rq_Path = StopTaskCmdPath, rq_Body = []\<rparr>"
  let ?out = "resp_err ref_http_lib ErrCodeServerStopped [] ''t''"
  let ?g0 = "\<lparr>gt_isPaused = False, gt_servingWait = 0, gt_stop = StopIdle, gt_rqs = [RqNew ?req], gt_state = demo_mem\<rparr>"
  let ?g1 = "?g0\<lparr>gt_stop := StopWaiting, gt_isPaused := True\<rparr>"
  let ?g2 = "?g1\<lparr>gt_stop := StopReturned\<rparr>"
  let ?g3 = "?g2\<lparr>gt_rqs := [RqCounted ?req], gt_servingWait := 1\<rparr>"
  let ?g4 = "?g3\<lparr>gt_rqs := [RqChecked True ?req]\<rparr>"
  let ?g5 = "?g4\<lparr>gt_rqs := [RqDone ?out], gt_servingWait := 0\<rparr>"
  obtain mm where mm: "api_map demo_api (1000, 1000) StopTaskCmdPath = Some mm"
    using api_map_path [OF demo_api_vld, of 1000 1000 "MStopTask q" for q] by auto
  have "?step (gate_init demo_mem) ?g0"
    using gate_step.arrive [of "api_map demo_api" "(1000, 1000)" ?req ref_http_lib "gate_init demo_mem"] mm
    by (simp add: gate_init_def)
  moreover have "?step ?g0 ?g1"
    using gate_step.stop [of ?g0 ref_http_lib "api_map demo_api"] by simp
  moreover have "?step ?g1 ?g2"
    using gate_step.stopped [of ?g1 ref_http_lib "api_map demo_api"] by simp
  ultimately have run: "gate_run ref_http_lib (api_map demo_api) (gate_init demo_mem) ?g2"
    unfolding gate_run_def by (meson r_into_rtranclp rtranclp.rtrancl_into_rtrancl)
  have "?step ?g2 ?g3"
    using gate_step.add [of 0 ?g2 ?req ref_http_lib "api_map demo_api"] by simp
  moreover have "?step ?g3 ?g4"
    using gate_step.check [of 0 ?g3 ?req ref_http_lib "api_map demo_api"] by simp
  moreover have "?step ?g4 ?g5"
    using gate_step.answer [of 0 ?g4 True ?req "api_map demo_api" "(1000, 1000)" mm ref_http_lib "''t''" ?out demo_mem] mm
    by (simp add: handle_request_paused)
  ultimately have run2: "gate_run ref_http_lib (api_map demo_api) ?g2 ?g5"
    unfolding gate_run_def by (meson r_into_rtranclp rtranclp.rtrancl_into_rtrancl)
  have "gt_state ?g5 = gt_state ?g2"
    using router_stop_quiesces [OF run _ run2] by simp
  then show ?thesis using run run2 by (intro exI [of _ ?g2] exI [of _ ?g5]) simp
qed

section \<open>The client\<close>

text \<open>
  C14. A client is told the truth: when a call of any of the five commands returns, then either the exchange
  failed and the request was served or not, or the server was stopped or a required field was missing
  and nothing changed, or the handler ran once on the very request the client passed, and the client
  has its answer: the same data, the same code and message for a business error with a positive
  code (any other code reads as success), and an internal error for any other error.
\<close>

lemma client_is_told:
  assumes "http_codec C HL" "validator_law (ap_vld A)" "ascii_msg q" "ascii_answers A q s"
    and "api_link C HL A addr" "cl_new_req C (addr @ msg_path q) = None"
    and "cli_call C addr q [] s = (res, t)"
  shows "client_outcome A q s res t \<or>
    (\<exists>txt. res = Inl (HttpErr txt)) \<and> (t = s \<or> (\<exists>now nowLog. t = snd (api_call A now nowLog q s)))"
  by (rule http_codec.call_outcome [OF assms])

lemma client_is_told_witness:
  "\<exists>t. cli_call (ref_cli_lib demo_api ''http://srv'') ''http://srv'' (MStopTask \<lparr>hst_TaskId = ''7''\<rparr>) [] demo_mem =
         (Inr DStopTask, t) \<and>
     (\<exists>now nowLog. api_call demo_api now nowLog (MStopTask \<lparr>hst_TaskId = ''7''\<rparr>) demo_mem = (Inr DStopTask, t))"
proof -
  let ?q = "MStopTask \<lparr>hst_TaskId = ''7''\<rparr>"
  let ?run = "cli_call (ref_cli_lib demo_api ''http://srv'') ''http://srv'' ?q [] demo_mem"
  have "fst ?run = Inr DStopTask" by code_simp
  then obtain t where run: "?run = (Inr DStopTask, t)" by (rule fst_eqE)
  have "fst (api_call demo_api 0 0 ?q demo_mem) = Inr DStopTask" by code_simp
  then have "fst (api_call demo_api now nowLog ?q demo_mem) = Inr DStopTask" for now nowLog by simp
  then have ans: "ascii_answers demo_api ?q demo_mem" by (simp add: ascii_answers_def del: api_call.simps)
  have new: "cl_new_req (ref_cli_lib demo_api ''http://srv'') (''http://srv'' @ msg_path ?q) = None"
    by (simp add: ref_cli_lib_def)
  have q: "ascii_msg ?q" by (simp add: ascii_def)
  from client_is_told [OF ref_codec.http_codec_axioms demo_api_vld q ans ref_link new run]
  have "client_outcome demo_api ?q demo_mem (Inr DStopTask) t" by simp
  then obtain now nowLog r where r: "api_call demo_api now nowLog ?q demo_mem = (r, t)" "told ?q r (Inr DStopTask)"
    by (auto simp: client_outcome_def simp del: api_call.simps)
  have "r = Inr DStopTask"
    using r(1) \<open>\<And>nowLog now. fst (api_call demo_api now nowLog ?q demo_mem) = Inr DStopTask\<close> [of now nowLog]
    by (simp del: api_call.simps)
  with run r(1) show ?thesis by blast
qed

end
