(* ===== verification/Node.thy ===== *)
theory Node
  imports Cluster Server_Props
begin

text \<open>
  One process as \<open>main\<close> of \<open>src/main.go\<close> has started it: the goroutines of its registry and of its worker
  engine, the HTTP router with the requests in flight, the goroutine that waits for a signal and
  then shuts the parts down one after the other, and the goroutine of \<open>runHttpApiServer\<close> that stops the
  router. All share one database, which other nodes may change at any time.

  The parts move by the step relations of their own theories (\<open>registry_pool\<close>, \<open>task_pool\<close>, \<open>gate_step\<close>), but
  their \<open>Stop\<close> is called only where \<open>main\<close> calls it. A second signal is dropped, because nobody
  receives from the unbuffered channel any more. After \<open>os.Exit\<close> nothing of the node moves.
\<close>

section \<open>The goroutines of main\<close>

text \<open>
  Where the goroutine of the signal handler is: before a statement, or inside a call (\<open>SgInRegistry\<close>,
  \<open>SgInEngine\<close>), or waiting for the answer of the router's goroutine (\<open>SgApi\<close>).
\<close>

datatype sig_pc =
    SgAwait | SgElect | SgRegistry | SgInRegistry | SgEngine | SgInEngine | SgSend | SgApi | SgFlush | SgExited

datatype api_pc = ApAwait | ApStop | ApStopping | ApSend | ApEnd

text \<open>The order of the statements.\<close>

primrec sig_rank :: "sig_pc \<Rightarrow> nat" where
  "sig_rank SgAwait = 0"
| "sig_rank SgElect = 1"
| "sig_rank SgRegistry = 2"
| "sig_rank SgInRegistry = 3"
| "sig_rank SgEngine = 4"
| "sig_rank SgInEngine = 5"
| "sig_rank SgSend = 6"
| "sig_rank SgApi = 7"
| "sig_rank SgFlush = 8"
| "sig_rank SgExited = 9"

lemma sig_rank_inj: "sig_rank x = sig_rank y \<Longrightarrow> x = y"
  by (cases x; cases y; simp)

instantiation sig_pc :: linorder
begin

definition less_eq_sig_pc :: "sig_pc \<Rightarrow> sig_pc \<Rightarrow> bool" where
  "less_eq_sig_pc x y = (sig_rank x \<le> sig_rank y)"

definition less_sig_pc :: "sig_pc \<Rightarrow> sig_pc \<Rightarrow> bool" where
  "less_sig_pc x y = (sig_rank x < sig_rank y)"

instance
  by standard (auto simp: less_eq_sig_pc_def less_sig_pc_def dest: sig_rank_inj)

end

lemmas sig_order = less_eq_sig_pc_def less_sig_pc_def

record 's node =
  nd_sig :: sig_pc
  nd_api :: api_pc
  nd_electing :: bool
  nd_registry :: "(check_pc, callback_srv, check_job) pool"
  nd_engine :: "(string, task, job) pool"
  nd_gate :: "'s gate"
  nd_started :: "task list"

text \<open>The database is the state of the gate; with the starts it is the world of the engine.\<close>

abbreviation nd_db :: "'s node \<Rightarrow> 's" where
  "nd_db n \<equiv> gt_state (nd_gate n)"

definition node_world :: "'s node \<Rightarrow> 's world" where
  "node_world n = \<lparr>wo_db = nd_db n, wo_started = nd_started n\<rparr>"

definition put_db :: "'s \<Rightarrow> 's node \<Rightarrow> 's node" where
  "put_db s n = n\<lparr>nd_gate := (nd_gate n)\<lparr>gt_state := s\<rparr>\<rparr>"

inductive own_step ::
    "'s engine \<Rightarrow> 's registry \<Rightarrow> ('v, 'd) http_lib \<Rightarrow> ('c \<Rightarrow> ('s, 'v, 'd) route_map) \<Rightarrow> 's node \<Rightarrow> 's node \<Rightarrow> bool"
  for N G HL m where
  registry: "nd_sig n \<noteq> SgExited \<Longrightarrow> pool_step (registry_pool G) (nd_registry n, nd_db n) (q, s) \<Longrightarrow>
    (pl_stop q = None) = (pl_stop (nd_registry n) = None) \<Longrightarrow>
    own_step N G HL m n (put_db s (n\<lparr>nd_registry := q\<rparr>))"
| engine: "nd_sig n \<noteq> SgExited \<Longrightarrow> pool_step (task_pool N) (nd_engine n, node_world n) (q, w) \<Longrightarrow>
    (pl_stop q = None) = (pl_stop (nd_engine n) = None) \<Longrightarrow>
    own_step N G HL m n (put_db (wo_db w) (n\<lparr>nd_engine := q, nd_started := wo_started w\<rparr>))"
| request: "nd_sig n \<noteq> SgExited \<Longrightarrow> gate_step HL m (nd_gate n) g \<Longrightarrow>
    (gt_stop g = StopIdle) = (gt_stop (nd_gate n) = StopIdle) \<Longrightarrow>
    own_step N G HL m n (n\<lparr>nd_gate := g\<rparr>)"
| signal: "nd_sig n = SgAwait \<Longrightarrow> own_step N G HL m n (n\<lparr>nd_sig := SgElect\<rparr>)"
| elect: "nd_sig n = SgElect \<Longrightarrow> own_step N G HL m n (n\<lparr>nd_sig := SgRegistry, nd_electing := False\<rparr>)"
| stop_registry: "nd_sig n = SgRegistry \<Longrightarrow>
    own_step N G HL m n
      (n\<lparr>nd_sig := SgInRegistry, nd_registry := (nd_registry n)\<lparr>pl_stop := Some registry_stop\<rparr>\<rparr>)"
| registry_stopped: "nd_sig n = SgInRegistry \<Longrightarrow> pl_stop (nd_registry n) = Some [] \<Longrightarrow>
    own_step N G HL m n (n\<lparr>nd_sig := SgEngine\<rparr>)"
| stop_engine: "nd_sig n = SgEngine \<Longrightarrow>
    own_step N G HL m n
      (n\<lparr>nd_sig := SgInEngine, nd_engine := (nd_engine n)\<lparr>pl_stop := Some engine_stop\<rparr>\<rparr>)"
| engine_stopped: "nd_sig n = SgInEngine \<Longrightarrow> pl_stop (nd_engine n) = Some [] \<Longrightarrow>
    own_step N G HL m n (n\<lparr>nd_sig := SgSend\<rparr>)"
| tell_router: "nd_sig n = SgSend \<Longrightarrow> nd_api n = ApAwait \<Longrightarrow>
    own_step N G HL m n (n\<lparr>nd_sig := SgApi, nd_api := ApStop\<rparr>)"
| stop_router: "nd_api n = ApStop \<Longrightarrow>
    own_step N G HL m n
      (n\<lparr>nd_api := ApStopping, nd_gate := (nd_gate n)\<lparr>gt_stop := StopWaiting, gt_isPaused := True\<rparr>\<rparr>)"
| router_stopped: "nd_api n = ApStopping \<Longrightarrow> gt_stop (nd_gate n) = StopReturned \<Longrightarrow>
    own_step N G HL m n (n\<lparr>nd_api := ApSend\<rparr>)"
| router_told: "nd_sig n = SgApi \<Longrightarrow> nd_api n = ApSend \<Longrightarrow>
    own_step N G HL m n (n\<lparr>nd_sig := SgFlush, nd_api := ApEnd\<rparr>)"
| exit: "nd_sig n = SgFlush \<Longrightarrow> own_step N G HL m n (n\<lparr>nd_sig := SgExited\<rparr>)"

inductive_cases own_stepE: "own_step N G HL m n n'"

text \<open>The node among the others, which work on the same database.\<close>

inductive node_step ::
    "'s engine \<Rightarrow> 's registry \<Rightarrow> ('v, 'd) http_lib \<Rightarrow> ('c \<Rightarrow> ('s, 'v, 'd) route_map) \<Rightarrow> 's node \<Rightarrow> 's node \<Rightarrow> bool"
  for N G HL m where
  own: "own_step N G HL m n n' \<Longrightarrow> node_step N G HL m n n'"
| others: "node_step N G HL m n (put_db s n)"

definition node_run ::
    "'s engine \<Rightarrow> 's registry \<Rightarrow> ('v, 'd) http_lib \<Rightarrow> ('c \<Rightarrow> ('s, 'v, 'd) route_map) \<Rightarrow> 's node \<Rightarrow> 's node \<Rightarrow> bool"
  where "node_run N G HL m = (node_step N G HL m)\<^sup>*\<^sup>*"

text \<open>The node once everything has been started; the pools may still be creating their workers.\<close>

definition node_init :: "nat \<Rightarrow> nat \<Rightarrow> 's \<Rightarrow> 's node" where
  "node_init checkers workers s =
     \<lparr>nd_sig = SgAwait, nd_api = ApAwait, nd_electing = True, nd_registry = registry_init checkers,
      nd_engine = engine_init workers, nd_gate = gate_init s, nd_started = []\<rparr>"

section \<open>Invariants\<close>

lemma put_db_simps [simp]:
  "nd_sig (put_db s n) = nd_sig n" "nd_api (put_db s n) = nd_api n" "nd_electing (put_db s n) = nd_electing n"
  "nd_registry (put_db s n) = nd_registry n" "nd_engine (put_db s n) = nd_engine n"
  "nd_started (put_db s n) = nd_started n" "nd_gate (put_db s n) = (nd_gate n)\<lparr>gt_state := s\<rparr>"
  by (simp_all add: put_db_def)

lemma gate_inv_db [simp]: "gate_inv (g\<lparr>gt_state := s\<rparr>) = gate_inv g"
  by (simp add: gate_inv_def)

lemma stop_stays:
  "pool_step E (p, s) (q, t) \<Longrightarrow> pl_stop p = Some [] \<Longrightarrow> pl_stop q = Some []"
  by (erule pool_stepE) simp_all

text \<open>What was stopped and in which order.\<close>

definition order_inv :: "'s node \<Rightarrow> bool" where
  "order_inv n \<longleftrightarrow>
     (pl_stop (nd_registry n) = None \<longleftrightarrow> nd_sig n < SgInRegistry) \<and>
     (SgInRegistry < nd_sig n \<longrightarrow> pl_stop (nd_registry n) = Some []) \<and>
     (pl_stop (nd_engine n) = None \<longleftrightarrow> nd_sig n < SgInEngine) \<and>
     (SgInEngine < nd_sig n \<longrightarrow> pl_stop (nd_engine n) = Some []) \<and>
     (nd_api n = ApAwait \<longleftrightarrow> nd_sig n < SgApi) \<and> (nd_api n = ApEnd \<longleftrightarrow> SgApi < nd_sig n) \<and>
     (gt_stop (nd_gate n) = StopIdle \<longleftrightarrow> nd_api n \<in> {ApAwait, ApStop}) \<and>
     (nd_api n \<in> {ApSend, ApEnd} \<longrightarrow> gt_stop (nd_gate n) = StopReturned) \<and>
     (gt_isPaused (nd_gate n) \<longrightarrow> gt_stop (nd_gate n) \<noteq> StopIdle) \<and>
     (nd_electing n \<longleftrightarrow> nd_sig n < SgRegistry)"

lemma order_inv_db [simp]: "order_inv (put_db s n) = order_inv n"
  by (simp add: order_inv_def)

lemma gate_stop_stays: "gate_step HL m g h \<Longrightarrow> gt_stop g = StopReturned \<Longrightarrow> gt_stop h = StopReturned"
  by (erule gate_stepE) simp_all

lemma gate_paused_same:
  "gate_step HL m g h \<Longrightarrow> (gt_stop h = StopIdle) = (gt_stop g = StopIdle) \<Longrightarrow> gt_isPaused h = gt_isPaused g"
  by (erule gate_stepE) auto

lemma order_inv_step:
  assumes "own_step N G HL m n n'" "order_inv n"
  shows "order_inv n'"
  using assms(1)
proof cases
  case (registry q s)
  from assms(2) registry(1,4) stop_stays [OF registry(3)] show ?thesis by (auto simp: order_inv_def)
next
  case (engine q w)
  from assms(2) engine(1,4) stop_stays [OF engine(3)] show ?thesis by (auto simp: order_inv_def)
next
  case (request g)
  from assms(2) request(1,4) gate_stop_stays [OF request(3)] gate_paused_same [OF request(3,4)]
  show ?thesis by (auto simp: order_inv_def)
qed (use assms(2) in \<open>auto simp: order_inv_def sig_order registry_stop_def engine_stop_def\<close>)

definition node_inv ::
    "'s engine \<Rightarrow> 's registry \<Rightarrow> (check_pc, callback_srv, check_job) pool \<Rightarrow> (string, task, job) pool \<Rightarrow> 's node \<Rightarrow> bool"
  where "node_inv N G r0 e0 n \<longleftrightarrow>
    pool_reach (registry_pool G) r0 (nd_registry n) \<and> pool_reach (task_pool N) e0 (nd_engine n) \<and>
    gate_inv (nd_gate n) \<and> order_inv n"

lemma registry_call:
  assumes "pool_reach (registry_pool G) r0 p" "pl_stop p = None"
  shows "pool_reach (registry_pool G) r0 (p\<lparr>pl_stop := Some registry_stop\<rparr>)"
  using pool_reach.move [OF assms(1) pool_step.call [OF assms(2)]] by simp

lemma engine_call:
  assumes "pool_reach (task_pool N) e0 p" "pl_stop p = None"
  shows "pool_reach (task_pool N) e0 (p\<lparr>pl_stop := Some engine_stop\<rparr>)"
  using pool_reach.move [OF assms(1) pool_step.call [OF assms(2)]] by simp

lemma node_inv_own:
  assumes "own_step N G HL m n n'" "node_inv N G r0 e0 n"
  shows "node_inv N G r0 e0 n'"
proof -
  have ord: "order_inv n" "order_inv n'"
    using order_inv_step [OF assms(1)] assms(2) by (simp_all add: node_inv_def)
  show ?thesis
    using assms(1)
  proof cases
    case (registry q s)
    with pool_reach.move [OF _ registry(3)] assms(2) ord show ?thesis by (simp add: node_inv_def)
  next
    case (engine q w)
    with pool_reach.move [OF _ engine(3)] assms(2) ord show ?thesis by (simp add: node_inv_def)
  next
    case (request g)
    with gate_inv_step [OF request(3)] assms(2) ord show ?thesis by (simp add: node_inv_def)
  next
    case stop_registry
    then have "pl_stop (nd_registry n) = None" using ord(1) by (simp add: order_inv_def sig_order)
    then have "pool_reach (registry_pool G) r0 ((nd_registry n)\<lparr>pl_stop := Some registry_stop\<rparr>)"
      using assms(2) by (intro registry_call) (simp_all add: node_inv_def)
    with stop_registry assms(2) ord show ?thesis by (simp add: node_inv_def)
  next
    case stop_engine
    then have "pl_stop (nd_engine n) = None" using ord(1) by (simp add: order_inv_def sig_order)
    then have "pool_reach (task_pool N) e0 ((nd_engine n)\<lparr>pl_stop := Some engine_stop\<rparr>)"
      using assms(2) by (intro engine_call) (simp_all add: node_inv_def)
    with stop_engine assms(2) ord show ?thesis by (simp add: node_inv_def)
  next
    case stop_router
    with ord assms(2) show ?thesis by (simp add: node_inv_def gate_inv_def)
  qed (use assms(2) ord in \<open>simp_all add: node_inv_def\<close>)
qed

lemma node_inv_run:
  assumes "node_run N G HL m n0 n" "node_inv N G r0 e0 n0"
  shows "node_inv N G r0 e0 n"
  using assms(1) unfolding node_run_def
proof (induction rule: rtranclp_induct)
  case base
  show ?case by (rule assms(2))
next
  case (step n n')
  from step.hyps(2) show ?case
  proof cases
    case own
    from node_inv_own [OF this step.IH] show ?thesis .
  next
    case (others s)
    with step.IH show ?thesis by (simp add: node_inv_def)
  qed
qed

lemma node_inv_init: "node_inv N G (registry_init c) (engine_init w) (node_init c w s)"
  by (auto simp: node_inv_def node_init_def order_inv_def sig_order gate_init_def gate_inv_def registry_init_def
      engine_init_def pool_init_def intro: pool_reach.here)

text \<open>
  A registry whose workers have all been created when \<open>Stop\<close> has not been called yet. Without that
  \<open>Stop\<close> may not see them (\<open>registry_stop_can_return_early\<close>).
\<close>

lemma created_in_time:
  assumes "node_run N G HL m (node_init c w s) n0" "created (nd_registry n0)" "nd_sig n0 < SgInRegistry"
    and "node_run N G HL m n0 n"
  shows "node_inv N G (nd_registry n0) (engine_init w) n"
    "pool_start (registry_pool G) (check_worker_pool_size c) AtSelect (nd_registry n0)"
proof -
  have inv: "node_inv N G (registry_init c) (engine_init w) n0" by (rule node_inv_run [OF assms(1) node_inv_init])
  then have "node_inv N G (nd_registry n0) (engine_init w) n0" by (simp add: node_inv_def pool_reach.here)
  from node_inv_run [OF assms(4) this] show "node_inv N G (nd_registry n0) (engine_init w) n" .
  have "pl_stop (nd_registry n0) = None" using inv assms(3) by (simp add: node_inv_def order_inv_def)
  with inv assms(2) show "pool_start (registry_pool G) (check_worker_pool_size c) AtSelect (nd_registry n0)"
    by (simp add: node_inv_def pool_start_def registry_init_def)
qed

section \<open>A clean exit\<close>

lemma engine_stop_rest:
  assumes "pool_reach (task_pool N) (engine_init w) p" "pl_stop p = Some []"
  shows "(\<forall>x \<in> set (pl_workers p). x = Exited) \<and> pl_sched p = Ended \<and> \<not> pool_step (task_pool N) (p, v) qu"
  by (rule stopped_at_rest [OF task_stop_prog assms(1) engine_start assms(2)])

text \<open>A gate whose \<open>Stop\<close> has returned changes the database no more.\<close>

lemma gate_stopped_state:
  assumes "gate_step HL m g h" "gate_inv g" "gt_stop g = StopReturned"
  shows "gt_state h = gt_state g"
  using assms(1)
proof (elim gate_stepE)
  fix k p req c mm tid out s
  assume h: "gt_rqs g ! k = RqChecked p req" "k < length (gt_rqs g)"
    "handle_request HL mm p tid req (gt_state g) = (Inr out, s)"
    "h = g\<lparr>gt_rqs := (gt_rqs g)[k := RqDone out], gt_servingWait := gt_servingWait g - 1, gt_state := s\<rparr>"
  have "RqChecked p req \<in> set (gt_rqs g)" using h(1,2) nth_mem by metis
  then have "p" using assms(2,3) by (cases p) (auto simp: gate_inv_def)
  with h show "gt_state h = gt_state g" by (simp add: handle_request_paused)
qed simp_all

lemma clean_exit:
  assumes "node_inv N G r0 (engine_init w) n" "SgApi < nd_sig n" "pool_start (registry_pool G) k AtSelect r0"
  shows "(\<forall>x \<in> set (pl_workers (nd_engine n)). x = Exited) \<and> pl_sched (nd_engine n) = Ended \<and>
    (\<forall>x \<in> set (pl_workers (nd_registry n)). x = Exited) \<and> pl_sched (nd_registry n) = Ended \<and>
    (\<forall>req. RqChecked False req \<notin> set (gt_rqs (nd_gate n))) \<and>
    (\<forall>n'. own_step N G HL m n n' \<longrightarrow> nd_db n' = nd_db n \<and> nd_started n' = nd_started n)"
proof -
  have st: "pl_stop (nd_registry n) = Some []" "pl_stop (nd_engine n) = Some []" "gt_stop (nd_gate n) = StopReturned"
    and g: "gate_inv (nd_gate n)"
    using assms(1,2) by (auto simp: node_inv_def order_inv_def sig_order)
  have reach: "pool_reach (registry_pool G) r0 (nd_registry n)"
    "pool_reach (task_pool N) (engine_init w) (nd_engine n)"
    using assms(1) by (simp_all add: node_inv_def)
  note reg = stopped_at_rest [OF stop_progs(2) reach(1) assms(3) st(1)]
  note eng = engine_stop_rest [OF reach(2) st(2)]
  have "nd_db n' = nd_db n \<and> nd_started n' = nd_started n" if "own_step N G HL m n n'" for n'
    using that
  proof cases
    case (registry q s)
    with reg show ?thesis by simp
  next
    case (engine q w)
    with eng show ?thesis by simp
  next
    case (request h)
    with gate_stopped_state [OF request(3) g st(3)] show ?thesis by simp
  qed simp_all
  moreover have "\<forall>req. RqChecked False req \<notin> set (gt_rqs (nd_gate n))" using g st(3) by (simp add: gate_inv_def)
  ultimately show ?thesis using reg eng by simp
qed

text \<open>While the router still serves, and before it is told to stop, nothing is refused.\<close>

lemma refusing_is_drained:
  assumes "node_inv N G r0 (engine_init w) n" "gt_isPaused (nd_gate n)" "pool_start (registry_pool G) k AtSelect r0"
  shows "(\<forall>x \<in> set (pl_workers (nd_engine n)). x = Exited) \<and> (\<forall>x \<in> set (pl_workers (nd_registry n)). x = Exited)"
proof -
  have st: "pl_stop (nd_registry n) = Some []" "pl_stop (nd_engine n) = Some []"
    using assms(1,2) by (auto simp: node_inv_def order_inv_def sig_order)
  have reach: "pool_reach (registry_pool G) r0 (nd_registry n)"
    "pool_reach (task_pool N) (engine_init w) (nd_engine n)"
    using assms(1) by (simp_all add: node_inv_def)
  from stopped_at_rest [OF stop_progs(2) reach(1) assms(3) st(1)] engine_stop_rest [OF reach(2) st(2)]
  show ?thesis by simp
qed

section \<open>Runs of the parts as runs of the node\<close>

lemma node_run_refl [intro]: "node_run N G HL m n n"
  by (simp add: node_run_def)

lemma node_run_own: "node_run N G HL m n n1 \<Longrightarrow> own_step N G HL m n1 n2 \<Longrightarrow> node_run N G HL m n n2"
  unfolding node_run_def by (meson node_step.own rtranclp.rtrancl_into_rtrancl)

lemma node_run_trans: "node_run N G HL m n n1 \<Longrightarrow> node_run N G HL m n1 n2 \<Longrightarrow> node_run N G HL m n n2"
  unfolding node_run_def by (rule rtranclp_trans)

lemma stop_called: "pool_step E (p, s) (q, t) \<Longrightarrow> pl_stop q = None \<Longrightarrow> pl_stop p = None"
  by (erule pool_stepE) auto

lemma stop_kept:
  assumes "pool_run E (p, s) (q, t)" "pl_stop p \<noteq> None"
  shows "pl_stop q \<noteq> None"
  using assms unfolding pool_run_def
  by (induction rule: rtranclp_induct2) (auto dest: stop_called)

lemma lift_registry:
  assumes "pool_run (registry_pool G) (nd_registry n, nd_db n) (q, t)" "nd_sig n \<noteq> SgExited"
    and "(pl_stop q = None) = (pl_stop (nd_registry n) = None)"
  shows "node_run N G HL m n (put_db t (n\<lparr>nd_registry := q\<rparr>))"
  using assms(1,3) unfolding pool_run_def
proof (induction rule: rtranclp_induct2)
  case refl
  have "put_db (nd_db n) (n\<lparr>nd_registry := nd_registry n\<rparr>) = n" by (simp add: put_db_def)
  then show ?case by (simp only: node_run_refl)
next
  case (step p s q t)
  have run: "pool_run (registry_pool G) (nd_registry n, nd_db n) (p, s)" using step.hyps(1) by (simp add: pool_run_def)
  have same: "(pl_stop p = None) = (pl_stop (nd_registry n) = None)"
    using stop_called [OF step.hyps(2)] stop_kept [OF run] step.prems by auto
  with step.prems have eq: "(pl_stop q = None) = (pl_stop p = None)" by simp
  have r: "node_run N G HL m n (put_db s (n\<lparr>nd_registry := p\<rparr>))" by (rule step.IH [OF same])
  have "own_step N G HL m (put_db s (n\<lparr>nd_registry := p\<rparr>)) (put_db t ((put_db s (n\<lparr>nd_registry := p\<rparr>))\<lparr>nd_registry := q\<rparr>))"
    by (rule own_step.registry) (use step.hyps(2) assms(2) eq in simp_all)
  moreover have "put_db t ((put_db s (n\<lparr>nd_registry := p\<rparr>))\<lparr>nd_registry := q\<rparr>) = put_db t (n\<lparr>nd_registry := q\<rparr>)"
    by (simp add: put_db_def)
  ultimately show ?case using node_run_own [OF r] by simp
qed

lemma lift_engine:
  assumes "pool_run (task_pool N) (nd_engine n, node_world n) (q, w)" "nd_sig n \<noteq> SgExited"
    and "(pl_stop q = None) = (pl_stop (nd_engine n) = None)"
  shows "node_run N G HL m n (put_db (wo_db w) (n\<lparr>nd_engine := q, nd_started := wo_started w\<rparr>))"
  using assms(1,3) unfolding pool_run_def
proof (induction rule: rtranclp_induct2)
  case refl
  have "put_db (wo_db (node_world n)) (n\<lparr>nd_engine := nd_engine n, nd_started := wo_started (node_world n)\<rparr>) = n"
    by (simp add: put_db_def node_world_def)
  then show ?case by (simp only: node_run_refl)
next
  case (step p v q w)
  let ?n = "put_db (wo_db v) (n\<lparr>nd_engine := p, nd_started := wo_started v\<rparr>)"
  have run: "pool_run (task_pool N) (nd_engine n, node_world n) (p, v)" using step.hyps(1) by (simp add: pool_run_def)
  have same: "(pl_stop p = None) = (pl_stop (nd_engine n) = None)"
    using stop_called [OF step.hyps(2)] stop_kept [OF run] step.prems by auto
  with step.prems have eq: "(pl_stop q = None) = (pl_stop p = None)" by simp
  have r: "node_run N G HL m n ?n" by (rule step.IH [OF same])
  have "node_world ?n = v" by (simp add: node_world_def)
  with step.hyps(2) assms(2) eq
  have "own_step N G HL m ?n (put_db (wo_db w) (?n\<lparr>nd_engine := q, nd_started := wo_started w\<rparr>))"
    by (intro own_step.engine) simp_all
  moreover have "put_db (wo_db w) (?n\<lparr>nd_engine := q, nd_started := wo_started w\<rparr>) =
      put_db (wo_db w) (n\<lparr>nd_engine := q, nd_started := wo_started w\<rparr>)"
    by (simp add: put_db_def)
  ultimately show ?case using node_run_own [OF r] by simp
qed

section \<open>A shutdown that hangs\<close>

lemma hanging_stays:
  assumes "node_run N G HL m n n'" "order_inv n" "nd_sig n = SgInRegistry" "nd_registry n = q"
    and "pl_stop q \<noteq> Some []" "\<And>t qu. \<not> pool_step (registry_pool G) (q, t) qu"
  shows "order_inv n' \<and> nd_sig n' = SgInRegistry \<and> nd_registry n' = q"
  using assms(1) unfolding node_run_def
proof (induction rule: rtranclp_induct)
  case base
  show ?case using assms(2-4) by simp
next
  case (step n1 n2)
  from step.hyps(2) show ?case
  proof cases
    case own
    from order_inv_step [OF own] step.IH have "order_inv n2" by simp
    moreover from own have "nd_sig n2 = SgInRegistry \<and> nd_registry n2 = q"
    proof cases
      case (registry p t)
      have "nd_registry n1 = q" using step.IH by blast
      with registry(3) assms(6) show ?thesis by blast
    next
      case registry_stopped
      have "nd_registry n1 = q" using step.IH by blast
      with registry_stopped(3) assms(5) show ?thesis by blast
    qed (use step.IH in simp_all)
    ultimately show ?thesis by simp
  next
    case (others s)
    with step.IH show ?thesis by simp
  qed
qed

text \<open>
  C19. A shutdown can hang for ever. When the signal arrives while the registry is handing out a page of
  services, \<open>Registry.Stop\<close> raises the flag before it sends the exit signal, all its workers may leave, and
  then nobody receives the next service: \<open>main\<close> stays in \<open>reg.Stop\<close>, whatever the other goroutines do,
  the worker engine and the router are never told to stop, and the process does not exit.
\<close>

lemma shutdown_can_hang:
  assumes "check_poll (rg_srvs G) True AtSelect s = ((srv # srvs, pc), s')"
  shows "\<exists>n. node_run N G HL m (node_init checkers workers s) n \<and> nd_sig n = SgInRegistry \<and>
    (\<forall>n'. node_run N G HL m n n' \<longrightarrow>
       nd_sig n' = SgInRegistry \<and> pl_stop (nd_engine n') = None \<and> \<not> gt_isPaused (nd_gate n'))"
proof -
  let ?n0 = "node_init checkers workers s"
  let ?p1 = "(registry_ready checkers)\<lparr>pl_sched := Sending (srv # srvs) pc\<rparr>"
  let ?n1 = "put_db s' (?n0\<lparr>nd_registry := ?p1\<rparr>)"
  let ?p2 = "?p1\<lparr>pl_stop := Some registry_stop\<rparr>"
  let ?n2 = "?n1\<lparr>nd_sig := SgElect\<rparr>"
  let ?n3 = "?n2\<lparr>nd_sig := SgRegistry, nd_electing := False\<rparr>"
  let ?n4 = "?n3\<lparr>nd_sig := SgInRegistry, nd_registry := ?p2\<rparr>"
  have made: "created (registry_ready checkers)" "pl_stop (registry_ready checkers) = None"
    "pl_sched (registry_ready checkers) = Looping AtSelect"
    "list_all (\<lambda>w. w \<in> {Ready, Exited}) (pl_workers (registry_ready checkers))"
    by (simp_all add: registry_ready_def pool_ready_def created_def list_all_iff)
  have "pe_poll (registry_pool G) s AtSelect (srv # srvs) pc s'"
    unfolding registry_pool_simps using assms by (rule exI)
  then have "pool_step (registry_pool G) (registry_ready checkers, s) (?p1, s')"
    using made by (intro pool_step.poll) (auto simp: exit_offered_def)
  then have "pool_run (registry_pool G) (nd_registry ?n0, nd_db ?n0) (?p1, s')"
    using create_all [of "registry_pool G" "check_worker_pool_size checkers" AtSelect s]
    by (auto simp: node_init_def gate_init_def registry_init_def registry_ready_def intro: pool_run_step)
  then have r1: "node_run N G HL m ?n0 ?n1"
    by (rule lift_registry) (use made(2) in \<open>simp_all add: node_init_def registry_init_def pool_init_def\<close>)
  have s2: "own_step N G HL m ?n1 ?n2" by (rule own_step.signal) (simp add: node_init_def)
  have s3: "own_step N G HL m ?n2 ?n3" by (rule own_step.elect) simp
  have s4: "own_step N G HL m ?n3 ?n4" using own_step.stop_registry [of ?n3 N G HL m] by simp
  note r4 = node_run_own [OF node_run_own [OF node_run_own [OF r1 s2] s3] s4]
  obtain q where q: "pool_run (registry_pool G) (?p2, s') (q, s')" "pl_stop q = Some [SendExit, WaitWorkers]"
    "\<And>t qu. \<not> pool_step (registry_pool G) (q, t) qu"
    using stuck_after_pause [of ?p2 srv srvs pc "registry_pool G" s'] made by (auto simp: created_def)
  let ?n5 = "put_db s' (?n4\<lparr>nd_registry := q\<rparr>)"
  have "node_run N G HL m ?n4 ?n5"
    by (rule lift_registry) (use q in simp_all)
  then have r5: "node_run N G HL m ?n0 ?n5" by (rule node_run_trans [OF r4])
  have inv: "order_inv ?n5" using node_inv_run [OF r5 node_inv_init] by (simp add: node_inv_def)
  have "nd_sig n' = SgInRegistry \<and> pl_stop (nd_engine n') = None \<and> \<not> gt_isPaused (nd_gate n')"
    if "node_run N G HL m ?n5 n'" for n'
  proof -
    have "order_inv n' \<and> nd_sig n' = SgInRegistry \<and> nd_registry n' = q"
      by (rule hanging_stays [OF that inv]) (use q in simp_all)
    then show ?thesis by (auto simp: order_inv_def sig_order)
  qed
  with r5 show ?thesis by (intro exI [of _ ?n5]) simp
qed

lemma shutdown_can_hang_witness:
  "\<exists>n. node_run demo_engine (easytask_registry ref_libs mem_store demo_http) ref_http_lib (api_map demo_api)
      (node_init 100 100 demo_down) n \<and> nd_sig n = SgInRegistry \<and>
    (\<forall>n'. node_run demo_engine (easytask_registry ref_libs mem_store demo_http) ref_http_lib (api_map demo_api) n n' \<longrightarrow>
       nd_sig n' \<noteq> SgExited)"
proof -
  let ?G = "easytask_registry ref_libs mem_store demo_http"
  have "fst (check_poll (rg_srvs ?G) True AtSelect demo_down) = ([demo_down_srv], AtPage 1000)"
    by code_simp
  then obtain s' where "check_poll (rg_srvs ?G) True AtSelect demo_down = (([demo_down_srv], AtPage 1000), s')"
    by (rule fst_eqE)
  from shutdown_can_hang [OF this, of demo_engine ref_http_lib "api_map demo_api" 100 100] show ?thesis
    by (elim exE conjE) (intro exI conjI, assumption, assumption, auto)
qed

section \<open>A shutdown that completes\<close>

text \<open>Every request that is on its way has come to a registered path.\<close>

fun rq_open :: "rq_pc \<Rightarrow> http_request option" where
  "rq_open (RqNew req) = Some req"
| "rq_open (RqCounted req) = Some req"
| "rq_open (RqChecked p req) = Some req"
| "rq_open (RqDone out) = None"

definition served_inv :: "('c \<Rightarrow> ('s, 'v, 'd) route_map) \<Rightarrow> 's gate \<Rightarrow> bool" where
  "served_inv m g \<longleftrightarrow> (\<forall>q \<in> set (gt_rqs g). \<forall>req. rq_open q = Some req \<longrightarrow> (\<exists>c. m c (rq_Path req) \<noteq> None))"

lemma served_update:
  "served_inv m g \<Longrightarrow> gt_rqs h = (gt_rqs g)[k := q] \<Longrightarrow> k < length (gt_rqs g) \<Longrightarrow>
     rq_open q = None \<or> rq_open q = rq_open (gt_rqs g ! k) \<Longrightarrow> served_inv m h"
  by (auto simp: served_inv_def dest!: set_updateD dest: nth_mem)

lemma served_inv_step: "gate_step HL m g h \<Longrightarrow> served_inv m g \<Longrightarrow> served_inv m h"
  by (erule gate_stepE) (auto simp: served_inv_def dest!: set_updateD dest: nth_mem)

lemma gate_run_refl [intro]: "gate_run HL m g g"
  by (simp add: gate_run_def)

lemma gate_step_run: "gate_step HL m g h \<Longrightarrow> gate_run HL m h i \<Longrightarrow> gate_run HL m g i"
  unfolding gate_run_def by (rule converse_rtranclp_into_rtranclp)

text \<open>No handler that is about to run panics.\<close>

definition handlers_end :: "('v, 'd) http_lib \<Rightarrow> ('c \<Rightarrow> ('s, 'v, 'd) route_map) \<Rightarrow> 's gate \<Rightarrow> bool" where
  "handlers_end HL m g \<longleftrightarrow> (\<forall>req c mm s. RqChecked False req \<in> set (gt_rqs g) \<longrightarrow>
     m c (rq_Path req) = Some mm \<longrightarrow> (\<exists>tid out s'. handle_request HL mm False tid req s = (Inr out, s')))"

lemma handlers_end_sub:
  "handlers_end HL m g \<Longrightarrow> (\<And>req. RqChecked False req \<in> set (gt_rqs h) \<Longrightarrow> RqChecked False req \<in> set (gt_rqs g)) \<Longrightarrow>
     handlers_end HL m h"
  unfolding handlers_end_def by blast

lemma can_answer:
  assumes "handlers_end HL m g" "served_inv m g" "k < length (gt_rqs g)" "gt_rqs g ! k = RqChecked p req"
  shows "\<exists>out s. gate_step HL m g
    (g\<lparr>gt_rqs := (gt_rqs g)[k := RqDone out], gt_servingWait := gt_servingWait g - 1, gt_state := s\<rparr>)"
proof -
  have "RqChecked p req \<in> set (gt_rqs g)" using assms(3,4) nth_mem by metis
  then obtain c mm where c: "m c (rq_Path req) = Some mm" using assms(2) by (force simp: served_inv_def)
  have "\<exists>tid out s. handle_request HL mm p tid req (gt_state g) = (Inr out, s)"
  proof (cases p)
    case False
    with assms(1) c \<open>RqChecked p req \<in> set (gt_rqs g)\<close> show ?thesis by (simp add: handlers_end_def)
  qed (simp add: handle_request_paused)
  with gate_step.answer [where m = m and c = c, OF assms(3,4) c] show ?thesis by blast
qed

text \<open>Every request that was counted can be answered.\<close>

lemma drain_gate:
  assumes "handlers_end HL m g" "served_inv m g" "gt_isPaused g"
  shows "\<exists>h. gate_run HL m g h \<and> filter is_inside (gt_rqs h) = [] \<and> gt_stop h = gt_stop g"
  using assms
proof (induction "length (filter is_inside (gt_rqs g))" arbitrary: g)
  case 0
  then show ?case by auto
next
  case (Suc n)
  then have "filter is_inside (gt_rqs g) \<noteq> []" by auto
  then obtain k where k: "k < length (gt_rqs g)" "is_inside (gt_rqs g ! k)"
    by (auto simp: filter_empty_conv in_set_conv_nth)
  have finish: "\<exists>h. gate_run HL m f h \<and> filter is_inside (gt_rqs h) = [] \<and> gt_stop h = gt_stop f"
    if f: "handlers_end HL m f" "served_inv m f" "gt_isPaused f" "Suc n = length (filter is_inside (gt_rqs f))" "k < length (gt_rqs f)"
      "gt_rqs f ! k = RqChecked p req" for f p req
  proof -
    obtain out s where step: "gate_step HL m f
        (f\<lparr>gt_rqs := (gt_rqs f)[k := RqDone out], gt_servingWait := gt_servingWait f - 1, gt_state := s\<rparr>)"
      (is "gate_step HL m f ?f") using can_answer [OF f(1,2,5,6)] by blast
    have "n = length (filter is_inside (gt_rqs ?f))"
      using length_filter_update [OF f(5), of is_inside "RqDone out"] f(4,6) by simp
    moreover have "handlers_end HL m ?f" by (rule handlers_end_sub [OF f(1)]) (auto dest!: set_updateD)
    ultimately show ?thesis using Suc(1) [OF _ _ served_inv_step [OF step f(2)]] f(3) gate_step_run [OF step] by auto
  qed
  show ?case
  proof (cases "gt_rqs g ! k")
    case (RqCounted req)
    let ?f = "g\<lparr>gt_rqs := (gt_rqs g)[k := RqChecked (gt_isPaused g) req]\<rparr>"
    have step: "gate_step HL m g ?f" by (rule gate_step.check [OF k(1) RqCounted])
    have "int (length (filter is_inside (gt_rqs ?f))) = int (length (filter is_inside (gt_rqs g)))"
      using length_filter_update [OF k(1), of is_inside "RqChecked (gt_isPaused g) req"] RqCounted by simp
    then have len: "Suc n = length (filter is_inside (gt_rqs ?f))" using Suc(2) by simp
    have "handlers_end HL m ?f" by (rule handlers_end_sub [OF Suc(3)]) (use Suc(5) in \<open>auto dest!: set_updateD\<close>)
    from finish [OF this served_inv_step [OF step Suc(4)] _ len, of "gt_isPaused g" req] Suc(5) k(1)
    obtain h where "gate_run HL m ?f h" "filter is_inside (gt_rqs h) = []" "gt_stop h = gt_stop ?f" by auto
    with gate_step_run [OF step] show ?thesis by auto
  next
    case (RqChecked p req)
    from finish [OF Suc(3,4,5,2) k(1) RqChecked] show ?thesis .
  qed (use k in simp_all)
qed

lemma gate_inv_gate_run: "gate_run HL m g h \<Longrightarrow> gate_inv g \<Longrightarrow> gate_inv h"
  unfolding gate_run_def by (induction rule: rtranclp_induct) (auto intro: gate_inv_step)

lemma gate_can_stop:
  assumes "handlers_end HL m g" "served_inv m g" "gate_inv g" "gt_isPaused g" "gt_stop g = StopWaiting"
  shows "\<exists>h. gate_run HL m g h \<and> gt_stop h = StopReturned"
proof -
  obtain h where h: "gate_run HL m g h" "filter is_inside (gt_rqs h) = []" "gt_stop h = StopWaiting"
    using drain_gate [OF assms(1,2,4)] assms(5) by auto
  have "gt_servingWait h = 0" using gate_inv_gate_run [OF h(1) assms(3)] h(2) by (simp add: gate_inv_def)
  from gate_step.stopped [OF h(3) this, of HL m] h(1) show ?thesis
    unfolding gate_run_def by (intro exI [of _ "h\<lparr>gt_stop := StopReturned\<rparr>"]) (auto intro: rtranclp.rtrancl_into_rtrancl)
qed

lemma gate_stop_idle: "gate_step HL m g h \<Longrightarrow> gt_stop g \<noteq> StopIdle \<Longrightarrow> gt_stop h \<noteq> StopIdle"
  by (erule gate_stepE) auto

lemma lift_gate:
  assumes "gate_run HL m (nd_gate n) h" "nd_sig n \<noteq> SgExited" "gt_stop (nd_gate n) \<noteq> StopIdle"
  shows "node_run N G HL m n (n\<lparr>nd_gate := h\<rparr>)"
proof -
  have "node_run N G HL m n (n\<lparr>nd_gate := h\<rparr>) \<and> gt_stop h \<noteq> StopIdle"
    using assms(1) unfolding gate_run_def
  proof (induction rule: rtranclp_induct)
    case base
    have "n\<lparr>nd_gate := nd_gate n\<rparr> = n" by simp
    then show ?case using assms(3) by (simp only: node_run_refl simp_thms)
  next
    case (step g h)
    then have st: "gt_stop h \<noteq> StopIdle" using gate_stop_idle by blast
    have "own_step N G HL m (n\<lparr>nd_gate := g\<rparr>) (n\<lparr>nd_gate := g\<rparr>\<lparr>nd_gate := h\<rparr>)"
      by (rule own_step.request) (use step assms(2) st in simp_all)
    with step.IH node_run_own st show ?case by fastforce
  qed
  then show ?thesis ..
qed

lemma served_run:
  assumes "node_run N G HL m n0 n" "served_inv m (nd_gate n0)"
  shows "served_inv m (nd_gate n)"
  using assms unfolding node_run_def
proof (induction rule: rtranclp_induct)
  case (step n n')
  then have inv: "served_inv m (nd_gate n)" by simp
  have same: "served_inv m (g\<lparr>gt_state := s\<rparr>) = served_inv m g" for g s by (simp add: served_inv_def)
  from step.hyps(2) show ?case
  proof cases
    case own
    then show ?thesis
    proof cases
      case (request g)
      from served_inv_step [OF request(3) inv] request(1) show ?thesis by simp
    next
      case stop_router
      with inv show ?thesis by (simp add: served_inv_def)
    qed (use inv same in simp_all)
  qed (use inv same in simp_all)
qed simp

text \<open>The phases of the shutdown, the last one first.\<close>

definition can_exit ::
    "'s engine \<Rightarrow> 's registry \<Rightarrow> ('v, 'd) http_lib \<Rightarrow> ('c \<Rightarrow> ('s, 'v, 'd) route_map) \<Rightarrow> 's node \<Rightarrow> bool" where
  "can_exit N G HL m n \<longleftrightarrow> (\<exists>n'. node_run N G HL m n n' \<and> nd_sig n' = SgExited)"

lemma can_exit_run: "node_run N G HL m n n1 \<Longrightarrow> can_exit N G HL m n1 \<Longrightarrow> can_exit N G HL m n"
  unfolding can_exit_def using node_run_trans by blast

lemma can_exit_step: "own_step N G HL m n n1 \<Longrightarrow> can_exit N G HL m n1 \<Longrightarrow> can_exit N G HL m n"
  by (rule can_exit_run [OF node_run_own [OF node_run_refl]])

lemma exit_told:
  assumes "nd_sig n = SgApi" "nd_api n = ApSend"
  shows "can_exit N G HL m n"
proof (rule can_exit_step [OF own_step.router_told [OF assms]], rule can_exit_step)
  let ?n = "n\<lparr>nd_sig := SgFlush, nd_api := ApEnd\<rparr>"
  show "own_step N G HL m ?n (?n\<lparr>nd_sig := SgExited\<rparr>)" by (rule own_step.exit) simp
  show "can_exit N G HL m (?n\<lparr>nd_sig := SgExited\<rparr>)" by (auto simp: can_exit_def)
qed

lemma exit_stopping:
  assumes "nd_sig n = SgApi" "nd_api n = ApStopping" "gt_stop (nd_gate n) \<noteq> StopIdle"
    and "gate_inv (nd_gate n)" "served_inv m (nd_gate n)" "handlers_end HL m (nd_gate n)"
  shows "can_exit N G HL m n"
proof -
  have "\<exists>h. gate_run HL m (nd_gate n) h \<and> gt_stop h = StopReturned"
  proof (cases "gt_stop (nd_gate n)")
    case StopWaiting
    with gate_can_stop [OF assms(6,5,4)] assms(4) show ?thesis by (simp add: gate_inv_def)
  qed (use assms(3) in auto)
  then obtain h where h: "gate_run HL m (nd_gate n) h" "gt_stop h = StopReturned" by blast
  let ?n = "n\<lparr>nd_gate := h\<rparr>"
  have run: "node_run N G HL m n ?n" by (rule lift_gate [OF h(1) _ assms(3)]) (simp add: assms(1))
  have step: "own_step N G HL m ?n (?n\<lparr>nd_api := ApSend\<rparr>)" by (rule own_step.router_stopped) (simp_all add: assms h(2))
  show ?thesis
    by (rule can_exit_run [OF run can_exit_step [OF step exit_told]]) (simp_all add: assms(1))
qed

lemma exit_router:
  assumes sig: "nd_sig n = SgApi" and inv: "order_inv n" "gate_inv (nd_gate n)"
    and served: "served_inv m (nd_gate n)" and ends: "handlers_end HL m (nd_gate n)"
  shows "can_exit N G HL m n"
proof (cases "nd_api n")
  case ApStop
  let ?n = "n\<lparr>nd_api := ApStopping, nd_gate := (nd_gate n)\<lparr>gt_stop := StopWaiting, gt_isPaused := True\<rparr>\<rparr>"
  have "gt_stop (nd_gate n) = StopIdle" using inv(1) ApStop by (simp add: order_inv_def)
  then have "gate_inv (nd_gate ?n)" "served_inv m (nd_gate ?n)" "handlers_end HL m (nd_gate ?n)"
    using inv(2) served handlers_end_sub [OF ends, of "nd_gate ?n"] by (simp_all add: gate_inv_def served_inv_def)
  then show ?thesis
    by (intro can_exit_step [OF own_step.stop_router [OF ApStop]] exit_stopping) (simp_all add: sig)
next
  case ApStopping
  with inv show ?thesis by (intro exit_stopping [OF sig ApStopping] served ends) (auto simp: order_inv_def)
next
  case ApSend
  show ?thesis by (rule exit_told [OF sig ApSend])
qed (use inv(1) sig in \<open>simp_all add: order_inv_def sig_order\<close>)

lemma exit_send:
  assumes "nd_sig n = SgSend" "node_inv N G r0 e0 n" "served_inv m (nd_gate n)" "handlers_end HL m (nd_gate n)"
  shows "can_exit N G HL m n"
proof -
  let ?n = "n\<lparr>nd_sig := SgApi, nd_api := ApStop\<rparr>"
  have "nd_api n = ApAwait" using assms(1,2) by (simp add: node_inv_def order_inv_def sig_order)
  then have step: "own_step N G HL m n ?n" by (rule own_step.tell_router [OF assms(1)])
  from node_inv_own [OF step assms(2)] assms(3,4) show ?thesis
    by (intro can_exit_step [OF step] exit_router) (simp_all add: node_inv_def)
qed

lemma exit_engine:
  assumes sig: "nd_sig n = SgInEngine" and inv: "node_inv N G r0 (engine_init w) n" and served: "served_inv m (nd_gate n)"
    and leak: "no_leak (task_pool N) (nd_engine n)" and ends: "handlers_end HL m (nd_gate n)"
  shows "can_exit N G HL m n"
proof -
  have "pool_reach (task_pool N) (engine_init w) (nd_engine n)" using inv by (simp add: node_inv_def)
  note at = pool_atI [OF engine_start this]
  have called: "pl_stop (nd_engine n) \<noteq> None" using inv sig by (simp add: node_inv_def order_inv_def sig_order)
  obtain q u where q: "pool_run (task_pool N) (nd_engine n, node_world n) (q, u)" "pl_stop q = Some []"
    using engine_can_stop [OF tasks_end leak _ _ worker_pool_size_pos at, of "node_world n"] by auto
  let ?n1 = "put_db (wo_db u) (n\<lparr>nd_engine := q, nd_started := wo_started u\<rparr>)"
  have r1: "node_run N G HL m n ?n1" by (rule lift_engine [OF q(1)]) (simp_all add: sig called q(2))
  let ?n2 = "?n1\<lparr>nd_sig := SgSend\<rparr>"
  have s2: "own_step N G HL m ?n1 ?n2" by (rule own_step.engine_stopped) (simp_all add: sig q(2))
  note r2 = node_run_own [OF r1 s2]
  have "handlers_end HL m (nd_gate ?n2)" by (rule handlers_end_sub [OF ends]) simp
  from exit_send [OF _ node_inv_run [OF r2 inv] served_run [OF r2 served] this] show ?thesis
    by (intro can_exit_run [OF r2]) simp
qed

lemma shutdown_ends:
  assumes inv: "node_inv N G r0 (engine_init w) n" and served: "served_inv m (nd_gate n)"
    and sig: "SgInRegistry < nd_sig n" and leak: "no_leak (task_pool N) (nd_engine n)"
    and ends: "handlers_end HL m (nd_gate n)"
  shows "can_exit N G HL m n"
proof (cases "nd_sig n")
  case SgEngine
  let ?n = "n\<lparr>nd_sig := SgInEngine, nd_engine := (nd_engine n)\<lparr>pl_stop := Some engine_stop\<rparr>\<rparr>"
  have step: "own_step N G HL m n ?n" by (rule own_step.stop_engine [OF SgEngine])
  have "no_leak (task_pool N) (nd_engine ?n)" using leak by (simp add: no_leak_def)
  with exit_engine [OF _ node_inv_own [OF step inv]] served ends show ?thesis
    by (intro can_exit_step [OF step]) simp
next
  case SgInEngine
  from exit_engine [OF this inv served leak ends] show ?thesis .
next
  case SgSend
  from exit_send [OF this inv served ends] show ?thesis .
next
  case SgApi
  with inv show ?thesis by (intro exit_router served ends) (simp_all add: node_inv_def)
next
  case SgFlush
  show ?thesis by (rule can_exit_step [OF own_step.exit [OF SgFlush]]) (auto simp: can_exit_def)
next
  case SgExited
  then show ?thesis by (auto simp: can_exit_def)
qed (use sig in \<open>simp_all add: sig_order\<close>)

text \<open>A node that has nothing to do, up to the point where the registry has stopped.\<close>

lemma idle_node:
  obtains n0 n where "node_run N G HL m (node_init c w s) n0" "created (nd_registry n0)" "nd_sig n0 = SgAwait"
    "node_run N G HL m n0 n" "nd_sig n = SgEngine" "nd_engine n = engine_init w" "nd_gate n = gate_init s"
proof -
  let ?n0 = "(node_init c w s)\<lparr>nd_registry := registry_ready c\<rparr>"
  let ?n2 = "?n0\<lparr>nd_sig := SgElect\<rparr>"
  let ?n3 = "?n2\<lparr>nd_sig := SgRegistry, nd_electing := False\<rparr>"
  let ?n4 = "?n3\<lparr>nd_sig := SgInRegistry, nd_registry := (registry_ready c)\<lparr>pl_stop := Some registry_stop\<rparr>\<rparr>"
  have start: "nd_sig ?n0 = SgAwait" "nd_registry ?n0 = registry_ready c" "nd_engine ?n0 = engine_init w"
    "nd_gate ?n0 = gate_init s"
    by (simp_all add: node_init_def)
  have "node_run N G HL m (node_init c w s) (put_db s (node_init c w s\<lparr>nd_registry := registry_ready c\<rparr>))"
    by (rule lift_registry)
      (use create_all [of "registry_pool G" "check_worker_pool_size c" AtSelect s] in
        \<open>simp_all add: node_init_def gate_init_def registry_init_def registry_ready_def pool_init_def pool_ready_def\<close>)
  moreover have "put_db s ?n0 = ?n0" by (simp add: put_db_def node_init_def gate_init_def)
  ultimately have r0: "node_run N G HL m (node_init c w s) ?n0" by simp
  have made: "created (nd_registry ?n0)" by (simp add: created_def registry_ready_def pool_ready_def)
  have s2: "own_step N G HL m ?n0 ?n2" by (rule own_step.signal [OF start(1)])
  have s3: "own_step N G HL m ?n2 ?n3" by (rule own_step.elect) simp
  have s4: "own_step N G HL m ?n3 ?n4" using own_step.stop_registry [of ?n3 N G HL m] start(2) by simp
  obtain q where q: "pool_run (registry_pool G) ((registry_ready c)\<lparr>pl_stop := Some registry_stop\<rparr>, s) (q, s)"
    "pl_stop q = Some []"
    using idle_stop [of "registry_pool G" AtSelect "check_worker_pool_size c" s] by (auto simp: registry_ready_def)
  let ?n5 = "put_db s (?n4\<lparr>nd_registry := q\<rparr>)"
  have r5: "node_run N G HL m ?n4 ?n5" by (rule lift_registry) (use q start in \<open>simp_all add: gate_init_def\<close>)
  have s6: "own_step N G HL m ?n5 (?n5\<lparr>nd_sig := SgEngine\<rparr>)" by (rule own_step.registry_stopped) (simp_all add: q(2))
  have "node_run N G HL m ?n0 (?n5\<lparr>nd_sig := SgEngine\<rparr>)"
    by (rule node_run_own [OF node_run_trans [OF node_run_own [OF node_run_own [OF node_run_own [OF
          node_run_refl s2] s3] s4] r5] s6])
  from that [OF r0 made start(1) this] show thesis by (simp_all add: node_init_def gate_init_def)
qed

section \<open>Properties\<close>

lemma served_init: "served_inv m (nd_gate (node_init c w s))"
  by (simp add: served_inv_def node_init_def gate_init_def)

lemma idle_can_exit:
  assumes "node_run N G HL m (node_init c w s) n" "nd_sig n = SgEngine" "nd_engine n = engine_init w"
    "nd_gate n = gate_init s"
  shows "can_exit N G HL m n"
  by (rule shutdown_ends [OF node_inv_run [OF assms(1) node_inv_init]])
    (use assms(2-4) in \<open>simp_all add: sig_order gate_init_def served_inv_def handlers_end_def no_leak_def engine_init_def pool_init_def\<close>)

lemma exited_node:
  obtains n0 n where "node_run N G HL m (node_init c w s) n0" "created (nd_registry n0)" "nd_sig n0 < SgInRegistry"
    "node_run N G HL m n0 n" "nd_sig n = SgExited" "gt_isPaused (nd_gate n)"
proof -
  obtain n0 n where n: "node_run N G HL m (node_init c w s) n0" "created (nd_registry n0)" "nd_sig n0 = SgAwait"
    "node_run N G HL m n0 n" "nd_sig n = SgEngine" "nd_engine n = engine_init w" "nd_gate n = gate_init s"
    by (rule idle_node)
  note run = node_run_trans [OF n(1,4)]
  from idle_can_exit [OF run n(5-7)] obtain n' where n': "node_run N G HL m n n'" "nd_sig n' = SgExited"
    by (auto simp: can_exit_def)
  from node_inv_run [OF node_run_trans [OF run n'(1)] node_inv_init] n'(2) have "gt_isPaused (nd_gate n')"
    by (auto simp: node_inv_def order_inv_def gate_inv_def sig_order)
  moreover have "nd_sig n0 < SgInRegistry" by (simp add: n(3) sig_order)
  ultimately show thesis using that n(1,2) node_run_trans [OF n(4) n'(1)] n'(2) by blast
qed

text \<open>
  C17. A clean exit: when the registry had created its workers before its \<open>Stop\<close> was called, then when the process
  exits after a signal every worker of its worker engine and of its registry has finished what it was doing
  and left, no handler is running, and none of its goroutines can change the database or start a run any
  more, whatever requests still arrive and whatever other nodes do to the database. The condition is needed:
  \<open>Registry.Run\<close> creates its workers beside its loop, and an earlier \<open>Stop\<close> does not wait for them.
\<close>

lemma node_exits_clean:
  assumes "node_run N G HL m (node_init checkers workers s) n0" "created (nd_registry n0)" "nd_sig n0 < SgInRegistry"
    and "node_run N G HL m n0 n" "nd_sig n \<in> {SgFlush, SgExited}"
  shows "(\<forall>x \<in> set (pl_workers (nd_engine n)). x = Exited) \<and> pl_sched (nd_engine n) = Ended \<and>
    (\<forall>x \<in> set (pl_workers (nd_registry n)). x = Exited) \<and> pl_sched (nd_registry n) = Ended \<and>
    (\<forall>req. RqChecked False req \<notin> set (gt_rqs (nd_gate n))) \<and>
    (\<forall>n'. own_step N G HL m n n' \<longrightarrow> nd_db n' = nd_db n \<and> nd_started n' = nd_started n)"
  by (rule clean_exit [OF created_in_time(1) [OF assms(1-4)] _ created_in_time(2) [OF assms(1-4)]])
    (use assms(5) in \<open>auto simp: sig_order\<close>)

lemma node_exits_clean_witness:
  "\<exists>n. node_run demo_engine (easytask_registry ref_libs mem_store demo_http) ref_http_lib (api_map demo_api)
     (node_init 2 2 demo_mem) n \<and> nd_sig n = SgExited \<and> pl_sched (nd_engine n) = Ended"
proof -
  obtain n0 n where n: "node_run demo_engine (easytask_registry ref_libs mem_store demo_http) ref_http_lib (api_map demo_api)
      (node_init 2 2 demo_mem) n0" "created (nd_registry n0)" "nd_sig n0 < SgInRegistry"
    "node_run demo_engine (easytask_registry ref_libs mem_store demo_http) ref_http_lib (api_map demo_api) n0 n"
    "nd_sig n = SgExited"
    by (rule exited_node)
  from node_exits_clean [OF n(1-4)] n node_run_trans [OF n(1,4)] show ?thesis by blast
qed

text \<open>
  C20. Nothing is refused before the work is drained: when the registry had created its workers before its \<open>Stop\<close> was
  called, then as long as a worker of the engine or of the registry has not left, the router accepts
  requests, so the confirmation of a run in flight still gets in.
\<close>

lemma refuses_only_when_drained:
  assumes "node_run N G HL m (node_init checkers workers s) n0" "created (nd_registry n0)" "nd_sig n0 < SgInRegistry"
    and "node_run N G HL m n0 n" "gt_isPaused (nd_gate n)"
  shows "(\<forall>x \<in> set (pl_workers (nd_engine n)). x = Exited) \<and> (\<forall>x \<in> set (pl_workers (nd_registry n)). x = Exited)"
  by (rule refusing_is_drained [OF created_in_time(1) [OF assms(1-4)] assms(5) created_in_time(2) [OF assms(1-4)]])

lemma refuses_only_when_drained_witness:
  "\<exists>n. node_run demo_engine (easytask_registry ref_libs mem_store demo_http) ref_http_lib (api_map demo_api)
     (node_init 2 2 demo_mem) n \<and> gt_isPaused (nd_gate n) \<and> (\<forall>x \<in> set (pl_workers (nd_engine n)). x = Exited)"
proof -
  obtain n0 n where n: "node_run demo_engine (easytask_registry ref_libs mem_store demo_http) ref_http_lib (api_map demo_api)
      (node_init 2 2 demo_mem) n0" "created (nd_registry n0)" "nd_sig n0 < SgInRegistry"
    "node_run demo_engine (easytask_registry ref_libs mem_store demo_http) ref_http_lib (api_map demo_api) n0 n"
    "gt_isPaused (nd_gate n)"
    by (rule exited_node)
  from refuses_only_when_drained [OF n] n node_run_trans [OF n(1,4)] show ?thesis by blast
qed

text \<open>
  C18. After \<open>reg.Stop\<close> the shutdown never gets stuck: from every state a started process can reach once \<open>reg.Stop\<close> has
  returned, at whatever statement the rest of the shutdown is, the goroutines can run on to \<open>os.Exit\<close>. This
  needs that no worker of the engine has left over a task without routes, that every task still to be sent
  has a route, and that no handler that has begun panics.
\<close>

lemma shutdown_completes:
  assumes "node_run N G HL m (node_init checkers workers s) n" "SgInRegistry < nd_sig n"
    and "Left \<notin> set (pl_workers (nd_engine n))"
    and "\<And>ts c t. pl_sched (nd_engine n) = Sending ts c \<Longrightarrow> t \<in> set ts \<Longrightarrow> cs_routes (t_callbackSrv t) \<noteq> []"
    and "handlers_end HL m (nd_gate n)"
  shows "\<exists>n'. node_run N G HL m n n' \<and> nd_sig n' = SgExited"
proof -
  have "no_leak (task_pool N) (nd_engine n)" using assms(3,4) by (auto simp: no_leak_def worker_accept_def)
  from shutdown_ends [OF node_inv_run [OF assms(1) node_inv_init] served_run [OF assms(1) served_init] assms(2) this assms(5)]
  show ?thesis by (simp add: can_exit_def)
qed

lemma shutdown_completes_witness:
  "\<exists>n. node_run demo_engine (easytask_registry ref_libs mem_store demo_http) ref_http_lib (api_map demo_api)
     (node_init 2 2 demo_mem) n \<and> nd_sig n = SgExited"
proof -
  let ?run = "node_run demo_engine (easytask_registry ref_libs mem_store demo_http) ref_http_lib (api_map demo_api)"
  obtain n0 n where n: "?run (node_init 2 2 demo_mem) n0" "created (nd_registry n0)" "nd_sig n0 = SgAwait"
    "?run n0 n" "nd_sig n = SgEngine" "nd_engine n = engine_init 2" "nd_gate n = gate_init demo_mem"
    by (rule idle_node)
  note run = node_run_trans [OF n(1,4)]
  have "handlers_end ref_http_lib (api_map demo_api) (nd_gate n)" by (simp add: n handlers_end_def gate_init_def)
  from shutdown_completes [OF run _ _ _ this] node_run_trans [OF run] show ?thesis
    by (auto simp: n sig_order engine_init_def pool_init_def)
qed

end
