(* ===== verification/Sched_Scan.thy ===== *)
theory Sched_Scan
  imports Task_Engine Repo_Props
begin

text \<open>
  The loop of \<open>Sched.schedule\<close> (\<open>internal/task/sched.go\<close>) over many rounds: \<open>sched_rounds\<close> is any sequence of
  rounds of \<open>sched_poll\<close> in which each starts at the cursor the one before it left. Every round has its own answer of
  the election, its own clock and its own database: between two rounds workers, requests and other nodes may have
  changed anything. A round that is not master or whose query fails keeps the cursor and sends nothing. A
  scan is a sequence of rounds up to an empty page, which sets the cursor back.
\<close>

section \<open>Rounds\<close>

record 's poll_round =
  pr_isMaster :: bool
  pr_now :: int
  pr_cursor :: string
  pr_db :: 's
  pr_tasks :: "task list"
  pr_next :: string
  pr_after :: 's

fun sched_rounds :: "'s task_repo \<Rightarrow> string \<Rightarrow> 's poll_round list \<Rightarrow> bool" where
  "sched_rounds TR cursor [] \<longleftrightarrow> True"
| "sched_rounds TR cursor (r # rs) \<longleftrightarrow> pr_cursor r = cursor \<and>
     sched_poll TR (pr_isMaster r) (pr_now r) cursor (pr_db r) = ((pr_tasks r, pr_next r), pr_after r) \<and>
     sched_rounds TR (pr_next r) rs"

text \<open>The master's query succeeded and found no page: the scan is over.\<close>

definition page_was_empty :: "'s task_repo \<Rightarrow> 's poll_round \<Rightarrow> bool" where
  "page_was_empty TR r \<longleftrightarrow> pr_isMaster r \<and>
     (case fst (ir_TimeoutTasks TR (pr_now r) sched_size (pr_cursor r) (pr_db r)) of
        Inl e \<Rightarrow> False | Inr (tasks, nextCursor) \<Rightarrow> tasks = [])"

section \<open>Lemmas\<close>

lemma due_page_sorted:
  assumes "due_page now lim c R ms" "distinct (map bm_Id R)"
  shows "sorted_wrt (<) (map bm_Id ms)"
proof -
  obtain xs where xs: "mset xs = mset (filter (\<lambda>m. uint c < uint (bm_Id m) \<and> due now m) R)"
    "sorted (map bm_Id xs)" "ms = take (nat lim) xs"
    using assms(1) by (auto simp: due_page_def)
  have "mset (map bm_Id xs) = mset (map bm_Id (filter (\<lambda>m. uint c < uint (bm_Id m) \<and> due now m) R))"
    using arg_cong [OF xs(1), of "image_mset bm_Id"] by simp
  from mset_eq_imp_distinct_iff [OF this] distinct_map_filter [OF assms(2)] have "distinct (map bm_Id xs)" by blast
  with xs(2) have "sorted_wrt (<) (map bm_Id xs)" by (simp add: strict_sorted_iff)
  then show ?thesis unfolding xs(3) take_map [symmetric] by (rule sorted_wrt_take)
qed

text \<open>An empty page that hides a task is full of tasks of unregistered services.\<close>

lemma due_page_full:
  assumes "due_page now lim c R ms" "\<forall>m \<in> set ms. \<not> P m"
    and "m \<in> set R" "due now m" "uint c < uint (bm_Id m)" "P m"
  shows "nat lim \<le> length (filter (\<lambda>m. due now m \<and> \<not> P m) R)"
proof -
  obtain xs where xs: "mset xs = mset (filter (\<lambda>m. uint c < uint (bm_Id m) \<and> due now m) R)" "ms = take (nat lim) xs"
    using assms(1) by (auto simp: due_page_def)
  have "set xs = {m \<in> set R. uint c < uint (bm_Id m) \<and> due now m}"
    using mset_eq_setD [OF xs(1)] by simp
  with assms(3-5) have "m \<in> set xs" by simp
  moreover have "m \<notin> set ms" using assms(2,6) by blast
  ultimately have len: "length ms = nat lim" using xs(2) by (cases "nat lim < length xs") auto
  have "mset ms = filter_mset (\<lambda>m. due now m \<and> \<not> P m) (mset ms)"
    using assms(2) due_page_set [OF assms(1)] by (intro filter_mset_eq_conv [THEN iffD2, symmetric]) auto
  also have "\<dots> \<subseteq># filter_mset (\<lambda>m. due now m \<and> \<not> P m) (mset R)"
  proof (rule multiset_filter_mono)
    have "mset ms \<subseteq># mset xs" using xs(2) by (metis append_take_drop_id mset_append mset_subset_eq_add_left)
    also have "\<dots> \<subseteq># mset R" by (simp only: xs(1) mset_filter multiset_filter_subset)
    finally show "mset ms \<subseteq># mset R" .
  qed
  finally have "size (mset ms) \<le> size (filter_mset (\<lambda>m. due now m \<and> \<not> P m) (mset R))" by (rule size_mset_mono)
  then show ?thesis using len by (simp flip: mset_filter)
qed

text \<open>The identifiers of a list of tasks.\<close>

definition task_ids :: "u64 list \<Rightarrow> task list \<Rightarrow> bool" where
  "task_ids ids ts \<longleftrightarrow> map t_id ts = map toTaskEntityId ids"

context easytask_store
begin

lemma cursor_text: "cursor_task_model_id (toTaskEntityId w) = Inr w" "toTaskEntityId w \<noteq> []"
proof -
  show "toTaskEntityId w \<noteq> []" by (simp add: toTaskEntityId_def sprintf_d_def)
  then show "cursor_task_model_id (toTaskEntityId w) = Inr w" by (simp add: cursor_task_model_id_def)
qed

text \<open>A page that was sent.\<close>

lemma sent_page:
  assumes run: "timeout_tasks L S (mysql_srv_repo L S) now sched_size cursor db = (Inr (ts, nxt), db')"
    and inv: "inv_db db" and c: "cursor_task_model_id cursor = Inr c" and ne: "ts \<noteq> []"
  obtains ids where "task_ids ids ts" "sorted_wrt (<) ids" "ids \<noteq> []" "\<forall>i \<in> set ids. c < i"
    "nxt = toTaskEntityId (last ids)" "\<forall>i \<in> set ids. \<exists>m \<in> set (tb_task (view db)). bm_Id m = i \<and> due now m"
proof -
  have "0 < sched_size" by (simp add: sched_size_def)
  from run inv this obtain c' ms where c': "cursor_task_model_id cursor = Inr c'"
    and page: "due_page now sched_size c' (tb_task (view db)) ms"
    and all: "list_all2 (\<lambda>m t. snapshot m t \<and> t_bizId t = tm_BizId m) (filter (served (view db)) ms) ts"
    and nxt: "nxt = next_cursor ts" by (rule timeout_tasks_ok)
  let ?ids = "map bm_Id (filter (served (view db)) ms)"
  have "map t_id ts = map toTaskEntityId ?ids"
    using all by (induction rule: list_all2_induct) (auto simp: snapshot_def)
  then have ids: "task_ids ?ids ts" by (simp add: task_ids_def)
  have srt: "sorted_wrt (<) ?ids"
    using due_page_sorted [OF page store_inv_ids [OF inv]]
    by (auto simp: sorted_wrt_map intro: sorted_wrt_filter)
  have ne': "?ids \<noteq> []" using ids ne by (auto simp: task_ids_def)
  have "t_id (last ts) = toTaskEntityId (last ?ids)"
    using ids ne ne' by (metis last_map task_ids_def)
  then have nx: "nxt = toTaskEntityId (last ?ids)" using nxt ne by (simp add: next_cursor_def)
  have mem: "m \<in> set (tb_task (view db)) \<and> c < bm_Id m \<and> due now m" if "m \<in> set ms" for m
    using due_page_set [OF page that] c c' by (simp add: word_less_def)
  show thesis by (rule that [OF ids srt ne' _ nx]) (use mem in auto)
qed

text \<open>What a round can do.\<close>

lemma round_cases:
  assumes "sched_poll (easytask_repo L S) isM now cur db = ((ts, nxt), db')"
  obtains "ts = []" "nxt = cur" "\<not> isM \<or> (\<exists>e. fst (timeout_tasks L S (mysql_srv_repo L S) now sched_size cur db) = Inl e)"
  | x where "ts = []" "isM" "timeout_tasks L S (mysql_srv_repo L S) now sched_size cur db = (Inr ([], x), db')"
  | "ts \<noteq> []" "isM" "timeout_tasks L S (mysql_srv_repo L S) now sched_size cur db = (Inr (ts, nxt), db')"
  using assms by (auto simp: sched_poll_def easytask_repo_def split: if_splits prod.splits sum.splits)

lemma scan_finds:
  assumes "sched_rounds (easytask_repo L S) cur rs" "cursor_task_model_id cur = Inr c" "c < i"
    and "\<forall>r \<in> set rs. inv_db (pr_db r)"
    and "\<forall>r \<in> set rs. \<exists>m \<in> set (tb_task (view (pr_db r))). bm_Id m = i \<and> due (pr_now r) m \<and> served (view (pr_db r)) m"
    and "\<forall>r \<in> set rs. length (filter (\<lambda>m. due (pr_now r) m \<and> \<not> served (view (pr_db r)) m)
      (tb_task (view (pr_db r)))) < nat sched_size"
    and "rs \<noteq> []" "page_was_empty (easytask_repo L S) (last rs)"
  shows "\<exists>r \<in> set rs. \<exists>t \<in> set (pr_tasks r). \<exists>m \<in> set (tb_task (view (pr_db r))). bm_Id m = i \<and> snapshot m t"
  using assms
proof (induction rs arbitrary: cur c)
  case (Cons r rs)
  note inv = Cons.prems(4) [rule_format, of r, simplified]
  obtain m where m: "m \<in> set (tb_task (view (pr_db r)))" "bm_Id m = i" "due (pr_now r) m" "served (view (pr_db r)) m"
    using Cons.prems(5) by auto
  have poll: "sched_poll (easytask_repo L S) (pr_isMaster r) (pr_now r) cur (pr_db r) = ((pr_tasks r, pr_next r), pr_after r)"
    and cur: "pr_cursor r = cur" and more: "sched_rounds (easytask_repo L S) (pr_next r) rs" using Cons.prems(1) by auto
  have later: ?case if "pr_next r = cur'" "cursor_task_model_id cur' = Inr c'" "c' < i"
    "\<not> page_was_empty (easytask_repo L S) r" for cur' c'
  proof -
    have "rs \<noteq> []" using that(4) Cons.prems(8) by auto
    with Cons.IH [OF _ that(2,3)] more that(1) Cons.prems(4-6,8) show ?thesis by auto
  qed
  have lim: "0 < sched_size" by (simp add: sched_size_def)
  show ?case
  proof (rule round_cases [OF poll])
    assume h: "pr_tasks r = []" "pr_next r = cur"
      "\<not> pr_isMaster r \<or> (\<exists>e. fst (timeout_tasks L S (mysql_srv_repo L S) (pr_now r) sched_size cur (pr_db r)) = Inl e)"
    then have "\<not> page_was_empty (easytask_repo L S) r" by (auto simp: page_was_empty_def cur easytask_repo_def)
    from later [OF h(2) Cons.prems(2,3) this] show ?thesis .
  next
    fix x assume run: "timeout_tasks L S (mysql_srv_repo L S) (pr_now r) sched_size cur (pr_db r) = (Inr ([], x), pr_after r)"
    from run inv lim obtain c' ms where p: "cursor_task_model_id cur = Inr c'"
      "due_page (pr_now r) sched_size c' (tb_task (view (pr_db r))) ms"
      "list_all2 (\<lambda>m t. snapshot m t \<and> t_bizId t = tm_BizId m) (filter (served (view (pr_db r))) ms) []"
      by (rule timeout_tasks_ok)
    from p(3) have "\<forall>m \<in> set ms. \<not> served (view (pr_db r)) m" by (auto simp: filter_empty_conv)
    from due_page_full [OF p(2) this m(1,3) _ m(4)] p(1) Cons.prems(2,3) m(2)
    have "nat sched_size \<le> length (filter (\<lambda>m. due (pr_now r) m \<and> \<not> served (view (pr_db r)) m) (tb_task (view (pr_db r))))"
      by (simp add: word_less_def)
    moreover have "length (filter (\<lambda>m. due (pr_now r) m \<and> \<not> served (view (pr_db r)) m)
      (tb_task (view (pr_db r)))) < nat sched_size" using Cons.prems(6) by simp
    ultimately show ?thesis by linarith
  next
    assume ne: "pr_tasks r \<noteq> []" and
      run: "timeout_tasks L S (mysql_srv_repo L S) (pr_now r) sched_size cur (pr_db r) = (Inr (pr_tasks r, pr_next r), pr_after r)"
    obtain ids where ids: "ids \<noteq> []" "pr_next r = toTaskEntityId (last ids)"
      by (rule sent_page [OF run inv Cons.prems(2) ne])
    show ?thesis
    proof (cases "i \<le> last ids")
      case True
      have "uint c < uint (bm_Id m)" using Cons.prems(3) m(2) by (simp add: word_less_def)
      with timeout_complete [OF inv lim run ids(2) m(1,3,4) _ Cons.prems(2)] True m(1,2) show ?thesis by auto
    next
      case False
      have "\<not> page_was_empty (easytask_repo L S) r" using ne run by (simp add: page_was_empty_def cur easytask_repo_def)
      from later [OF ids(2) cursor_text(1) _ this] False show ?thesis by simp
    qed
  qed
qed simp

lemma scan_order:
  assumes "sched_rounds (easytask_repo L S) cur rs" "cursor_task_model_id cur = Inr c"
    and "\<forall>r \<in> set rs. inv_db (pr_db r) \<and> \<not> page_was_empty (easytask_repo L S) r"
  shows "\<exists>ids. task_ids ids (concat (map pr_tasks rs)) \<and> sorted_wrt (<) ids \<and> (\<forall>i \<in> set ids. c < i) \<and>
    (\<forall>i \<in> set ids. \<exists>r \<in> set rs. \<exists>m \<in> set (tb_task (view (pr_db r))). bm_Id m = i \<and> due (pr_now r) m) \<and>
    length (filter (\<lambda>r. pr_tasks r \<noteq> []) rs) \<le> length ids"
  using assms
proof (induction rs arbitrary: cur c)
  case (Cons r rs)
  note inv = Cons.prems(3) [rule_format, of r, simplified, THEN conjunct1]
  have poll: "sched_poll (easytask_repo L S) (pr_isMaster r) (pr_now r) cur (pr_db r) = ((pr_tasks r, pr_next r), pr_after r)"
    and cur: "pr_cursor r = cur" and more: "sched_rounds (easytask_repo L S) (pr_next r) rs" using Cons.prems(1) by auto
  show ?case
  proof (rule round_cases [OF poll])
    assume h: "pr_tasks r = []" "pr_next r = cur"
    from Cons.IH [OF _ Cons.prems(2)] more h Cons.prems(3) show ?thesis by fastforce
  next
    fix x assume "pr_isMaster r" "timeout_tasks L S (mysql_srv_repo L S) (pr_now r) sched_size cur (pr_db r) = (Inr ([], x), pr_after r)"
    then have "page_was_empty (easytask_repo L S) r" by (simp add: page_was_empty_def cur easytask_repo_def)
    with Cons.prems(3) show ?thesis by simp
  next
    assume ne: "pr_tasks r \<noteq> []" and
      run: "timeout_tasks L S (mysql_srv_repo L S) (pr_now r) sched_size cur (pr_db r) = (Inr (pr_tasks r, pr_next r), pr_after r)"
    obtain ids where ids: "task_ids ids (pr_tasks r)" "sorted_wrt (<) ids" "ids \<noteq> []" "\<forall>i \<in> set ids. c < i"
      "pr_next r = toTaskEntityId (last ids)"
      "\<forall>i \<in> set ids. \<exists>m \<in> set (tb_task (view (pr_db r))). bm_Id m = i \<and> due (pr_now r) m"
      by (rule sent_page [OF run inv Cons.prems(2) ne])
    from Cons.IH [OF more [unfolded ids(5)] cursor_text(1)] Cons.prems(3) obtain js where
      js: "task_ids js (concat (map pr_tasks rs))" "sorted_wrt (<) js" "\<forall>i \<in> set js. last ids < i"
      "\<forall>i \<in> set js. \<exists>r \<in> set rs. \<exists>m \<in> set (tb_task (view (pr_db r))). bm_Id m = i \<and> due (pr_now r) m"
      "length (filter (\<lambda>r. pr_tasks r \<noteq> []) rs) \<le> length js" by auto
    have le: "i \<le> last ids" if "i \<in> set ids" for i
    proof -
      from that have "\<exists>k < length ids. ids ! k = i" by (simp add: in_set_conv_nth)
      then obtain k where k: "k < length ids" "ids ! k = i" by blast
      have "sorted ids" using ids(2) by (simp add: strict_sorted_iff)
      from sorted_nth_mono [OF this, of k "length ids - 1"] k ids(3) show ?thesis by (simp add: last_conv_nth)
    qed
    have "sorted_wrt (<) (ids @ js)" using ids(2) js(2,3) le by (fastforce simp: sorted_wrt_append)
    moreover have "c < i" if "i \<in> set js" for i
      using js(3) that ids(3,4) last_in_set [OF ids(3)] by (meson order.strict_trans)
    moreover have "1 \<le> length ids" using ids(3) by (cases ids) auto
    ultimately show ?thesis
      using ids(1,4,6) js(1,4,5) ne by (intro exI [of _ "ids @ js"]) (auto simp: task_ids_def)
  qed
qed (simp add: task_ids_def)

end

section \<open>Properties\<close>

text \<open>
  C6. No due task is forgotten. Whatever happens between and inside the rounds of a scan (errors, lost mastership, other
  nodes and requests changing the database, the clock moving on), a task that is due and whose service is registered
  in every round is sent before the scan reaches its empty page, with the values of its row in that round. This needs that
  in no round a page's worth of due tasks belongs to services that are not registered: such tasks hide the
  ones behind them.
\<close>

lemma scan_sends_every_due_task:
  assumes "easytask_store S co clk view L" "sched_rounds (easytask_repo L S) [] rs" "0 < i"
    and "\<forall>r \<in> set rs. store_inv co (view (pr_db r))"
    and "\<forall>r \<in> set rs. \<exists>m \<in> set (tb_task (view (pr_db r))). bm_Id m = i \<and> due (pr_now r) m \<and> served (view (pr_db r)) m"
    and "\<forall>r \<in> set rs. length (filter (\<lambda>m. due (pr_now r) m \<and> \<not> served (view (pr_db r)) m)
      (tb_task (view (pr_db r)))) < nat sched_size"
    and "rs \<noteq> []" "page_was_empty (easytask_repo L S) (last rs)"
  shows "\<exists>r \<in> set rs. \<exists>t \<in> set (pr_tasks r). \<exists>m \<in> set (tb_task (view (pr_db r))). bm_Id m = i \<and> snapshot m t"
  by (rule easytask_store.scan_finds [OF assms(1,2) _ assms(3-8)]) (simp add: cursor_task_model_id_def)

definition demo_two :: mem where
  "demo_two = mem_of
     \<lparr>tb_task = [demo_task_row 9 ''late'', demo_task_row 7 ''job''], tb_srv = [demo_srv_row],
      tb_route = [demo_route_row], tb_log = []\<rparr>"

text \<open>Two rounds on the same database, with a round between them that is not master.\<close>

lemma demo_rounds:
  obtains r1 r2 r3 where "sched_rounds (easytask_repo ref_libs mem_store) [] [r1, r2, r3]"
    "page_was_empty (easytask_repo ref_libs mem_store) r3" "\<not> page_was_empty (easytask_repo ref_libs mem_store) r1"
    "\<not> page_was_empty (easytask_repo ref_libs mem_store) r2"
    "map t_name (pr_tasks r1) = [''job'', ''late'']" "pr_tasks r2 = []" "pr_tasks r3 = []"
    "pr_db r1 = demo_two" "pr_db r2 = demo_two" "pr_db r3 = demo_two" "pr_now r1 = 1000" "pr_now r2 = 1000" "pr_now r3 = 1000"
proof -
  let ?TR = "easytask_repo ref_libs mem_store"
  let ?p1 = "sched_poll ?TR True 1000 [] demo_two" and ?p3 = "sched_poll ?TR True 1000 ''9'' demo_two"
  have "map t_name (fst (fst ?p1)) = [''job'', ''late'']" "snd (fst ?p1) = ''9''" "fst ?p3 = ([], [])" by code_simp+
  then obtain ts a b where p: "?p1 = ((ts, ''9''), a)" "map t_name ts = [''job'', ''late'']" "?p3 = (([], []), b)"
    by (metis prod.collapse)
  let ?r = "\<lambda>isM cur ts nxt s. \<lparr>pr_isMaster = isM, pr_now = 1000, pr_cursor = cur, pr_db = demo_two, pr_tasks = ts,
      pr_next = nxt, pr_after = s\<rparr>"
  have e: "page_was_empty ?TR (?r True ''9'' [] [] b)" "\<not> page_was_empty ?TR (?r True [] ts ''9'' a)"
    unfolding page_was_empty_def poll_round.simps by code_simp+
  show thesis
    by (rule that [of "?r True [] ts ''9'' a" "?r False ''9'' [] ''9'' demo_two" "?r True ''9'' [] [] b"])
      (use p e in \<open>simp_all add: sched_poll_def [of _ False] page_was_empty_def [of _ "?r False c t n s" for c t n s]\<close>)
qed

lemma demo_two_hyps:
  "store_inv mem_co (mm_tabs demo_two)"
  "\<exists>m \<in> set (tb_task (mm_tabs demo_two)). bm_Id m = 7 \<and> due 1000 m \<and> served (mm_tabs demo_two) m"
  "length (filter (\<lambda>m. due 1000 m \<and> \<not> served (mm_tabs demo_two) m) (tb_task (mm_tabs demo_two))) < nat sched_size"
  by code_simp+

lemma scan_sends_every_due_task_witness:
  "\<exists>rs. sched_rounds (easytask_repo ref_libs mem_store) [] rs \<and> length rs = 3 \<and>
    (\<exists>r \<in> set rs. \<exists>t \<in> set (pr_tasks r). t_id t = ''7'')"
proof -
  obtain r1 r2 r3 where r: "sched_rounds (easytask_repo ref_libs mem_store) [] [r1, r2, r3]"
    "page_was_empty (easytask_repo ref_libs mem_store) r3"
    "pr_db r1 = demo_two" "pr_db r2 = demo_two" "pr_db r3 = demo_two" "pr_now r1 = 1000" "pr_now r2 = 1000" "pr_now r3 = 1000"
    by (rule demo_rounds)
  have "\<exists>r \<in> set [r1, r2, r3]. \<exists>t \<in> set (pr_tasks r). \<exists>m \<in> set (tb_task (mm_tabs (pr_db r))). bm_Id m = 7 \<and> snapshot m t"
    by (rule scan_sends_every_due_task [OF mem_is_easytask r(1)]) (use r demo_two_hyps in simp_all)
  moreover have "toTaskEntityId 7 = ''7''" by code_simp
  ultimately have "\<exists>r \<in> set [r1, r2, r3]. \<exists>t \<in> set (pr_tasks r). t_id t = ''7''"
    unfolding snapshot_def by metis
  with r(1) show ?thesis by (intro exI [of _ "[r1, r2, r3]"]) simp
qed

text \<open>
  C7. A scan makes progress and sends no task twice: as long as no page is empty, the tasks of all its rounds have strictly
  increasing identifiers, each of a task that was due in its round, so at most as many rounds find a page
  as there are identifiers of tasks due at some time. Only rounds that fail or are not master can go on for ever.
\<close>

lemma scan_is_bounded:
  assumes "easytask_store S co clk view L" "sched_rounds (easytask_repo L S) [] rs"
    and "\<forall>r \<in> set rs. store_inv co (view (pr_db r)) \<and> \<not> page_was_empty (easytask_repo L S) r"
  shows "(\<exists>ids. task_ids ids (concat (map pr_tasks rs)) \<and> sorted_wrt (<) ids) \<and>
    length (filter (\<lambda>r. pr_tasks r \<noteq> []) rs) \<le>
      card {i. \<exists>r \<in> set rs. \<exists>m \<in> set (tb_task (view (pr_db r))). bm_Id m = i \<and> due (pr_now r) m}"
proof -
  have "cursor_task_model_id [] = Inr 0" by (simp add: cursor_task_model_id_def)
  from easytask_store.scan_order [OF assms(1,2) this assms(3)] obtain ids where
    ids: "task_ids ids (concat (map pr_tasks rs))" "sorted_wrt (<) ids"
    "\<forall>i \<in> set ids. \<exists>r \<in> set rs. \<exists>m \<in> set (tb_task (view (pr_db r))). bm_Id m = i \<and> due (pr_now r) m"
    "length (filter (\<lambda>r. pr_tasks r \<noteq> []) rs) \<le> length ids" by blast
  have "length ids = card (set ids)" using ids(2) by (simp add: strict_sorted_iff distinct_card)
  also have "\<dots> \<le> card {i. \<exists>r \<in> set rs. \<exists>m \<in> set (tb_task (view (pr_db r))). bm_Id m = i \<and> due (pr_now r) m}"
    using ids(3) by (intro card_mono) auto
  finally show ?thesis using ids(1,2,4) by fastforce
qed

lemma scan_is_bounded_witness:
  "\<exists>rs ids. sched_rounds (easytask_repo ref_libs mem_store) [] rs \<and>
    map t_name (concat (map pr_tasks rs)) = [''job'', ''late''] \<and> task_ids ids (concat (map pr_tasks rs)) \<and> sorted_wrt (<) ids"
proof -
  obtain r1 r2 r3 where r: "sched_rounds (easytask_repo ref_libs mem_store) [] [r1, r2, r3]"
    "\<not> page_was_empty (easytask_repo ref_libs mem_store) r1" "\<not> page_was_empty (easytask_repo ref_libs mem_store) r2"
    "map t_name (pr_tasks r1) = [''job'', ''late'']" "pr_tasks r2 = []" "pr_db r1 = demo_two" "pr_db r2 = demo_two"
    by (rule demo_rounds)
  then have two: "sched_rounds (easytask_repo ref_libs mem_store) [] [r1, r2]" by simp
  have "\<exists>ids. task_ids ids (concat (map pr_tasks [r1, r2])) \<and> sorted_wrt (<) ids"
    using scan_is_bounded [OF mem_is_easytask two] r demo_two_hyps(1) by simp
  then obtain ids where "task_ids ids (concat (map pr_tasks [r1, r2]))" "sorted_wrt (<) ids" by blast
  with two r(4,5) show ?thesis by (intro exI [of _ "[r1, r2]"] exI [of _ ids]) simp
qed

end
