(* ===== verification/Boot.thy ===== *)
theory Boot
  imports Logging Repo_Conn Node Sched_Scan
begin

text \<open>
  Starting a process: \<open>src/main.go\<close> with the configuration of \<open>internal/util/conf/app.go\<close>, the constructors of the
  three repositories in \<open>internal/task/impl/repo/mysql\<close>, and the clean-up commands of \<open>src/tool/main.go\<close>.

  A pointer of the configuration that may be nil is an \<open>option\<close>. Third-party code is a parameter (\<open>boot_lib\<close>): the
  loader of the configuration file, the etcd client, the constructors of the elections, \<open>gorm.Open\<close>
  and \<open>AutoMigrate\<close>. A panic before \<open>main\<close> has deferred \<open>RecoverToTraceAndExit\<close> crashes the process; a later one in
  \<open>main\<close> itself ends it with status 0. A started process is a node of \<open>Node\<close> with its router.
\<close>

section \<open>Configuration\<close>

record redis_node_conf =
  rn_Host :: string
  rn_Port :: int
  rn_Password :: string

record http_api_srv_conf =
  hc_Host :: string
  hc_Port :: int
  hc_PprofPort :: int

record app_conf =
  ac_ClusterName :: string
  ac_TaskWorkerPoolSize :: nat
  ac_ElectDriver :: string
  ac_MysqlConf :: "string option"
  ac_EtcdConf :: "string list option"
  ac_RedisConf :: "redis_node_conf option list option"
  ac_HealthCheckWorkerPoolSize :: nat
  ac_LoggerConf :: "logger_conf option"
  ac_ApiSrvConf :: "http_api_srv_conf option option"

datatype model_table = TaskTable | SrvTable | RouteTable | LogTable

text \<open>
  \<open>'e\<close> is an election, \<open>'k\<close> an etcd client, \<open>'c\<close> a database handle. The number before the attempts of
  \<open>bl_open\<close> is the repository that opens.
\<close>

record ('s, 'e, 'k, 'c) boot_lib =
  bl_load :: "string \<Rightarrow> go_err + app_conf"
  bl_etcd_client :: "string list \<Rightarrow> go_err + 'k"
  bl_etcd_election :: "string \<Rightarrow> int \<Rightarrow> 'k \<Rightarrow> go_err + 'e"
  bl_redis_election :: "string \<Rightarrow> int \<Rightarrow> redis_node_conf list \<Rightarrow> int \<Rightarrow> go_err + 'e"
  bl_open :: "string \<Rightarrow> nat \<Rightarrow> 'c gorm_open"
  bl_migrate :: "'c \<Rightarrow> model_table list \<Rightarrow> ('s, unit) io"

section \<open>The election\<close>

definition nil_deref :: go_err where
  "nil_deref = Panic ''nil pointer dereference''"

text \<open>
  Another driver than the two leaves the election nil; the goroutine that is started next calls
  \<open>LoopInElect\<close> on it.
\<close>

definition start_elect :: "('s, 'e, 'k, 'c) boot_lib \<Rightarrow> app_conf \<Rightarrow> go_err + 'e option" where
  "start_elect B cfg =
     (if ac_ElectDriver cfg = ''etcd'' then
        (case ac_EtcdConf cfg of
           None \<Rightarrow> Inl nil_deref
         | Some endpoints \<Rightarrow>
             (case bl_etcd_client B endpoints of
                Inl e \<Rightarrow> Inl e
              | Inr etcdCli \<Rightarrow>
                  (case bl_etcd_election B (ac_ClusterName cfg) 5 etcdCli of
                     Inl e \<Rightarrow> Inl e
                   | Inr elect \<Rightarrow> Inr (Some elect))))
      else if ac_ElectDriver cfg = ''redis'' then
        (case ac_RedisConf cfg of
           None \<Rightarrow> Inl nil_deref
         | Some nodes \<Rightarrow>
             if None \<in> set nodes then Inl nil_deref
             else
               (case bl_redis_election B (ac_ClusterName cfg) 5 (map the nodes) 1000 of
                  Inl e \<Rightarrow> Inl e
                | Inr elect \<Rightarrow> Inr (Some elect)))
      else Inr None)"

section \<open>The repositories\<close>

text \<open>
  The flags \<open>migrated...DB\<close> are loaded by the constructors and stored by nothing. Each repository has its own
  connection.
\<close>

record migrated_flags =
  mf_TaskLogRepoDB :: bool
  mf_TaskSrvRepoDB :: bool
  mf_TaskRepoDB :: bool

definition flags_start :: migrated_flags where
  "flags_start = \<lparr>mf_TaskLogRepoDB = False, mf_TaskSrvRepoDB = False, mf_TaskRepoDB = False\<rparr>"

definition new_repo ::
    "('s, 'e, 'k, 'c) boot_lib \<Rightarrow> nat \<Rightarrow> bool \<Rightarrow> string \<Rightarrow> model_table list \<Rightarrow> ('s, 'c connector) io" where
  "new_repo B i migrated connDsn tabs s =
     (if migrated then (Inr connector_start, s)
      else
        (case must_get_conn (bl_open B connDsn i) connector_start of
           (Inl e, c) \<Rightarrow> (Inl e, s)
         | (Inr conn, c) \<Rightarrow>
             (case bl_migrate B conn tabs s of
                (Inl e, s1) \<Rightarrow> (Inl e, s1)
              | (Inr _, s1) \<Rightarrow> (Inr c, s1))))"

definition new_task_log_repo :: "('s, 'e, 'k, 'c) boot_lib \<Rightarrow> migrated_flags \<Rightarrow> string \<Rightarrow> ('s, 'c connector) io" where
  "new_task_log_repo B F connDsn = new_repo B 0 (mf_TaskLogRepoDB F) connDsn [LogTable]"

definition new_task_srv_repo :: "('s, 'e, 'k, 'c) boot_lib \<Rightarrow> migrated_flags \<Rightarrow> string \<Rightarrow> ('s, 'c connector) io" where
  "new_task_srv_repo B F connDsn = new_repo B 1 (mf_TaskSrvRepoDB F) connDsn [SrvTable, RouteTable]"

definition new_task_repo :: "('s, 'e, 'k, 'c) boot_lib \<Rightarrow> migrated_flags \<Rightarrow> string \<Rightarrow> ('s, 'c connector) io" where
  "new_task_repo B F connDsn = new_repo B 2 (mf_TaskRepoDB F) connDsn [TaskTable, LogTable]"

text \<open>\<open>NewRepos\<close> of \<open>main.go\<close>; the one of \<open>tool/main.go\<close> is the same.\<close>

definition new_repos ::
    "('s, 'e, 'k, 'c) boot_lib \<Rightarrow> migrated_flags \<Rightarrow> app_conf \<Rightarrow> ('s, 'c connector \<times> 'c connector \<times> 'c connector) io" where
  "new_repos B F cfg =
     (case ac_MysqlConf cfg of
        None \<Rightarrow> throw_io nil_deref
      | Some connDsn \<Rightarrow>
          bind_io (new_task_log_repo B F connDsn) (\<lambda>taskLogRepo.
          bind_io (new_task_srv_repo B F connDsn) (\<lambda>taskCallbackSrvRepo.
          bind_io (new_task_repo B F connDsn) (\<lambda>taskRepo.
            ret_io (taskRepo, taskCallbackSrvRepo, taskLogRepo)))))"

section \<open>main\<close>

text \<open>
  How \<open>main\<close> ends up: \<open>Crashed\<close> by a panic nobody recovers (exit status 2), \<open>Recovered\<close> by \<open>RecoverToTraceAndExit\<close>
  (status 0), or \<open>Serving\<close> with the election (nil for an unknown driver), the node and the router.
\<close>

datatype ('e, 'n, 'r) boot_end = Crashed go_err | Recovered go_err | Serving "'e option" 'n 'r

definition run_http_api_server ::
    "app_conf \<Rightarrow> 's api \<Rightarrow> int \<Rightarrow> int \<Rightarrow> go_err + ('s, api_msg, api_data) router" where
  "run_http_api_server cfg A now nowLog =
     (case ac_ApiSrvConf cfg of
        Some (Some conf) \<Rightarrow>
          (case register_batch (ap_vld A) (api_routes A now nowLog) new_router of
             (Some e, r) \<Rightarrow> Inl e
           | (None, r) \<Rightarrow> Inr r)
      | _ \<Rightarrow> Inl nil_deref)"

definition main ::
    "('s, 'e, 'k, 'c) boot_lib \<Rightarrow> 's api \<Rightarrow> string \<Rightarrow> int \<Rightarrow> int \<Rightarrow> 's \<Rightarrow>
       ('e, 's node, ('s, api_msg, api_data) router) boot_end \<times> 's" where
  "main B A confFile now nowLog s =
     (case bl_load B confFile of
        Inl e \<Rightarrow> (Crashed e, s)
      | Inr cfg \<Rightarrow>
          (case ac_LoggerConf cfg of
             None \<Rightarrow> (Crashed nil_deref, s)
           | Some conf \<Rightarrow>
               (case start_elect B cfg of
                  Inl e \<Rightarrow> (Recovered e, s)
                | Inr elect \<Rightarrow>
                    (case new_repos B flags_start cfg s of
                       (Inl e, s1) \<Rightarrow> (Recovered e, s1)
                     | (Inr repos, s1) \<Rightarrow>
                         (case run_http_api_server cfg A now nowLog of
                            Inl e \<Rightarrow> (Recovered e, s1)
                          | Inr r \<Rightarrow>
                              (Serving elect
                                 (node_init (ac_HealthCheckWorkerPoolSize cfg) (ac_TaskWorkerPoolSize cfg) s1) r, s1))))))"

section \<open>The clean-up commands\<close>

text \<open>\<open>init\<close> of the tool loads the configuration and the loggers; errors of a command are only logged.\<close>

definition tool_init :: "('s, 'e, 'k, 'c) boot_lib \<Rightarrow> string \<Rightarrow> go_err + app_conf" where
  "tool_init B confFile =
     (case bl_load B confFile of
        Inl e \<Rightarrow> Inl e
      | Inr cfg \<Rightarrow> (case ac_LoggerConf cfg of None \<Rightarrow> Inl nil_deref | Some conf \<Rightarrow> Inr cfg))"

definition clear_expired_tasks ::
    "('s, 'e, 'k, 'c) boot_lib \<Rightarrow> 's task_repo \<Rightarrow> app_conf \<Rightarrow> int \<Rightarrow> ('s, unit) io" where
  "clear_expired_tasks B TR cfg expiredAt =
     bind_io (new_repos B flags_start cfg) (\<lambda>_.
       ir_DelTasks TR [QueryOptKeyCreatedExceed expiredAt, QueryOptKeyTaskFinished])"

definition clear_expired_task_logs ::
    "('s, 'e, 'k, 'c) boot_lib \<Rightarrow> 's log_repo \<Rightarrow> app_conf \<Rightarrow> int \<Rightarrow> ('s, unit) io" where
  "clear_expired_task_logs B LR cfg expiredAt =
     bind_io (new_repos B flags_start cfg) (\<lambda>_. il_DelLogs LR [QueryOptKeyCreatedExceed expiredAt])"

section \<open>Lemmas\<close>

lemma start_elect_none: "start_elect B cfg = Inr None \<longleftrightarrow> ac_ElectDriver cfg \<notin> {''etcd'', ''redis''}"
  by (auto simp: start_elect_def nil_deref_def split: option.splits sum.splits)

lemma main_serving:
  assumes "main B A confFile now nowLog s = (Serving elect n r, s')"
  obtains cfg conf repos where "bl_load B confFile = Inr cfg" "ac_LoggerConf cfg = Some conf"
    "start_elect B cfg = Inr elect" "new_repos B flags_start cfg s = (Inr repos, s')"
    "run_http_api_server cfg A now nowLog = Inr r"
    "n = node_init (ac_HealthCheckWorkerPoolSize cfg) (ac_TaskWorkerPoolSize cfg) s'"
  using assms by (auto simp: main_def split: sum.splits option.splits prod.splits)

text \<open>The migrations of a start: the tables of each repository, in the order of the constructors.\<close>

fun migrate_all :: "('s, 'e, 'k, 'c) boot_lib \<Rightarrow> ('c \<times> model_table list) list \<Rightarrow> ('s, unit) io" where
  "migrate_all B [] = ret_io ()"
| "migrate_all B ((conn, tabs) # xs) = bind_io (bl_migrate B conn tabs) (\<lambda>_. migrate_all B xs)"

lemma must_get_conn_start:
  "must_get_conn opn connector_start = (Inr conn, c) \<Longrightarrow> opn 0 = (Some conn, None) \<and> cn_conn c = Some conn"
  by (cases "opn 0")
    (auto simp: must_get_conn_def get_conn_def connector_start_def opened_def split: sum.splits option.splits)

lemma new_repo_ok:
  assumes "new_repo B i False dsn tabs s = (Inr c, s')"
  obtains conn where "bl_open B dsn i 0 = (Some conn, None)" "bl_migrate B conn tabs s = (Inr (), s')" "cn_conn c = Some conn"
  using assms must_get_conn_start
  by (fastforce simp: new_repo_def split: sum.splits prod.splits)

lemma new_repos_ok:
  assumes "new_repos B flags_start cfg s = (Inr (tr, sr, lr), s')"
  obtains dsn c0 c1 c2 where "ac_MysqlConf cfg = Some dsn"
    "bl_open B dsn 0 0 = (Some c0, None)" "bl_open B dsn 1 0 = (Some c1, None)" "bl_open B dsn 2 0 = (Some c2, None)"
    "cn_conn lr = Some c0" "cn_conn sr = Some c1" "cn_conn tr = Some c2"
    "migrate_all B [(c0, [LogTable]), (c1, [SrvTable, RouteTable]), (c2, [TaskTable, LogTable])] s = (Inr (), s')"
proof -
  obtain dsn where dsn: "ac_MysqlConf cfg = Some dsn" using assms by (auto simp: new_repos_def split: option.splits)
  then obtain s1 s2 where
    l: "new_repo B 0 False dsn [LogTable] s = (Inr lr, s1)" and
    r: "new_repo B 1 False dsn [SrvTable, RouteTable] s1 = (Inr sr, s2)" and
    t: "new_repo B 2 False dsn [TaskTable, LogTable] s2 = (Inr tr, s')"
    using assms
    by (auto simp: new_repos_def bind_io_ok flags_start_def new_task_log_repo_def new_task_srv_repo_def new_task_repo_def)
  from new_repo_ok [OF l] obtain c0 where
    0: "bl_migrate B c0 [LogTable] s = (Inr (), s1)" "cn_conn lr = Some c0" "bl_open B dsn 0 0 = (Some c0, None)" by blast
  from new_repo_ok [OF r] obtain c1 where
    1: "bl_migrate B c1 [SrvTable, RouteTable] s1 = (Inr (), s2)" "cn_conn sr = Some c1" "bl_open B dsn 1 0 = (Some c1, None)" by blast
  from new_repo_ok [OF t] obtain c2 where
    2: "bl_migrate B c2 [TaskTable, LogTable] s2 = (Inr (), s')" "cn_conn tr = Some c2" "bl_open B dsn 2 0 = (Some c2, None)" by blast
  have "migrate_all B [(c0, [LogTable]), (c1, [SrvTable, RouteTable]), (c2, [TaskTable, LogTable])] s = (Inr (), s')"
    by (simp add: bind_io_def 0 1 2)
  from that [OF dsn 0(3) 1(3) 2(3) 0(2) 1(2) 2(2) this] show thesis .
qed

section \<open>Properties\<close>

text \<open>
  C21. A process that serves was put together from its configuration file. The file has the sections of MySQL, of the
  loggers and of the API; the election is nil exactly when the driver is unknown. Each of the three repositories opened its
  own connection with the configured data source, at the first attempt and without error, and the tables were migrated
  over these connections in the order of the constructors (that of the logs twice, as nothing stores
  the flags). The pools have the configured sizes, and the routes of the API are registered.
\<close>

lemma main_starts_node:
  assumes "main B A confFile now nowLog s = (Serving elect n r, s')" "validator_law (ap_vld A)"
  shows "\<exists>cfg dsn c0 c1 c2. bl_load B confFile = Inr cfg \<and> ac_LoggerConf cfg \<noteq> None \<and>
    (\<exists>conf. ac_ApiSrvConf cfg = Some (Some conf)) \<and> (elect = None \<longleftrightarrow> ac_ElectDriver cfg \<notin> {''etcd'', ''redis''}) \<and>
    ac_MysqlConf cfg = Some dsn \<and> bl_open B dsn 0 0 = (Some c0, None) \<and> bl_open B dsn 1 0 = (Some c1, None) \<and>
    bl_open B dsn 2 0 = (Some c2, None) \<and>
    migrate_all B [(c0, [LogTable]), (c1, [SrvTable, RouteTable]), (c2, [TaskTable, LogTable])] s = (Inr (), s') \<and>
    n = node_init (ac_HealthCheckWorkerPoolSize cfg) (ac_TaskWorkerPoolSize cfg) s' \<and>
    (\<forall>q. find_route (ro_routeMap r) (msg_path q) ''POST'' =
       Some \<lparr>hf_handler = api_handler A now nowLog (msg_struct q) (resp_struct q), hf_req = msg_type q\<rparr>)"
proof -
  obtain cfg conf repos where cfg: "bl_load B confFile = Inr cfg" "new_repos B flags_start cfg s = (Inr repos, s')"
    "run_http_api_server cfg A now nowLog = Inr r"
    "n = node_init (ac_HealthCheckWorkerPoolSize cfg) (ac_TaskWorkerPoolSize cfg) s'"
    "ac_LoggerConf cfg = Some conf" "start_elect B cfg = Inr elect"
    by (rule main_serving [OF assms(1)])
  obtain tr sr lr where repos: "repos = (tr, sr, lr)" by (rule prod_cases3)
  obtain dsn c0 c1 c2 where conns: "ac_MysqlConf cfg = Some dsn" "bl_open B dsn 0 0 = (Some c0, None)"
    "bl_open B dsn 1 0 = (Some c1, None)" "bl_open B dsn 2 0 = (Some c2, None)" and
    mig: "migrate_all B [(c0, [LogTable]), (c1, [SrvTable, RouteTable]), (c2, [TaskTable, LogTable])] s = (Inr (), s')"
    by (rule new_repos_ok [OF cfg(2) [unfolded repos]])
  have srv: "\<exists>conf. ac_ApiSrvConf cfg = Some (Some conf)"
    using cfg(3) by (auto simp: run_http_api_server_def split: option.splits)
  have elect: "elect = None \<longleftrightarrow> ac_ElectDriver cfg \<notin> {''etcd'', ''redis''}"
    using cfg(6) start_elect_none [of B cfg] by auto
  have "r = snd (api_router A now nowLog)"
    using cfg(3) by (auto simp: run_http_api_server_def api_router_def split: option.splits prod.splits)
  then have "ro_routeMap r = api_map A (now, nowLog)" by (simp add: api_map_def)
  then have "find_route (ro_routeMap r) (msg_path q) ''POST'' =
      Some \<lparr>hf_handler = api_handler A now nowLog (msg_struct q) (resp_struct q), hf_req = msg_type q\<rparr>" for q
    by (simp add: find_route_def api_map_path [OF assms(2)])
  with cfg(1,4,5) conns mig srv elect show ?thesis by blast
qed

text \<open>
  A misspelt election driver is not refused: \<open>main\<close> goes on to serve with a nil election exactly when the
  configured driver is neither \<open>etcd\<close> nor \<open>redis\<close>.
\<close>

lemma unknown_driver_serves:
  assumes "main B A confFile now nowLog s = (Serving elect n r, s')" "bl_load B confFile = Inr cfg"
  shows "elect = None \<longleftrightarrow> ac_ElectDriver cfg \<notin> {''etcd'', ''redis''}"
proof -
  have "start_elect B cfg = Inr elect" by (rule main_serving [OF assms(1)]) (use assms(2) in simp)
  then show ?thesis using start_elect_none [of B cfg] by auto
qed

definition demo_app_conf :: app_conf where
  "demo_app_conf =
     \<lparr>ac_ClusterName = ''c'', ac_TaskWorkerPoolSize = 2, ac_ElectDriver = ''etdc'', ac_MysqlConf = Some ''dsn'',
      ac_EtcdConf = None, ac_RedisConf = None, ac_HealthCheckWorkerPoolSize = 0,
      ac_LoggerConf = Some demo_conf,
      ac_ApiSrvConf = Some (Some \<lparr>hc_Host = ''h'', hc_Port = 80, hc_PprofPort = 81\<rparr>)\<rparr>"

definition demo_boot :: "(mem, unit, unit, string) boot_lib" where
  "demo_boot =
     \<lparr>bl_load = (\<lambda>f. Inr demo_app_conf), bl_etcd_client = (\<lambda>_. Inr ()), bl_etcd_election = (\<lambda>_ _ _. Inr ()),
      bl_redis_election = (\<lambda>_ _ _ _. Inr ()), bl_open = (\<lambda>dsn i n. (Some dsn, None)),
      bl_migrate = (\<lambda>c tabs. ret_io ())\<rparr>"

lemma demo_main:
  obtains r where "main demo_boot demo_api ''f'' 1000 1000 demo_mem = (Serving None (node_init 0 2 demo_mem) r, demo_mem)"
proof -
  obtain r where r: "register_batch (ap_vld demo_api) (api_routes demo_api 1000 1000) new_router = (None, r)"
    using api_router_ok(1) [OF demo_api_vld, of 1000 1000] unfolding api_router_def by (rule fst_eqE)
  have elect: "start_elect demo_boot demo_app_conf = Inr None"
    by (simp add: start_elect_none) (simp add: demo_app_conf_def)
  have "new_repo demo_boot i False dsn tabs = ret_io \<lparr>cn_conn = Some dsn, cn_locked = False, cn_opened = 1\<rparr>" for i dsn tabs
    by (rule ext)
      (simp add: new_repo_def must_get_conn_def get_conn_def connector_start_def opened_def demo_boot_def)
  moreover have "ac_MysqlConf demo_app_conf = Some ''dsn''" by (simp add: demo_app_conf_def)
  ultimately have repos: "\<exists>repos. new_repos demo_boot flags_start demo_app_conf demo_mem = (Inr repos, demo_mem)"
    by (simp add: new_repos_def new_task_log_repo_def new_task_srv_repo_def new_task_repo_def flags_start_def)
  have srv: "run_http_api_server demo_app_conf demo_api 1000 1000 = Inr r"
    by (simp add: run_http_api_server_def demo_app_conf_def r)
  have cfg: "bl_load demo_boot ''f'' = Inr demo_app_conf" "ac_LoggerConf demo_app_conf = Some demo_conf"
    "ac_HealthCheckWorkerPoolSize demo_app_conf = 0" "ac_TaskWorkerPoolSize demo_app_conf = 2"
    by (simp_all add: demo_boot_def demo_app_conf_def)
  from repos show thesis
    by (auto simp: main_def cfg elect srv intro: that)
qed

lemma main_starts_node_witness:
  "\<exists>r. main demo_boot demo_api ''f'' 1000 1000 demo_mem = (Serving None (node_init 0 2 demo_mem) r, demo_mem) \<and>
     find_route (ro_routeMap r) ''/stop_task'' ''POST'' \<noteq> None \<and> ac_ElectDriver demo_app_conf \<notin> {''etcd'', ''redis''}"
proof -
  obtain r where r: "main demo_boot demo_api ''f'' 1000 1000 demo_mem = (Serving None (node_init 0 2 demo_mem) r, demo_mem)"
    by (rule demo_main)
  from main_starts_node [OF r demo_api_vld] have
    found: "\<forall>q. find_route (ro_routeMap r) (msg_path q) ''POST'' =
      Some \<lparr>hf_handler = api_handler demo_api 1000 1000 (msg_struct q) (resp_struct q), hf_req = msg_type q\<rparr>"
    and "\<exists>cfg. bl_load demo_boot ''f'' = Inr cfg \<and> ac_ElectDriver cfg \<notin> {''etcd'', ''redis''}" by blast+
  then have driver: "ac_ElectDriver demo_app_conf \<notin> {''etcd'', ''redis''}" by (auto simp: demo_boot_def)
  from found [rule_format, of "MStopTask \<lparr>hst_TaskId = ''7''\<rparr>"] r driver show ?thesis
    by (simp add: cmd_path_defs)
qed

lemma unknown_driver_serves_witness:
  "\<exists>n r s'. main demo_boot demo_api ''f'' 1000 1000 demo_mem = (Serving None n r, s') \<and>
     ac_ElectDriver demo_app_conf \<notin> {''etcd'', ''redis''}"
proof -
  obtain r where r: "main demo_boot demo_api ''f'' 1000 1000 demo_mem = (Serving None (node_init 0 2 demo_mem) r, demo_mem)"
    by (rule demo_main)
  have "bl_load demo_boot ''f'' = Inr demo_app_conf" by (simp add: demo_boot_def)
  from unknown_driver_serves [OF r this] r show ?thesis by blast
qed

text \<open>What the tool relies on: migrating keeps the rows.\<close>

definition migrate_law :: "('s, 'e, 'k, 'c) boot_lib \<Rightarrow> ('s \<Rightarrow> tables) \<Rightarrow> bool" where
  "migrate_law B view \<longleftrightarrow> (\<forall>conn tabs s r s'. bl_migrate B conn tabs s = (r, s') \<longrightarrow> view s' = view s)"

lemma new_repos_view:
  assumes "migrate_law B view" "new_repos B F cfg s = (r, s')"
  shows "view s' = view s"
proof -
  have one: "pres_io (\<lambda>t. view t = view s) (new_repo B i b dsn tabs)" for i b dsn tabs
    by (rule pres_ioI)
      (use assms(1) in \<open>auto simp: new_repo_def migrate_law_def split: if_splits sum.splits prod.splits\<close>)
  have "pres_io (\<lambda>t. view t = view s) (new_repos B F cfg)"
    unfolding new_repos_def new_task_log_repo_def new_task_srv_repo_def new_task_repo_def by (intro pres one)
  from pres_ioD [OF this assms(2)] show ?thesis by simp
qed

text \<open>
  C22. The command that clears expired logs deletes tasks: \<open>ClearExpiredTaskLogs\<close> removes for good every task row
  created after the given time, live or not, and keeps every log; \<open>ClearExpiredTasks\<close> removes no row of the program.
\<close>

lemma tool_clears_tasks_not_logs:
  assumes "easytask_store S co clk view L" "migrate_law B view"
    and "clear_expired_task_logs B (mysql_log_repo S) cfg expiredAt s = (Inr u, s')"
  shows "tb_log (view s') = tb_log (view s) \<and>
    tb_task (view s') = filter (\<lambda>r. bm_CreatedAt r \<le> expiredAt) (tb_task (view s)) \<and>
    view (snd (clear_expired_tasks B (easytask_repo L S) cfg expiredAt s)) = view s"
proof (intro conjI)
  obtain repos s1 where s1: "new_repos B flags_start cfg s = (Inr repos, s1)"
    "del_logs S [QueryOptKeyCreatedExceed expiredAt] s1 = (Inr u, s')"
    using assms(3) by (auto simp: clear_expired_task_logs_def bind_io_ok)
  have v: "view s1 = view s" by (rule new_repos_view [OF assms(2) s1(1)])
  show "tb_log (view s') = tb_log (view s)"
    "tb_task (view s') = filter (\<lambda>r. bm_CreatedAt r \<le> expiredAt) (tb_task (view s))"
    using del_logs_removes_tasks [OF assms(1) s1(2)] v by simp_all
  show "view (snd (clear_expired_tasks B (easytask_repo L S) cfg expiredAt s)) = view s"
    using s1(1) v del_tasks_frame [OF assms(1)]
    by (simp add: clear_expired_tasks_def bind_io_def easytask_repo_def)
qed

lemma tool_clears_tasks_not_logs_witness:
  "\<exists>s'. clear_expired_task_logs demo_boot (mysql_log_repo mem_store) demo_app_conf 10 demo_old = (Inr (), s') \<and>
     tb_task (mm_tabs s') = [] \<and> tb_log (mm_tabs s') = tb_log (mm_tabs demo_old)"
proof -
  have law: "migrate_law demo_boot mm_tabs" by (simp add: migrate_law_def demo_boot_def)
  have "fst (clear_expired_task_logs demo_boot (mysql_log_repo mem_store) demo_app_conf 10 demo_old) = Inr ()"
    by code_simp
  then obtain s' where
    run: "clear_expired_task_logs demo_boot (mysql_log_repo mem_store) demo_app_conf 10 demo_old = (Inr (), s')"
    by (rule fst_eqE)
  have "filter (\<lambda>r. bm_CreatedAt r \<le> 10) (tb_task (mm_tabs demo_old)) = []" by code_simp
  with tool_clears_tasks_not_logs [OF mem_is_easytask law run] run show ?thesis by auto
qed

end
