(* ===== verification/Trace.thy ===== *)
theory Trace
  imports Prelude
begin

text \<open>
  Trace identifiers: \<open>pkg/contxt/ctx.go\<close>, the headers of \<open>pkg/rpc/proto/httpproto/header.go\<close>, and the code that puts
  a context into the headers of a request and reads it back: \<open>post\<close> of \<open>pkg/rpc/http_cli.go\<close>, \<open>doReq\<close> of
  \<open>internal/task/impl/callback/http.go\<close>, the request handler of \<open>internal/apiserver/http_router.go\<close>, and the
  loops of \<open>sched.go\<close>, \<open>worker.go\<close> and \<open>registry.go\<close>.

  The contexts of \<open>simpletrace\<close> are third-party (\<open>trace_lib\<close>); the argument of type \<open>nat\<close> stands for what the
  library draws at random. \<open>trace_law\<close> is what the code relies on: a context made with a trace identifier has it,
  and a child has its parent's.
\<close>

section \<open>Contexts\<close>

record 'x trace_lib =
  tl_new :: "nat \<Rightarrow> string \<Rightarrow> 'x \<Rightarrow> string \<Rightarrow> string \<Rightarrow> 'x"
  tl_child :: "nat \<Rightarrow> 'x \<Rightarrow> 'x"
  tl_is :: "'x \<Rightarrow> bool"
  tl_trace :: "'x \<Rightarrow> string"
  tl_span :: "'x \<Rightarrow> string"
  tl_parent :: "'x \<Rightarrow> string"
  tl_new_id :: "nat \<Rightarrow> string"

definition trace_law :: "'x trace_lib \<Rightarrow> bool" where
  "trace_law T \<longleftrightarrow>
     (\<forall>d m x tid sid. tl_is T (tl_new T d m x tid sid)) \<and>
     (\<forall>d m x tid sid. tid \<noteq> [] \<longrightarrow> tl_trace T (tl_new T d m x tid sid) = tid) \<and>
     (\<forall>d x. tl_is T x \<longrightarrow> tl_is T (tl_child T d x) \<and> tl_trace T (tl_child T d x) = tl_trace T x)"

definition contxt_new :: "'x trace_lib \<Rightarrow> nat \<Rightarrow> string \<Rightarrow> 'x \<Rightarrow> 'x" where
  "contxt_new T d moduleName ctx = tl_new T d moduleName ctx [] []"

definition contxt_new_with_trace :: "'x trace_lib \<Rightarrow> nat \<Rightarrow> string \<Rightarrow> 'x \<Rightarrow> string \<Rightarrow> string \<Rightarrow> 'x" where
  "contxt_new_with_trace T d moduleName ctx traceId spanId = tl_new T d moduleName ctx traceId spanId"

text \<open>The type assertion of \<open>ChildOf\<close> panics on any other context.\<close>

definition contxt_child_of :: "'x trace_lib \<Rightarrow> nat \<Rightarrow> 'x \<Rightarrow> go_err + 'x" where
  "contxt_child_of T d ctx =
     (if tl_is T ctx then Inr (tl_child T d ctx) else Inl (Panic ''interface conversion''))"

section \<open>Headers\<close>

definition HeaderSimpleTraceId :: string where "HeaderSimpleTraceId = ''x-easy-task-trace-id''"
definition HeaderSimpleTraceSpanId :: string where "HeaderSimpleTraceSpanId = ''x-easy-task-trace-span-id''"
definition HeaderSimpleTraceParentSpanId :: string where
  "HeaderSimpleTraceParentSpanId = ''x-easy-task-trace-parent-span-id''"

lemmas header_defs = HeaderSimpleTraceId_def HeaderSimpleTraceSpanId_def HeaderSimpleTraceParentSpanId_def

text \<open>
  \<open>http.Header\<close>: every header has a list of values. \<open>Add\<close> appends a value, \<open>Set\<close> replaces them all, \<open>Get\<close>
  reads the first, and the empty string when there is none. Both sides canonicalise the names alike, and the
  names of the program stay distinct.
\<close>

type_synonym headers = "string \<Rightarrow> string list"

definition no_headers :: headers where "no_headers = (\<lambda>k. [])"

definition header_add :: "string \<Rightarrow> string \<Rightarrow> headers \<Rightarrow> headers" where
  "header_add k v h = h(k := h k @ [v])"

definition header_set :: "string \<Rightarrow> string \<Rightarrow> headers \<Rightarrow> headers" where
  "header_set k v h = h(k := [v])"

definition header_get :: "headers \<Rightarrow> string \<Rightarrow> string" where
  "header_get h k = (case h k of [] \<Rightarrow> [] | v # vs \<Rightarrow> v)"

lemmas header_op_defs = no_headers_def header_add_def header_set_def header_get_def

text \<open>
  What the client and the executor add to their requests; \<open>http.NewRequest\<close> makes those with \<open>no_headers\<close>.
\<close>

definition send_trace :: "'x trace_lib \<Rightarrow> 'x \<Rightarrow> headers \<Rightarrow> headers" where
  "send_trace T ctx h =
     (if tl_is T ctx then
        header_add HeaderSimpleTraceParentSpanId (tl_parent T ctx)
          (header_add HeaderSimpleTraceSpanId (tl_span T ctx)
            (header_add HeaderSimpleTraceId (tl_trace T ctx) h))
      else h)"

text \<open>The context of a request on the server; two contexts are made when the client sent a trace.\<close>

definition request_ctx :: "'x trace_lib \<Rightarrow> nat \<Rightarrow> nat \<Rightarrow> 'x \<Rightarrow> headers \<Rightarrow> 'x" where
  "request_ctx T d1 d2 reqCtx h =
     (let origTraceId = header_get h HeaderSimpleTraceId; traceModule = ''api''
      in if origTraceId \<noteq> [] then
           contxt_new_with_trace T d2 traceModule
             (contxt_new_with_trace T d1 traceModule reqCtx origTraceId (header_get h HeaderSimpleTraceParentSpanId))
             origTraceId (header_get h HeaderSimpleTraceSpanId)
         else contxt_new T d1 traceModule reqCtx)"

text \<open>
  The trace identifier that goes into the hint of the response, and the headers of the response: the code collects
  them in a map with one value per name, and \<open>writeResp\<close> calls \<open>Set\<close> for each.
\<close>

definition response_trace :: "'x trace_lib \<Rightarrow> 'x \<Rightarrow> string \<times> headers" where
  "response_trace T ctx =
     (let respHeader = header_set ''Content-Type'' ''application/json'' no_headers
      in if tl_is T ctx then
           (tl_trace T ctx,
            header_set HeaderSimpleTraceParentSpanId (tl_parent T ctx)
              (header_set HeaderSimpleTraceSpanId (tl_span T ctx)
                (header_set HeaderSimpleTraceId (tl_trace T ctx) respHeader)))
         else ([], respHeader))"

text \<open>
  The context of one round of a loop: its identifier is the loop's name, the identifier of the context the
  goroutine was started with (empty when that is no trace context), and a new one.
\<close>

definition orig_trace_id :: "'x trace_lib \<Rightarrow> 'x \<Rightarrow> string" where
  "orig_trace_id T ctx = (if tl_is T ctx then tl_trace T ctx else [])"

definition round_ctx :: "'x trace_lib \<Rightarrow> nat \<Rightarrow> nat \<Rightarrow> string \<Rightarrow> 'x \<Rightarrow> string \<Rightarrow> 'x" where
  "round_ctx T d1 d2 traceModule todo origCtxTraceId =
     contxt_new_with_trace T d2 traceModule todo
       (traceModule @ ''_'' @ origCtxTraceId @ ''.'' @ tl_new_id T d1) []"

section \<open>Properties\<close>

lemma trace_lawD:
  assumes "trace_law T"
  shows "tl_is T (tl_new T d m x tid sid)" "tid \<noteq> [] \<Longrightarrow> tl_trace T (tl_new T d m x tid sid) = tid"
    "tl_is T x \<Longrightarrow> tl_is T (tl_child T d x)" "tl_is T x \<Longrightarrow> tl_trace T (tl_child T d x) = tl_trace T x"
  using assms by (simp_all add: trace_law_def)

text \<open>
  C25. A trace identifier travels: a request sent under a context with an identifier is handled, logged and
  answered under the same identifier, in the hint of the body and in the header, and so is everything the
  handler starts as a child of its context. The request has no such header before; the code makes it without any.
\<close>

lemma trace_id_travels:
  assumes "trace_law T" "tl_is T ctx" "tl_trace T ctx \<noteq> []" "h HeaderSimpleTraceId = []"
  shows "let served = request_ctx T d1 d2 reqCtx (send_trace T ctx h); (hint, hs) = response_trace T served
    in tl_trace T served = tl_trace T ctx \<and> hint = tl_trace T ctx \<and>
       header_get hs HeaderSimpleTraceId = tl_trace T ctx \<and>
       (\<exists>child. contxt_child_of T d3 served = Inr child \<and> tl_trace T child = tl_trace T ctx)"
proof -
  let ?s = "request_ctx T d1 d2 reqCtx (send_trace T ctx h)"
  have hdr: "header_get (send_trace T ctx h) HeaderSimpleTraceId = tl_trace T ctx"
    using assms(2,4) by (simp add: send_trace_def header_op_defs header_defs)
  have s: "tl_is T ?s" "tl_trace T ?s = tl_trace T ctx"
    using trace_lawD [OF assms(1)] assms(3) hdr
    by (simp_all add: request_ctx_def Let_def contxt_new_with_trace_def)
  show ?thesis
    using s trace_lawD(4) [OF assms(1) s(1)]
    by (simp add: response_trace_def Let_def header_op_defs header_defs contxt_child_of_def)
qed

text \<open>A small trace library: a context is its identifiers.\<close>

datatype demo_ctx = Plain | Traced string string

definition demo_trace :: "demo_ctx trace_lib" where
  "demo_trace =
     \<lparr>tl_new = (\<lambda>d m x tid sid. Traced (if tid = [] then ''id'' else tid) sid),
      tl_child = (\<lambda>d x. x), tl_is = (\<lambda>x. x \<noteq> Plain),
      tl_trace = (\<lambda>x. case x of Plain \<Rightarrow> [] | Traced t s \<Rightarrow> t),
      tl_span = (\<lambda>x. case x of Plain \<Rightarrow> [] | Traced t s \<Rightarrow> s), tl_parent = (\<lambda>x. []),
      tl_new_id = (\<lambda>d. ''new'')\<rparr>"

lemma demo_trace_law: "trace_law demo_trace"
  by (simp add: trace_law_def demo_trace_def)

lemma trace_id_travels_witness:
  "fst (response_trace demo_trace (request_ctx demo_trace 0 0 Plain
     (send_trace demo_trace (Traced ''abc'' ''7'') no_headers))) = ''abc''"
  using trace_id_travels [OF demo_trace_law, of "Traced ''abc'' ''7''" no_headers 0 0 Plain 0]
  by (simp add: Let_def split_beta no_headers_def) (simp add: demo_trace_def)

end
