(* ===== verification/Snapshots.thy ===== *)
theory Snapshots
  imports Data_Model
begin

text \<open>
  How the two snapshots of a log row go into a column and back: \<open>Value\<close> and \<open>Scan\<close> of
  \<open>TaskLogCallbackReqSnapshot\<close> and \<open>TaskLogCallbackRespSnapshot\<close> in
  \<open>internal/task/impl/repo/mysql/data_model.go\<close>. The JSON codec is a parameter; \<open>snapshot_law\<close> states that
  decoding what was encoded gives it back. A driver value is a byte slice, a string or nil; \<open>Scan\<close> asserts one
  of the first two and panics on the others.
\<close>

section \<open>Definitions\<close>

datatype driver_value = DrvBytes string | DrvString string | DrvNil

record snapshot_json =
  sj_req_enc :: "req_snapshot \<Rightarrow> go_err + string"
  sj_req_dec :: "string \<Rightarrow> req_snapshot \<Rightarrow> go_err option \<times> req_snapshot"
  sj_resp_enc :: "resp_snapshot \<Rightarrow> go_err + string"
  sj_resp_dec :: "string \<Rightarrow> resp_snapshot \<Rightarrow> go_err option \<times> resp_snapshot"

definition snapshot_law :: "snapshot_json \<Rightarrow> bool" where
  "snapshot_law J \<longleftrightarrow>
     (\<forall>x b old. sj_req_enc J x = Inr b \<longrightarrow> sj_req_dec J b old = (None, x)) \<and>
     (\<forall>x b old. sj_resp_enc J x = Inr b \<longrightarrow> sj_resp_dec J b old = (None, x))"

definition req_value :: "snapshot_json \<Rightarrow> req_snapshot \<Rightarrow> go_err + driver_value" where
  "req_value J s = (case sj_req_enc J s of Inl e \<Rightarrow> Inl e | Inr j \<Rightarrow> Inr (DrvBytes j))"

definition req_scan :: "snapshot_json \<Rightarrow> driver_value \<Rightarrow> req_snapshot \<Rightarrow> go_err option \<times> req_snapshot" where
  "req_scan J src s =
     (case src of
        DrvBytes b \<Rightarrow> sj_req_dec J b s
      | _ \<Rightarrow> (Some (Panic ''interface conversion''), s))"

definition resp_value :: "snapshot_json \<Rightarrow> resp_snapshot \<Rightarrow> go_err + driver_value" where
  "resp_value J s = (case sj_resp_enc J s of Inl e \<Rightarrow> Inl e | Inr j \<Rightarrow> Inr (DrvString j))"

definition resp_scan :: "snapshot_json \<Rightarrow> driver_value \<Rightarrow> resp_snapshot \<Rightarrow> go_err option \<times> resp_snapshot" where
  "resp_scan J src s =
     (case src of
        DrvString b \<Rightarrow> sj_resp_dec J b s
      | _ \<Rightarrow> (Some (Panic ''interface conversion''), s))"

section \<open>Properties\<close>

text \<open>What the MySQL driver hands back for a text column: bytes, whatever type was written.\<close>

fun column_value :: "driver_value \<Rightarrow> driver_value" where
  "column_value (DrvString s) = DrvBytes s"
| "column_value v = v"

text \<open>
  A snapshot of a request survives the column: it is read back as it was written. A snapshot of a
  response is read back only from a driver that keeps strings; from bytes, which the MySQL driver
  answers for a text column, reading it panics.
\<close>

lemma snapshots_read_back:
  assumes "snapshot_law J" "req_value J x = Inr v" "resp_value J y = Inr w"
  shows "req_scan J (column_value v) old = (None, x) \<and> resp_scan J w old' = (None, y) \<and>
    resp_scan J (column_value w) old' = (Some (Panic ''interface conversion''), old')"
  using assms
  by (auto simp: snapshot_law_def req_value_def resp_value_def req_scan_def resp_scan_def split: sum.splits)

text \<open>A codec for the witness: the texts of a snapshot, each after its length.\<close>

definition one_resp_json :: snapshot_json where
  "one_resp_json =
     \<lparr>sj_req_enc = (\<lambda>x. if x = \<lparr>qs_SrvSchema = ''http'', qs_Host = ''h'', qs_Port = 80, qs_TimeoutSec = 5,
          qs_CallbackAt = 1, qs_CallbackPath = ''/''\<rparr> then Inr ''{}'' else Inl (JsonErr ''unsupported'')),
      sj_req_dec = (\<lambda>b old. (None, \<lparr>qs_SrvSchema = ''http'', qs_Host = ''h'', qs_Port = 80, qs_TimeoutSec = 5,
          qs_CallbackAt = 1, qs_CallbackPath = ''/''\<rparr>)),
      sj_resp_enc = (\<lambda>x. Inr (ps_RespRaw x)), sj_resp_dec = (\<lambda>b old. (None, \<lparr>ps_RespRaw = b\<rparr>))\<rparr>"

lemma snapshots_read_back_witness:
  "resp_scan one_resp_json (DrvBytes ''ok'') \<lparr>ps_RespRaw = []\<rparr> =
     (Some (Panic ''interface conversion''), \<lparr>ps_RespRaw = []\<rparr>)"
proof -
  let ?x = "\<lparr>qs_SrvSchema = ''http'', qs_Host = ''h'', qs_Port = 80, qs_TimeoutSec = 5, qs_CallbackAt = 1,
      qs_CallbackPath = ''/''\<rparr>"
  have law: "snapshot_law one_resp_json" by (auto simp: snapshot_law_def one_resp_json_def)
  have "req_value one_resp_json ?x = Inr (DrvBytes ''{}'')" "resp_value one_resp_json \<lparr>ps_RespRaw = ''ok''\<rparr> = Inr (DrvString ''ok'')"
    by (simp_all add: req_value_def resp_value_def one_resp_json_def)
  from snapshots_read_back [OF law this] show ?thesis by simp
qed

end
