(* ===== verification/Stream_Query.thy ===== *)
theory Stream_Query
  imports Mem_Store
begin

text \<open>
  \<open>internal/task/impl/repo/mysql/stream_query.go\<close>: the two queries of \<open>OptStreamQuery\<close> and the handler that
  selects columns. Nothing in the program calls them.

  A GORM handle is a parameter (\<open>gorm_chain\<close>). A chain method such as \<open>Limit\<close> may change the handle it is called on, and
  answers a handle: it is a function to both. \<open>session_law\<close> is GORM's documented rule for its reuse: a handle made by
  \<open>WithContext\<close> is a new session, which chain methods and finishers leave as it is.
\<close>

section \<open>Definitions\<close>

record ('q, 'db, 'r) gorm_chain =
  gc_with_context :: "'q \<Rightarrow> 'q"
  gc_limit :: "int \<Rightarrow> 'q \<Rightarrow> 'q \<times> 'q"
  gc_select :: "string list \<Rightarrow> 'q \<Rightarrow> 'q \<times> 'q"
  gc_count :: "'q \<Rightarrow> ('db, int) io"
  gc_find :: "'q \<Rightarrow> ('db, 'r list) io"

definition session_law :: "('q, 'db, 'r) gorm_chain \<Rightarrow> bool" where
  "session_law G \<longleftrightarrow> (\<forall>n q. fst (gc_limit G n (gc_with_context G q)) = gc_with_context G q)"

text \<open>The handle \<open>db\<close> after the two conditional calls of \<open>Limit\<close>, whose results are thrown away.\<close>

definition limited :: "('q, 'db, 'r) gorm_chain \<Rightarrow> int \<Rightarrow> int \<Rightarrow> 'q \<Rightarrow> 'q" where
  "limited G limit offset db =
     (let db1 = (if 0 < limit then fst (gc_limit G limit db) else db)
      in if 0 < offset then fst (gc_limit G offset db1) else db1)"

definition query_hit :: "('q, 'db, 'r) gorm_chain \<Rightarrow> 'q \<Rightarrow> int \<Rightarrow> int \<Rightarrow> ('db, int \<times> 'r list) io" where
  "query_hit G q limit offset =
     (let db = gc_with_context G q
      in bind_io (gc_count G db) (\<lambda>count.
         bind_io (gc_find G (limited G limit offset db)) (\<lambda>rows. ret_io (count, rows))))"

definition query_query :: "('q, 'db, 'r) gorm_chain \<Rightarrow> 'q \<Rightarrow> int \<Rightarrow> int \<Rightarrow> ('db, 'r list) io" where
  "query_query G q limit offset = gc_find G (limited G limit offset (gc_with_context G q))"

text \<open>The handler changes its handle only as far as \<open>Select\<close> does; it answers no error.\<close>

definition select_columns_handler :: "('q, 'db, 'r) gorm_chain \<Rightarrow> 'q \<Rightarrow> string list \<Rightarrow> go_err option \<times> 'q" where
  "select_columns_handler G db columns = (None, fst (gc_select G columns db))"

section \<open>What becomes of the limits\<close>

text \<open>
  The limit and the offset have no effect: both queries read all the rows, whatever is asked for.
\<close>

lemma limited_session: "session_law G \<Longrightarrow> limited G limit offset (gc_with_context G q) = gc_with_context G q"
  by (simp add: limited_def session_law_def Let_def)

lemma limits_have_no_effect:
  assumes "session_law G"
  shows "query_query G q limit offset = gc_find G (gc_with_context G q) \<and>
    query_hit G q limit offset = query_hit G q 0 0"
  by (simp add: query_query_def query_hit_def limited_session [OF assms])

text \<open>Handles over the log table: the flag says that the handle is a session.\<close>

definition demo_chain :: "(bool \<times> query, mem, log_model) gorm_chain" where
  "demo_chain =
     \<lparr>gc_with_context = (\<lambda>(b, q). (True, q)),
      gc_limit = (\<lambda>n (b, q). let q' = q\<lparr>q_limit := Some n\<rparr> in (if b then (True, q) else (False, q'), (False, q'))),
      gc_select = (\<lambda>cols db. (db, db)),
      gc_count = (\<lambda>(b, q). bind_io (op_counts (st_log mem_store) q [CountConst (VInt 1)]) (\<lambda>ns. ret_io (hd ns))),
      gc_find = (\<lambda>(b, q). op_find (st_log mem_store) q)\<rparr>"

lemma limits_have_no_effect_witness:
  "query_query demo_chain (False, where_q []) 1 5 = op_find (st_log mem_store) (where_q [])"
proof -
  have "session_law demo_chain" by (simp add: session_law_def demo_chain_def Let_def split: prod.splits)
  from limits_have_no_effect [OF this, of "(False, where_q [])" 1 5]
  have "query_query demo_chain (False, where_q []) 1 5 =
      gc_find demo_chain (gc_with_context demo_chain (False, where_q []))" ..
  then show ?thesis by (simp add: demo_chain_def)
qed

end
