(* ===== verification/Stmt_Steps.thy ===== *)
theory Stmt_Steps
  imports Cluster
begin

text \<open>
  The operations statement by statement. In the other theories a call of a repository or of the executor is one
  step on the database; here it is as many steps as it makes calls of GORM and HTTP requests, between which
  anybody else may work on the same database.

  No operation is written twice. The definitions of the repositories are polymorphic in the state that
  the statements work on; here they are instantiated at \<open>replay\<close>: the replies that are still to be
  handed out, and the call that waits for a reply. A process is a program together with the replies it got so
  far (\<open>outcome\<close>): the program is run on them, and either comes to an end or is stopped at its next
  call, which is then executed on the database. \<open>asks\<close> is a run that nobody disturbs, and \<open>follows\<close> says
  that it does the same as the operation in one step.
\<close>

section \<open>Calls and replies\<close>

datatype 'r table_stmt =
    SFind query
  | STake query
  | SFirstOrCreate query 'r
  | SCreate 'r
  | SUpdates query "assign list"
  | SDelete query
  | SCounts query "agg list"

datatype 'r table_reply =
    AFind "go_err + 'r list"
  | ATake "go_err + 'r"
  | AFirstOrCreate "go_err + 'r \<times> nat"
  | ACreate "go_err + unit"
  | ARows "go_err + nat"
  | ACounts "go_err + int list"

datatype call =
    OnTask "task_model table_stmt"
  | OnSrv "srv_model table_stmt"
  | OnRoute "route_model table_stmt"
  | OnLog "log_model table_stmt"
  | OnUntracked string query
  | OnNet string string "int option"

datatype reply =
    RTask "task_model table_reply"
  | RSrv "srv_model table_reply"
  | RRoute "route_model table_reply"
  | RLog "log_model table_reply"
  | RUntracked "go_err + nat"
  | RNet "string option \<times> go_err option"

fun exec_table :: "('db, 'r) table_ops \<Rightarrow> 'r table_stmt \<Rightarrow> 'db \<Rightarrow> 'r table_reply \<times> 'db" where
  "exec_table T (SFind q) s = apfst AFind (op_find T q s)"
| "exec_table T (STake q) s = apfst ATake (op_take T q s)"
| "exec_table T (SFirstOrCreate q x) s = apfst AFirstOrCreate (op_first_or_create T q x s)"
| "exec_table T (SCreate x) s = apfst ACreate (op_create T x s)"
| "exec_table T (SUpdates q as) s = apfst ARows (op_updates T q as s)"
| "exec_table T (SDelete q) s = apfst ARows (op_delete T q s)"
| "exec_table T (SCounts q as) s = apfst ACounts (op_counts T q as s)"

fun exec_call :: "'db store \<Rightarrow> 'db http_env \<Rightarrow> call \<Rightarrow> 'db \<Rightarrow> reply \<times> 'db" where
  "exec_call S H (OnTask x) s = apfst RTask (exec_table (st_task S) x s)"
| "exec_call S H (OnSrv x) s = apfst RSrv (exec_table (st_srv S) x s)"
| "exec_call S H (OnRoute x) s = apfst RRoute (exec_table (st_route S) x s)"
| "exec_call S H (OnLog x) s = apfst RLog (exec_table (st_log S) x s)"
| "exec_call S H (OnUntracked tab q) s = apfst RUntracked (st_delete_untracked S tab q s)"
| "exec_call S H (OnNet url body timeout) s = apfst RNet (he_post H url body timeout s)"

section \<open>Programs over replies\<close>

record replay =
  rp_replies :: "reply list"
  rp_call :: "call option"

type_synonym 'x prog = "replay \<Rightarrow> 'x \<times> replay"

definition ready :: "reply list \<Rightarrow> replay" where
  "ready as = \<lparr>rp_replies = as, rp_call = None\<rparr>"

definition unasked :: "go_err + 'a" where
  "unasked = Inl (Panic ''no reply'')"

text \<open>A call: the next reply if there is one. Once a call waits, no other is made.\<close>

definition await :: "call \<Rightarrow> (reply \<Rightarrow> 'x) \<Rightarrow> 'x \<Rightarrow> 'x prog" where
  "await c get other s =
     (case rp_call s of
        Some d \<Rightarrow> (other, s)
      | None \<Rightarrow>
          (case rp_replies s of
             [] \<Rightarrow> (other, s\<lparr>rp_call := Some c\<rparr>)
           | a # as \<Rightarrow> (get a, s\<lparr>rp_replies := as\<rparr>)))"

definition replay_table :: "('r table_stmt \<Rightarrow> call) \<Rightarrow> (reply \<Rightarrow> 'r table_reply option) \<Rightarrow> (replay, 'r) table_ops" where
  "replay_table on get =
     \<lparr>op_find = (\<lambda>q. await (on (SFind q)) (\<lambda>a. case get a of Some (AFind r) \<Rightarrow> r | _ \<Rightarrow> unasked) unasked),
      op_take = (\<lambda>q. await (on (STake q)) (\<lambda>a. case get a of Some (ATake r) \<Rightarrow> r | _ \<Rightarrow> unasked) unasked),
      op_first_or_create = (\<lambda>q x. await (on (SFirstOrCreate q x))
        (\<lambda>a. case get a of Some (AFirstOrCreate r) \<Rightarrow> r | _ \<Rightarrow> unasked) unasked),
      op_create = (\<lambda>x. await (on (SCreate x)) (\<lambda>a. case get a of Some (ACreate r) \<Rightarrow> r | _ \<Rightarrow> unasked) unasked),
      op_updates = (\<lambda>q as. await (on (SUpdates q as)) (\<lambda>a. case get a of Some (ARows r) \<Rightarrow> r | _ \<Rightarrow> unasked) unasked),
      op_delete = (\<lambda>q. await (on (SDelete q)) (\<lambda>a. case get a of Some (ARows r) \<Rightarrow> r | _ \<Rightarrow> unasked) unasked),
      op_counts = (\<lambda>q as. await (on (SCounts q as)) (\<lambda>a. case get a of Some (ACounts r) \<Rightarrow> r | _ \<Rightarrow> unasked) unasked)\<rparr>"

definition replay_store :: "replay store" where
  "replay_store =
     \<lparr>st_task = replay_table OnTask (\<lambda>a. case a of RTask r \<Rightarrow> Some r | _ \<Rightarrow> None),
      st_srv = replay_table OnSrv (\<lambda>a. case a of RSrv r \<Rightarrow> Some r | _ \<Rightarrow> None),
      st_route = replay_table OnRoute (\<lambda>a. case a of RRoute r \<Rightarrow> Some r | _ \<Rightarrow> None),
      st_log = replay_table OnLog (\<lambda>a. case a of RLog r \<Rightarrow> Some r | _ \<Rightarrow> None),
      st_delete_untracked = (\<lambda>tab q. await (OnUntracked tab q) (\<lambda>a. case a of RUntracked r \<Rightarrow> r | _ \<Rightarrow> unasked) unasked)\<rparr>"

definition replay_http :: "'s http_env \<Rightarrow> replay http_env" where
  "replay_http H =
     \<lparr>he_post = (\<lambda>url body timeout. await (OnNet url body timeout)
        (\<lambda>a. case a of RNet r \<Rightarrow> r | _ \<Rightarrow> (None, Some (Panic ''no reply''))) (None, Some (Panic ''no reply''))),
      he_req_json = he_req_json H, he_resp_json = he_resp_json H, he_beat_json = he_beat_json H,
      he_pong_json = he_pong_json H, he_vld = he_vld H, he_logs = mysql_log_repo replay_store,
      he_grow = he_grow H\<rparr>"

definition outcome :: "'x prog \<Rightarrow> reply list \<Rightarrow> call + 'x" where
  "outcome m as =
     (case m (ready as) of (x, s) \<Rightarrow> (case rp_call s of Some c \<Rightarrow> Inl c | None \<Rightarrow> Inr x))"

text \<open>One step of a process: its next call on the database, or its result.\<close>

definition advance ::
    "'db store \<Rightarrow> 'db http_env \<Rightarrow> 'x prog \<Rightarrow> reply list \<Rightarrow> 'db \<Rightarrow> (reply list + 'x) \<times> 'db" where
  "advance S H m as s =
     (case outcome m as of
        Inl c \<Rightarrow> (case exec_call S H c s of (a, s') \<Rightarrow> (Inl (as @ [a]), s'))
      | Inr x \<Rightarrow> (Inr x, s))"

section \<open>A run that nobody disturbs\<close>

inductive asks :: "'db store \<Rightarrow> 'db http_env \<Rightarrow> 'x prog \<Rightarrow> reply list \<Rightarrow> 'db \<Rightarrow> reply list \<Rightarrow> 'db \<Rightarrow> bool"
  for S H m where
  stop: "asks S H m as s [] s"
| ask: "outcome m as = Inl c \<Longrightarrow> exec_call S H c s = (a, s1) \<Longrightarrow> asks S H m (as @ [a]) s1 bs s2 \<Longrightarrow>
    asks S H m as s (a # bs) s2"

definition quiet :: "'x prog \<Rightarrow> bool" where
  "quiet m \<longleftrightarrow> (\<forall>s. rp_call s \<noteq> None \<longrightarrow> snd (m s) = s)"

definition follows :: "'db store \<Rightarrow> 'db http_env \<Rightarrow> 'x prog \<Rightarrow> ('db \<Rightarrow> 'x \<times> 'db) \<Rightarrow> bool" where
  "follows S H m f \<longleftrightarrow> quiet m \<and>
     (\<forall>s x s'. f s = (x, s') \<longrightarrow> (\<exists>bs. asks S H m [] s bs s' \<and> (\<forall>rest. m (ready (bs @ rest)) = (x, ready rest))))"

definition seq :: "('s \<Rightarrow> 'x \<times> 's) \<Rightarrow> ('x \<Rightarrow> 's \<Rightarrow> 'y \<times> 's) \<Rightarrow> 's \<Rightarrow> 'y \<times> 's" where
  "seq m k s = (case m s of (x, s') \<Rightarrow> k x s')"

named_theorems follow "rules that show that a program follows an operation"

lemma ready_simps [simp]: "rp_replies (ready as) = as" "rp_call (ready as) = None"
  by (simp_all add: ready_def)

lemma quietD: "quiet m \<Longrightarrow> rp_call s = Some c \<Longrightarrow> snd (m s) = s"
  by (simp add: quiet_def)

lemma quiet_seq: "quiet m \<Longrightarrow> (\<And>x. quiet (k x)) \<Longrightarrow> quiet (seq m k)"
  by (simp add: quiet_def seq_def split_beta)

lemma outcome_seq_call:
  assumes "outcome m as = Inl c" "\<And>x. quiet (k x)"
  shows "outcome (seq m k) as = Inl c"
proof -
  obtain x s where m: "m (ready as) = (x, s)" by (rule prod.exhaust)
  with assms(1) have c: "rp_call s = Some c" by (auto simp: outcome_def split: option.splits)
  from quietD [OF assms(2) c, of x] c m show ?thesis by (simp add: outcome_def seq_def split_beta)
qed

lemma asks_seq_first:
  assumes "asks S H m as s bs s1" "\<And>x. quiet (k x)"
  shows "asks S H (seq m k) as s bs s1"
  using assms(1) by induction (auto intro: asks.intros outcome_seq_call [OF _ assms(2)])

lemma asks_seq_rest:
  assumes "asks S H (k x) as s bs s1" "\<And>rest. m (ready (pre @ rest)) = (x, ready rest)"
  shows "asks S H (seq m k) (pre @ as) s bs s1"
  using assms(1)
proof induction
  case (ask as c s a s1 bs s2)
  have "outcome (seq m k) (pre @ as) = outcome (k x) as"
    by (simp add: outcome_def seq_def assms(2))
  with ask show ?case by (auto intro: asks.ask)
qed (rule asks.stop)

lemma asks_append:
  "asks S H m as s bs s1 \<Longrightarrow> asks S H m (as @ bs) s1 cs s2 \<Longrightarrow> asks S H m as s (bs @ cs) s2"
  by (induction rule: asks.induct) (auto intro: asks.ask)

lemma follows_quiet: "follows S H m f \<Longrightarrow> quiet m"
  by (simp add: follows_def)

lemma follows_seq:
  assumes m: "follows S H m f" and k: "\<And>x. follows S H (k x) (g x)"
  shows "follows S H (seq m k) (seq f g)"
  unfolding follows_def
proof (intro conjI allI impI)
  show "quiet (seq m k)" by (intro quiet_seq follows_quiet [OF m] follows_quiet [OF k])
  fix s y s'
  assume "seq f g s = (y, s')"
  then obtain x s1 where run: "f s = (x, s1)" "g x s1 = (y, s')" by (auto simp: seq_def split: prod.splits)
  from m run(1) obtain bs where 1: "asks S H m [] s bs s1" "\<And>rest. m (ready (bs @ rest)) = (x, ready rest)"
    unfolding follows_def by blast
  from k run(2) obtain cs where 2: "asks S H (k x) [] s1 cs s'" "\<And>rest. k x (ready (cs @ rest)) = (y, ready rest)"
    unfolding follows_def by blast
  have "asks S H (seq m k) ([] @ bs) s1 cs s'"
    using asks_seq_rest [where pre = bs and m = m and x = x and k = k, OF 2(1)] 1(2) by simp
  from asks_append [OF asks_seq_first [where k = k, OF 1(1) follows_quiet [OF k]] this]
  have "asks S H (seq m k) [] s (bs @ cs) s'" .
  moreover have "seq m k (ready ((bs @ cs) @ rest)) = (y, ready rest)" for rest
    by (simp add: seq_def 1(2) 2(2))
  ultimately show "\<exists>bs. asks S H (seq m k) [] s bs s' \<and> (\<forall>rest. seq m k (ready (bs @ rest)) = (y, ready rest))"
    by blast
qed

lemma follows_value [follow]: "follows S H (\<lambda>s. (x, s)) (\<lambda>s. (x, s))"
  by (auto simp: follows_def quiet_def intro: exI [of _ "[]"] asks.stop)

lemma follows_await:
  "follows S H (await c get other) (\<lambda>s. case exec_call S H c s of (a, s') \<Rightarrow> (get a, s'))"
  unfolding follows_def
proof (intro conjI allI impI)
  show "quiet (await c get other)" by (auto simp: quiet_def await_def)
  fix s x s'
  assume "(case exec_call S H c s of (a, s') \<Rightarrow> (get a, s')) = (x, s')"
  then obtain a where a: "exec_call S H c s = (a, s')" "x = get a" by (auto split: prod.splits)
  have "outcome (await c get other) [] = Inl c" by (simp add: outcome_def await_def)
  from asks.ask [OF this a(1) asks.stop] have "asks S H (await c get other) [] s [a] s'" .
  moreover have "await c get other (ready ([a] @ rest)) = (x, ready rest)" for rest
    by (simp add: await_def a(2) ready_def)
  ultimately show "\<exists>bs. asks S H (await c get other) [] s bs s' \<and>
      (\<forall>rest. await c get other (ready (bs @ rest)) = (x, ready rest))" by blast
qed

section \<open>Calls of the store follow the store\<close>

lemma follows_call:
  assumes "\<And>s. f s = (case exec_call S H c s of (a, s') \<Rightarrow> (get a, s'))"
  shows "follows S H (await c get other) f"
proof -
  have "f = (\<lambda>s. case exec_call S H c s of (a, s') \<Rightarrow> (get a, s'))" using assms by (rule ext)
  with follows_await show ?thesis by simp
qed

lemmas replay_defs = replay_store_def replay_table_def

lemma follows_store [follow]:
  "follows S H (op_find (st_task replay_store) q) (op_find (st_task S) q)"
  "follows S H (op_take (st_task replay_store) q) (op_take (st_task S) q)"
  "follows S H (op_first_or_create (st_task replay_store) q x) (op_first_or_create (st_task S) q x)"
  "follows S H (op_updates (st_task replay_store) q as) (op_updates (st_task S) q as)"
  "follows S H (op_delete (st_task replay_store) q) (op_delete (st_task S) q)"
  "follows S H (op_find (st_srv replay_store) q) (op_find (st_srv S) q)"
  "follows S H (op_take (st_srv replay_store) q) (op_take (st_srv S) q)"
  "follows S H (op_first_or_create (st_srv replay_store) q y) (op_first_or_create (st_srv S) q y)"
  "follows S H (op_updates (st_srv replay_store) q as) (op_updates (st_srv S) q as)"
  "follows S H (op_delete (st_srv replay_store) q) (op_delete (st_srv S) q)"
  "follows S H (op_find (st_route replay_store) q) (op_find (st_route S) q)"
  "follows S H (op_first_or_create (st_route replay_store) q z) (op_first_or_create (st_route S) q z)"
  "follows S H (op_updates (st_route replay_store) q as) (op_updates (st_route S) q as)"
  "follows S H (op_delete (st_route replay_store) q) (op_delete (st_route S) q)"
  "follows S H (op_counts (st_route replay_store) q aggs) (op_counts (st_route S) q aggs)"
  "follows S H (op_create (st_log replay_store) l) (op_create (st_log S) l)"
  "follows S H (op_updates (st_log replay_store) q as) (op_updates (st_log S) q as)"
  "follows S H (st_delete_untracked replay_store tab q) (st_delete_untracked S tab q)"
  by (simp_all add: replay_defs) (rule follows_call, simp add: apfst_def map_prod_def split_beta)+

lemma follows_post [follow]: "follows S H (he_post (replay_http H) url body timeout) (he_post H url body timeout)"
  by (simp add: replay_http_def) (rule follows_call, simp add: apfst_def map_prod_def split_beta)

lemma follows_ret [follow]: "follows S H (ret_io x) (ret_io x)"
  and follows_throw [follow]: "follows S H (throw_io e) (throw_io e)"
  and follows_lift [follow]: "follows S H (lift_io r) (lift_io r)"
  unfolding ret_io_def throw_io_def lift_io_def by (rule follows_value)+

lemma bind_io_seq: "bind_io m k = seq m (\<lambda>x. case x of Inl e \<Rightarrow> (\<lambda>s. (Inl e, s)) | Inr y \<Rightarrow> k y)"
  by (rule ext) (auto simp: bind_io_def seq_def split: prod.splits sum.splits)

lemma follows_case_sum [follow]:
  "(\<And>e. follows S H (m e) (f e)) \<Longrightarrow> (\<And>x. follows S H (k x) (g x)) \<Longrightarrow>
     follows S H (case y of Inl e \<Rightarrow> m e | Inr x \<Rightarrow> k x) (case y of Inl e \<Rightarrow> f e | Inr x \<Rightarrow> g x)"
  by (cases y) simp_all

lemma follows_case_option [follow]:
  "follows S H m f \<Longrightarrow> (\<And>x. follows S H (k x) (g x)) \<Longrightarrow>
     follows S H (case y of None \<Rightarrow> m | Some x \<Rightarrow> k x) (case y of None \<Rightarrow> f | Some x \<Rightarrow> g x)"
  by (cases y) simp_all

lemma follows_case_list [follow]:
  "follows S H m f \<Longrightarrow> (\<And>x xs. follows S H (k x xs) (g x xs)) \<Longrightarrow>
     follows S H (case y of [] \<Rightarrow> m | x # xs \<Rightarrow> k x xs) (case y of [] \<Rightarrow> f | x # xs \<Rightarrow> g x xs)"
  by (cases y) simp_all

lemma follows_case_prod [follow]:
  "(\<And>a b. follows S H (k a b) (g a b)) \<Longrightarrow>
     follows S H (case y of (a, b) \<Rightarrow> k a b) (case y of (a, b) \<Rightarrow> g a b)"
  by (cases y) simp_all

lemma follows_if [follow]:
  "follows S H m f \<Longrightarrow> follows S H k g \<Longrightarrow> follows S H (if b then m else k) (if b then f else g)"
  by simp

lemma follows_bind [follow]:
  "follows S H m f \<Longrightarrow> (\<And>x. follows S H (k x) (g x)) \<Longrightarrow> follows S H (bind_io m k) (bind_io f g)"
  unfolding bind_io_seq by (intro follows_seq follow)

section \<open>The repositories\<close>

lemma take_task_seq:
  "take_task S w = seq (op_take (st_task S) (where_q [CEq DbFieldId (VId w)]))
     (\<lambda>x. case x of Inl e \<Rightarrow> throw_io (if e = RecordNotFound then newBizErr ErrCodeTaskNotFound else e) | Inr m \<Rightarrow> ret_io m)"
  by (rule ext) (auto simp: take_task_def seq_def split: prod.splits sum.splits)

lemma take_srv_seq:
  "take_srv S name = seq (op_take (st_srv S) (where_q [CEq DbFieldName (VText name)]))
     (\<lambda>x. case x of Inl e \<Rightarrow> throw_io (if e = RecordNotFound then newBizErr ErrCodeTaskCallbackSrvNotFound else e)
        | Inr m \<Rightarrow> ret_io m)"
  by (rule ext) (auto simp: take_srv_def seq_def split: prod.splits sum.splits)

lemma upsert_task_seq:
  "upsert_task S srvId schedMode schedNextAt t =
     seq (op_first_or_create (st_task S)
           (unscoped_q [CEq DbFieldName (VText (t_name t)), CEq DbFieldBizId (VText (t_bizId t))])
           (new_task_row srvId schedMode schedNextAt t))
       (\<lambda>x. case x of Inl e \<Rightarrow> ret_io []
        | Inr y \<Rightarrow> (case y of (m, n) \<Rightarrow>
            if n = 0 then
              bind_io (op_updates (st_task S) (unscoped_q [CEq DbFieldId (VId (bm_Id m))])
                 (readd_sets srvId schedMode schedNextAt t m)) (\<lambda>_. ret_io (toTaskEntityId (bm_Id m)))
            else ret_io (toTaskEntityId (bm_Id m))))"
  by (rule ext) (auto simp: upsert_task_def seq_def split: prod.splits sum.splits)

lemma follows_logs [follow]:
  "follows S H (save_task_started_log replay_store n1 d) (save_task_started_log S n1 d)"
  "follows S H (save_task_callback_log replay_store n1 n2 d') (save_task_callback_log S n1 n2 d')"
  "follows S H (save_task_confirmed_log replay_store n1 d'') (save_task_confirmed_log S n1 d'')"
  unfolding save_task_started_log_def save_task_callback_log_def save_task_confirmed_log_def by (intro follow)+

lemma follows_get_srvs [follow]: "follows S H (get_srvs L replay_store qs) (get_srvs L S qs)"
  unfolding get_srvs_def by (intro follow)

lemma follows_take_srv [follow]: "follows S H (take_srv replay_store name) (take_srv S name)"
  unfolding take_srv_seq by (intro follow follows_seq)

lemma follows_add_route_rows [follow]: "follows S H (add_route_rows replay_store w routes b) (add_route_rows S w routes b)"
proof (induction routes arbitrary: b)
  case (Cons r rs)
  then show ?case by (simp add: add_route_row_def) (intro follow)
qed (simp add: follow)

lemma follows_srv_ops [follow]:
  "follows S H (add_srv_routes replay_store srv) (add_srv_routes S srv)"
  "follows S H (del_srv_routes replay_store srv) (del_srv_routes S srv)"
  "follows S H (set_srv_routes_pass_health_check replay_store now srv) (set_srv_routes_pass_health_check S now srv)"
  "follows S H (get_srvs_by_ids L replay_store ids) (get_srvs_by_ids L S ids)"
  unfolding add_srv_routes_def add_srv_row_def del_srv_routes_def set_srv_routes_pass_health_check_def get_srvs_by_ids_def
  by (intro follow)+

lemma follows_task_ops [follow]:
  "follows S H (del_task_by_id replay_store i) (del_task_by_id S i)"
  "follows S H (add_task L replay_store now t) (add_task L S now t)"
  "follows S H (confirm_task replay_store (mysql_log_repo replay_store) n1 n2 p) (confirm_task S (mysql_log_repo S) n1 n2 p)"
  "follows S H (timeout_tasks L replay_store (mysql_srv_repo L replay_store) now lim cursor)
     (timeout_tasks L S (mysql_srv_repo L S) now lim cursor)"
  unfolding del_task_by_id_def add_task_def upsert_task_seq confirm_task_def timeout_tasks_def Let_def
    mysql_log_repo_simps mysql_srv_repo_simps
  by (intro follow follows_seq)+

end
