(* ===== verification/Stmt_Programs.thy ===== *)
theory Stmt_Programs
  imports Stmt_Steps
begin

text \<open>
  The goroutines of the engine and of the registry and the handlers of the API as programs over replies
  (\<open>worker_prog\<close>, \<open>poll_prog\<close>, \<open>check_prog\<close>, \<open>pass_prog\<close>, \<open>drop_prog\<close>, \<open>serve_prog\<close>): the definitions of their own
  theories at the store \<open>replay\<close>. Undisturbed they do what those definitions do in one step; disturbed or not, they
  ask for harmless statements only.
\<close>

section \<open>The goroutines and the handlers\<close>

text \<open>A step of an engine as a function on the database; it starts the tasks in the list.\<close>

definition on_db :: "('s world \<Rightarrow> 'x \<times> 's world) \<Rightarrow> 's \<Rightarrow> ('x \<times> task list) \<times> 's" where
  "on_db f s = (case f (world_of s) of (x, w) \<Rightarrow> ((x, wo_started w), wo_db w))"

definition replay_engine ::
    "libs \<Rightarrow> 's http_env \<Rightarrow> (internal_err_detail \<Rightarrow> go_err + string) \<Rightarrow> replay engine" where
  "replay_engine L H jdet = easytask_engine L replay_store (replay_http H) jdet"

definition worker_prog ::
    "libs \<Rightarrow> 's http_env \<Rightarrow> (internal_err_detail \<Rightarrow> go_err + string) \<Rightarrow> draws \<Rightarrow> job \<Rightarrow> (job option \<times> task list) prog"
  where "worker_prog L H jdet d j = on_db (worker_work (replay_engine L H jdet) d j)"

definition poll_prog :: "libs \<Rightarrow> bool \<Rightarrow> int \<Rightarrow> string \<Rightarrow> (task list \<times> string) prog" where
  "poll_prog L isMaster now cursor = sched_poll (easytask_repo L replay_store) isMaster now cursor"

definition check_prog :: "libs \<Rightarrow> bool \<Rightarrow> check_pc \<Rightarrow> (callback_srv list \<times> check_pc) prog" where
  "check_prog L isMaster pc = check_poll (mysql_srv_repo L replay_store) isMaster pc"

text \<open>Recording the two lists of a health check, and a request; their results are not looked at.\<close>

definition only_state :: "('s \<Rightarrow> 's) \<Rightarrow> 's \<Rightarrow> unit \<times> 's" where
  "only_state f s = ((), f s)"

definition pass_prog :: "libs \<Rightarrow> int \<Rightarrow> callback_srv \<Rightarrow> heart_beat_resp \<Rightarrow> unit prog" where
  "pass_prog L now srv p = only_state (record_pass (mysql_srv_repo L replay_store) now srv p)"

definition drop_prog :: "libs \<Rightarrow> callback_srv \<Rightarrow> heart_beat_resp \<Rightarrow> unit prog" where
  "drop_prog L srv p = only_state (record_drop (mysql_srv_repo L replay_store) srv p)"

definition replay_api :: "libs \<Rightarrow> 's api \<Rightarrow> replay api" where
  "replay_api L A =
     \<lparr>ap_tasks = easytask_repo L replay_store, ap_srvs = mysql_srv_repo L replay_store, ap_vld = ap_vld A,
      ap_copy_stop = ap_copy_stop A, ap_copy_confirm = ap_copy_confirm A, ap_copy_register = ap_copy_register A,
      ap_copy_unregister = ap_copy_unregister A\<rparr>"

definition serve_prog :: "libs \<Rightarrow> 's api \<Rightarrow> request \<Rightarrow> unit prog" where
  "serve_prog L A r = only_state (serve (replay_api L A) r)"

lemma replay_engine_simps [simp]:
  "en_repo (replay_engine L H jdet) = easytask_repo L replay_store"
  "en_exec (replay_engine L H jdet) = callback_srv (replay_http H)"
  "en_jdet (replay_engine L H jdet) = jdet"
  by (simp_all add: replay_engine_def)

lemma replay_http_simps [simp]:
  "he_req_json (replay_http H) = he_req_json H" "he_resp_json (replay_http H) = he_resp_json H"
  "he_vld (replay_http H) = he_vld H" "he_logs (replay_http H) = mysql_log_repo replay_store"
  by (simp_all add: replay_http_def)

lemma easytask_repo_simps [simp]:
  "ir_LockTask (easytask_repo L S) = lock_task L S (mysql_log_repo S)"
  "ir_ConfirmTask (easytask_repo L S) = confirm_task S (mysql_log_repo S)"
  "ir_TimeoutTasks (easytask_repo L S) = timeout_tasks L S (mysql_srv_repo L S)"
  "ir_AddTask (easytask_repo L S) = add_task L S"
  "ir_DelTaskById (easytask_repo L S) = del_task_by_id S"
  by (simp_all add: easytask_repo_def)

lemma worker_work_on_db:
  "worker_work N d j w = (j', w') \<longleftrightarrow>
     (\<exists>ts s. on_db (worker_work N d j) (wo_db w) = ((j', ts), s) \<and>
        w' = w\<lparr>wo_db := s, wo_started := wo_started w @ ts\<rparr>)"
  by (cases j) (auto simp: on_db_def world_of_def split: prod.splits sum.splits)

definition lock_prog ::
    "libs \<Rightarrow> 'db store \<Rightarrow> int \<Rightarrow> int \<Rightarrow> int \<Rightarrow> task \<Rightarrow> 'db \<Rightarrow> ((go_err + bool) \<times> task) \<times> 'db" where
  "lock_prog L S now nowSched nowLog t s =
     (case lock_task L S (mysql_log_repo S) now nowSched nowLog t s of (b, t', s') \<Rightarrow> ((b, t'), s'))"

lemma lock_prog_seq:
  "lock_prog L S now nowSched nowLog t =
     (case get_sched_next_at (lb_cron L) nowSched t of
        Inl e \<Rightarrow> (\<lambda>s. ((Inl e, t), s))
      | Inr schedNextAt \<Rightarrow>
          (case checkedTaskModelId (t_id t) of
             Inl e \<Rightarrow> (\<lambda>s. ((Inl e, t), s))
           | Inr w \<Rightarrow>
               seq (op_updates (st_task S) (lock_query w t) (lock_sets now schedNextAt))
                 (\<lambda>x. case x of Inl e \<Rightarrow> (\<lambda>s. ((Inl e, t), s))
                  | Inr n \<Rightarrow>
                      if n = 0 then (\<lambda>s. ((Inr False, t), s))
                      else seq (save_task_started_log S nowLog \<lparr>sd_task = incr_run_times t\<rparr>)
                        (\<lambda>y. case y of Inl e \<Rightarrow> (\<lambda>s. ((Inl e, incr_run_times t), s))
                         | Inr u \<Rightarrow> (\<lambda>s. ((Inr True, incr_run_times t), s))))))"
  by (rule ext) (auto simp: lock_prog_def lock_task_def seq_def split: prod.splits sum.splits)

lemma follows_lock [follow]:
  "follows S H (lock_prog L replay_store now nowSched nowLog t) (lock_prog L S now nowSched nowLog t)"
  unfolding lock_prog_seq by (intro follow follows_seq)

definition req_prog ::
    "'s http_env \<Rightarrow> (string \<Rightarrow> 'r \<Rightarrow> go_err option \<times> 'r) \<Rightarrow> do_req_input \<Rightarrow> 'r \<Rightarrow> 's \<Rightarrow>
       ((string option \<times> go_err option) \<times> 'r) \<times> 's" where
  "req_prog H decode input resp s = (case do_req H decode input resp s of (a, r, s') \<Rightarrow> ((a, r), s'))"

lemma req_prog_seq:
  "req_prog H decode input resp =
     (case do_req_input_check (he_vld H) input of
        Inl e \<Rightarrow> (\<lambda>s. (((None, Some e), resp), s))
      | Inr i \<Rightarrow>
          (case di_Route i of
             None \<Rightarrow> (\<lambda>s. (((None, Some (Panic ''nil route'')), resp), s))
           | Some route \<Rightarrow>
               seq (he_post H (req_url route (di_Path i)) (di_ReqBytes i) (http_timeout (di_TimeoutSec i)))
                 (\<lambda>x. case x of (respRaw, err) \<Rightarrow>
                    (case err of
                       None \<Rightarrow> (case decode (case respRaw of Some raw \<Rightarrow> raw | None \<Rightarrow> []) resp of
                          (e, resp1) \<Rightarrow> (\<lambda>s. (((respRaw, e), resp1), s)))
                     | Some e \<Rightarrow> (\<lambda>s. (((respRaw, Some e), resp), s))))))"
  by (rule ext) (auto simp: req_prog_def do_req_def seq_def split: prod.splits sum.splits option.splits)

lemma follows_req [follow]: "follows S H (req_prog (replay_http H) decode input resp) (req_prog H decode input resp)"
  unfolding req_prog_seq replay_http_simps by (intro follow follows_seq)

lemma only_state_seq: "only_state (\<lambda>s. snd (m s)) = seq m (\<lambda>x s. ((), s))"
  by (rule ext) (simp add: only_state_def seq_def split_beta)

lemma save_callback_log_seq:
  "only_state (save_callback_log H n1 n2 q) =
     (case new_callback_detail (he_vld H) q of
        Inl e \<Rightarrow> (\<lambda>s. ((), s))
      | Inr d \<Rightarrow>
          (case must_new_task_log TaskLogTypeCallback (DCallback d) of
             Inl e \<Rightarrow> (\<lambda>s. ((), s))
           | Inr l \<Rightarrow> seq (task_logger_log (he_logs H) n1 n2 l) (\<lambda>x s. ((), s))))"
  by (rule ext) (auto simp: only_state_def save_callback_log_def seq_def split: prod.splits sum.splits)

lemma follows_logger [follow]:
  "follows S H (task_logger_log (mysql_log_repo replay_store) n1 n2 l) (task_logger_log (mysql_log_repo S) n1 n2 l)"
  unfolding task_logger_log_def mysql_log_repo_simps by (cases "tl_logType l"; simp) (intro follow)+

lemma follows_save_log:
  assumes "he_logs H = mysql_log_repo S"
  shows "follows S H (only_state (save_callback_log (replay_http H) n1 n2 q)) (only_state (save_callback_log H n1 n2 q))"
  unfolding save_callback_log_seq replay_http_simps assms by (intro follow follows_seq)

lemma callback_srv_seq:
  "callback_srv H rnd n1 n2 t =
     (case he_req_json H (callback_req t) of
        Inl e \<Rightarrow> throw_io e
      | Inr body \<Rightarrow>
          (case get_random_route rnd (t_callbackSrv t) of
             None \<Rightarrow> throw_io (Panic ''nil route'')
           | Some route \<Rightarrow>
               seq (req_prog H (he_resp_json H) (callback_input t route body) zero_callback_resp)
                 (\<lambda>x. case x of (a, resp) \<Rightarrow> (case a of (respRaw, callbackErr) \<Rightarrow>
                    seq (only_state (save_callback_log H n1 n2 (callback_log_req t route resp respRaw None)))
                      (\<lambda>u. lift_io (case callbackErr of Some e \<Rightarrow> Inl e
                         | None \<Rightarrow> Inr (new_callback_resp (hr_IsRunInAsync resp) (hr_IsSuccess resp) (hr_Extra resp))))))))"
  by (rule ext)
    (auto simp: callback_srv_def req_prog_def seq_def only_state_def split: prod.splits sum.splits option.splits)

lemma follows_callback:
  assumes "he_logs H = mysql_log_repo S"
  shows "follows S H (callback_srv (replay_http H) rnd n1 n2 t) (callback_srv H rnd n1 n2 t)"
  unfolding callback_srv_seq replay_http_simps by (intro follow follows_seq follows_save_log [OF assms])

lemma worker_seq:
  "on_db (worker_work (easytask_engine L S H jdet) d (JLock t)) =
     seq (lock_prog L S (dr_lock d) (dr_sched d) (dr_log d) t)
       (\<lambda>x. case x of (b, t') \<Rightarrow> (case b of Inl e \<Rightarrow> (\<lambda>s. ((None, []), s))
          | Inr locked \<Rightarrow> if \<not> locked then (\<lambda>s. ((None, []), s)) else (\<lambda>s. ((Some (JRun t' (dr_now d)), [t]), s))))"
  "on_db (worker_work (easytask_engine L S H jdet) d (JRun t n)) =
     seq (task_run (callback_srv H (dr_rnd d) (dr_cb1 d) (dr_cb2 d)) t)
       (\<lambda>x. case x of Inl e \<Rightarrow>
            (case new_internal_err_task_resp jdet (t_id t) e n of
               Inl e' \<Rightarrow> (\<lambda>s. ((None, []), s)) | Inr taskResp \<Rightarrow> (\<lambda>s. ((Some (JSubmit taskResp), []), s)))
          | Inr taskResp \<Rightarrow> (\<lambda>s. ((Some (JSubmit taskResp), []), s)))"
  "on_db (worker_work (easytask_engine L S H jdet) d (JSubmit r)) =
     seq (confirm_task S (mysql_log_repo S) (dr_confirm d) (dr_confirm_log d) r) (\<lambda>x s. ((None, []), s))"
  by (rule ext,
      auto simp: on_db_def world_of_def seq_def lock_prog_def split: prod.splits sum.splits)+

lemma follows_worker:
  assumes "he_logs H = mysql_log_repo S"
  shows "follows S H (worker_prog L H jdet d j) (on_db (worker_work (easytask_engine L S H jdet) d j))"
proof (cases j)
  case (JLock t)
  then show ?thesis by (simp only: worker_prog_def replay_engine_def worker_seq) (intro follow follows_seq)
next
  case (JRun t n)
  then show ?thesis
    by (simp only: worker_prog_def replay_engine_def worker_seq task_run_def)
      (intro follow follows_seq follows_callback [OF assms])
next
  case (JSubmit r)
  then show ?thesis by (simp only: worker_prog_def replay_engine_def worker_seq) (intro follow follows_seq)
qed

lemma sched_poll_seq:
  "sched_poll TR isMaster now cursor =
     (if \<not> isMaster then (\<lambda>s. (([], cursor), s))
      else seq (ir_TimeoutTasks TR now sched_size cursor)
        (\<lambda>x. case x of Inl e \<Rightarrow> (\<lambda>s. (([], cursor), s))
         | Inr y \<Rightarrow> (case y of (tasks, nextCursor) \<Rightarrow>
             if tasks = [] then (\<lambda>s. (([], []), s)) else (\<lambda>s. ((tasks, nextCursor), s)))))"
  by (rule ext) (auto simp: sched_poll_def seq_def split: prod.splits sum.splits)

lemma follows_poll:
  "follows S H (poll_prog L isMaster now cursor) (sched_poll (easytask_repo L S) isMaster now cursor)"
  unfolding poll_prog_def sched_poll_seq easytask_repo_simps by (intro follow follows_seq)

lemma check_page_seq:
  "check_page SR offset =
     seq (is_GetSrvs SR \<lparr>qs_opts = [QueryOptKeyEnabledHeathCheck], qs_limit = check_size, qs_offset = offset\<rparr>)
       (\<lambda>x. case x of Inl e \<Rightarrow> (\<lambda>s. (([], AtSelect), s))
        | Inr srvs \<Rightarrow> if srvs = [] then (\<lambda>s. (([], AtSelect), s))
            else (\<lambda>s. ((srvs, AtPage (wrap64 (offset + check_size))), s)))"
  by (rule ext) (auto simp: check_page_def seq_def split: prod.splits sum.splits)

lemma check_poll_seq:
  "check_poll SR isMaster pc =
     (case (case pc of AtSelect \<Rightarrow> if isMaster then Some 0 else None | AtPage offset \<Rightarrow> Some offset) of
        None \<Rightarrow> (\<lambda>s. (([], AtSelect), s)) | Some offset \<Rightarrow> check_page SR offset)"
  by (rule ext) (auto simp: check_poll_def split: check_pc.splits)

lemma follows_check:
  "follows S H (check_prog L isMaster pc) (check_poll (mysql_srv_repo L S) isMaster pc)"
  unfolding check_prog_def check_poll_seq check_page_seq mysql_srv_repo_simps by (intro follow follows_seq)

lemma record_seq:
  "only_state (record_pass SR now srv p) =
     (if hb_replyRoutes p \<noteq> [] then
        seq (is_SetSrvRoutesPassHealthCheck SR now (new_callback_srv (cs_id srv) (cs_name srv) (hb_replyRoutes p) True))
          (\<lambda>x s. ((), s))
      else (\<lambda>s. ((), s)))"
  "only_state (record_drop SR srv p) =
     (if hb_noReplyRoutes p \<noteq> [] then
        seq (is_DelSrvRoutes SR (new_callback_srv (cs_id srv) (cs_name srv) (hb_noReplyRoutes p) True)) (\<lambda>x s. ((), s))
      else (\<lambda>s. ((), s)))"
  by (rule ext, simp add: only_state_def record_pass_def record_drop_def seq_def split_beta)+

lemma follows_records:
  "follows S H (pass_prog L now srv p) (only_state (record_pass (mysql_srv_repo L S) now srv p))"
  "follows S H (drop_prog L srv p) (only_state (record_drop (mysql_srv_repo L S) srv p))"
  unfolding pass_prog_def drop_prog_def record_seq mysql_srv_repo_simps by (intro follow follows_seq)+

lemma serve_seq:
  "only_state (serve A (ReqAddTask now r1)) = seq (api_add_task A now r1) (\<lambda>x s. ((), s))"
  "only_state (serve A (ReqStopTask r2)) = seq (api_stop_task A r2) (\<lambda>x s. ((), s))"
  "only_state (serve A (ReqConfirmTask now nowLog r3)) = seq (api_confirm_task A now nowLog r3) (\<lambda>x s. ((), s))"
  "only_state (serve A (ReqRegister r4)) = seq (api_register A r4) (\<lambda>x s. ((), s))"
  "only_state (serve A (ReqUnregister r5)) = seq (api_unregister A r5) (\<lambda>x s. ((), s))"
  by (rule ext, simp add: only_state_def seq_def split_beta)+

lemmas service_defs = svc_add_task_def svc_stop_task_def svc_confirm_task_def svc_register_def svc_unregister_def
  discover_def register_srv_def unregister_srv_def Let_def

lemmas handler_defs = api_add_task_def api_stop_task_def api_confirm_task_def api_register_def api_unregister_def

lemma replay_api_simps [simp]:
  "ap_tasks (replay_api L A) = easytask_repo L replay_store" "ap_srvs (replay_api L A) = mysql_srv_repo L replay_store"
  "ap_vld (replay_api L A) = ap_vld A" "ap_copy_stop (replay_api L A) = ap_copy_stop A"
  "ap_copy_confirm (replay_api L A) = ap_copy_confirm A" "ap_copy_register (replay_api L A) = ap_copy_register A"
  "ap_copy_unregister (replay_api L A) = ap_copy_unregister A"
  by (simp_all add: replay_api_def)

lemma follows_services:
  assumes "ap_tasks A = easytask_repo L S" "ap_srvs A = mysql_srv_repo L S"
  shows "follows S H (svc_add_task (replay_api L A) now r1) (svc_add_task A now r1)"
    "follows S H (svc_stop_task (replay_api L A) r2) (svc_stop_task A r2)"
    "follows S H (svc_confirm_task (replay_api L A) now nowLog r3) (svc_confirm_task A now nowLog r3)"
    "follows S H (svc_register (replay_api L A) r4) (svc_register A r4)"
    "follows S H (svc_unregister (replay_api L A) r5) (svc_unregister A r5)"
  unfolding service_defs assms replay_api_simps easytask_repo_simps mysql_srv_repo_simps by (intro follow)+

lemma follows_serve:
  assumes "easytask_api L S A"
  shows "follows S H (serve_prog L A r) (only_state (serve A r))"
proof -
  have A: "ap_tasks A = easytask_repo L S" "ap_srvs A = mysql_srv_repo L S"
    using assms by (simp_all add: easytask_api_def)
  show ?thesis
    by (cases r; simp only: serve_prog_def serve_seq handler_defs replay_api_simps;
        intro follow follows_seq follows_services [OF A])
qed

section \<open>What a program may ask for\<close>

text \<open>
  The statements on the tables keep the keys and the marks, never remove a row, and never lower a run number.
\<close>

definition runs_payload :: "assign list \<Rightarrow> bool" where
  "runs_payload as \<longleftrightarrow>
     list_all (\<lambda>(f, e). f = DbFieldRunTimes \<longrightarrow> (case e of FieldPlus g n \<Rightarrow> g = DbFieldRunTimes \<and> 0 \<le> n | _ \<Rightarrow> False)) as"

fun harmless :: "call \<Rightarrow> bool" where
  "harmless (OnTask (SUpdates q as)) = (payload task_schema as \<and> runs_payload as)"
| "harmless (OnTask (SDelete q)) = (\<not> q_unscoped q)"
| "harmless (OnTask (SFirstOrCreate q x)) = (0 \<le> bm_DeletedAt x)"
| "harmless (OnTask (SFind q)) = True"
| "harmless (OnTask (STake q)) = True"
| "harmless (OnSrv (SUpdates q as)) = payload srv_schema as"
| "harmless (OnSrv (SDelete q)) = True"
| "harmless (OnSrv (SFirstOrCreate q x)) = (0 \<le> bm_DeletedAt x)"
| "harmless (OnSrv (SFind q)) = True"
| "harmless (OnSrv (STake q)) = True"
| "harmless (OnRoute (SUpdates q as)) = payload route_schema as"
| "harmless (OnRoute (SDelete q)) = True"
| "harmless (OnRoute (SFirstOrCreate q x)) = (0 \<le> bm_DeletedAt x)"
| "harmless (OnRoute (SFind q)) = True"
| "harmless (OnRoute (SCounts q as)) = True"
| "harmless (OnLog (SUpdates q as)) = payload log_schema as"
| "harmless (OnLog (SCreate x)) = (0 \<le> bm_DeletedAt x)"
| "harmless (OnNet url body timeout) = True"
| "harmless c = False"

definition polite :: "'x prog \<Rightarrow> bool" where
  "polite m \<longleftrightarrow> (\<forall>s c. (\<forall>d. rp_call s = Some d \<longrightarrow> harmless d) \<longrightarrow> rp_call (snd (m s)) = Some c \<longrightarrow> harmless c)"

lemma polite_outcome: "polite m \<Longrightarrow> outcome m as = Inl c \<Longrightarrow> harmless c"
  unfolding polite_def outcome_def
  by (drule spec [of _ "ready as"]) (auto split: prod.splits option.splits)

named_theorems polites "rules that show that a program asks for harmless statements only"

lemma polite_value [polites]: "polite (\<lambda>s. (x, s))"
  by (simp add: polite_def)

lemma polite_seq [polites]: "polite m \<Longrightarrow> (\<And>x. polite (k x)) \<Longrightarrow> polite (seq m k)"
  unfolding polite_def seq_def split_beta by blast

lemma polite_await: "harmless c \<Longrightarrow> polite (await c get other)"
  by (auto simp: polite_def await_def split: option.splits list.splits)

lemma polite_io [polites]:
  "polite (ret_io x)" "polite (throw_io e)" "polite (lift_io r)"
  unfolding ret_io_def throw_io_def lift_io_def by (rule polite_value)+

lemma polite_case_sum [polites]:
  "(\<And>e. polite (m e)) \<Longrightarrow> (\<And>x. polite (k x)) \<Longrightarrow> polite (case y of Inl e \<Rightarrow> m e | Inr x \<Rightarrow> k x)"
  by (cases y) simp_all

lemma polite_case_option [polites]:
  "polite m \<Longrightarrow> (\<And>x. polite (k x)) \<Longrightarrow> polite (case y of None \<Rightarrow> m | Some x \<Rightarrow> k x)"
  by (cases y) simp_all

lemma polite_case_list [polites]:
  "polite m \<Longrightarrow> (\<And>x xs. polite (k x xs)) \<Longrightarrow> polite (case y of [] \<Rightarrow> m | x # xs \<Rightarrow> k x xs)"
  by (cases y) simp_all

lemma polite_case_prod [polites]:
  "(\<And>a b. polite (k a b)) \<Longrightarrow> polite (case y of (a, b) \<Rightarrow> k a b)"
  by (cases y) simp_all

lemma polite_if [polites]:
  "(b \<Longrightarrow> polite m) \<Longrightarrow> (\<not> b \<Longrightarrow> polite n) \<Longrightarrow> polite (if b then m else n)"
  by simp

lemma polite_bind [polites]: "polite m \<Longrightarrow> (\<And>x. polite (k x)) \<Longrightarrow> polite (bind_io m k)"
  unfolding bind_io_seq by (intro polites)

lemma polite_store [polites]:
  "polite (op_find (st_task replay_store) q)" "polite (op_take (st_task replay_store) q)"
  "0 \<le> bm_DeletedAt x \<Longrightarrow> polite (op_first_or_create (st_task replay_store) q x)"
  "payload task_schema as \<Longrightarrow> runs_payload as \<Longrightarrow> polite (op_updates (st_task replay_store) q as)"
  "\<not> q_unscoped q \<Longrightarrow> polite (op_delete (st_task replay_store) q)"
  "polite (op_find (st_srv replay_store) q)" "polite (op_take (st_srv replay_store) q)"
  "0 \<le> bm_DeletedAt y \<Longrightarrow> polite (op_first_or_create (st_srv replay_store) q y)"
  "payload srv_schema as \<Longrightarrow> polite (op_updates (st_srv replay_store) q as)"
  "polite (op_delete (st_srv replay_store) q)"
  "polite (op_find (st_route replay_store) q)"
  "0 \<le> bm_DeletedAt z \<Longrightarrow> polite (op_first_or_create (st_route replay_store) q z)"
  "payload route_schema as \<Longrightarrow> polite (op_updates (st_route replay_store) q as)"
  "polite (op_delete (st_route replay_store) q)" "polite (op_counts (st_route replay_store) q aggs)"
  "0 \<le> bm_DeletedAt l \<Longrightarrow> polite (op_create (st_log replay_store) l)"
  "payload log_schema as \<Longrightarrow> polite (op_updates (st_log replay_store) q as)"
  by (simp_all add: replay_defs) (rule polite_await; simp)+

lemma polite_post [polites]: "polite (he_post (replay_http H) url body timeout)"
  by (simp add: replay_http_def) (rule polite_await; simp)

lemma runs_payload_simps [simp]:
  "runs_payload []"
  "runs_payload (a # as) \<longleftrightarrow> (fst a = DbFieldRunTimes \<longrightarrow>
     (case snd a of FieldPlus g n \<Rightarrow> g = DbFieldRunTimes \<and> 0 \<le> n | _ \<Rightarrow> False)) \<and> runs_payload as"
  by (auto simp: runs_payload_def split_beta)

declare log_sets_payload [simp]

lemma zero_rows_live [simp]:
  "bm_DeletedAt (new_task_row w m n t) = 0" "bm_DeletedAt (new_route_row w r) = 0"
  by (simp_all add: new_task_row_def new_route_row_def)

lemma polite_logs [polites]:
  "polite (save_task_started_log replay_store n1 d)" "polite (save_task_callback_log replay_store n1 n2 d')"
  "polite (save_task_confirmed_log replay_store n1 d'')"
  unfolding save_task_started_log_def save_task_callback_log_def save_task_confirmed_log_def
  by (intro polites; simp)+

lemma polite_get_srvs [polites]: "polite (get_srvs L replay_store qs)"
  unfolding get_srvs_def by (intro polites)

lemma polite_take_srv [polites]: "polite (take_srv replay_store name)"
  unfolding take_srv_seq by (intro polites)

lemma polite_add_route_rows [polites]: "polite (add_route_rows replay_store w routes b)"
proof (induction routes arbitrary: b)
  case (Cons r rs)
  show ?case unfolding add_route_rows.simps add_route_row_def by (intro polites Cons.IH) simp_all
qed (simp add: polites)

lemma polite_srv_ops [polites]:
  "polite (add_srv_routes replay_store srv)" "polite (del_srv_routes replay_store srv)"
  "polite (set_srv_routes_pass_health_check replay_store now srv)" "polite (get_srvs_by_ids L replay_store ids)"
  unfolding add_srv_routes_def add_srv_row_def del_srv_routes_def set_srv_routes_pass_health_check_def get_srvs_by_ids_def
  by (intro polites; simp)+

lemma readd_runs [simp]: "runs_payload (readd_sets w m n t r)"
  by (simp add: readd_sets_def)

lemma lock_sets_payload [simp]: "payload task_schema (lock_sets n m)" "runs_payload (lock_sets n m)"
  by (simp_all add: lock_sets_def)

lemma polite_task_ops [polites]:
  "polite (del_task_by_id replay_store i)" "polite (add_task L replay_store now t)"
  "polite (confirm_task replay_store (mysql_log_repo replay_store) n1 n2 p)"
  "polite (timeout_tasks L replay_store (mysql_srv_repo L replay_store) now lim cursor)"
  "polite (lock_prog L replay_store now nowSched nowLog t)"
  unfolding del_task_by_id_def add_task_def upsert_task_seq confirm_task_def timeout_tasks_def lock_prog_seq Let_def
    mysql_log_repo_simps mysql_srv_repo_simps
  by (intro polites; simp add: readd_payload)+

lemma polite_callback [polites]: "polite (callback_srv (replay_http H) rnd n1 n2 t)"
proof -
  have log: "polite (task_logger_log (mysql_log_repo replay_store) n1 n2 l)" for l
    unfolding task_logger_log_def mysql_log_repo_simps by (cases "tl_logType l"; simp) (intro polites)+
  show ?thesis
    unfolding callback_srv_seq req_prog_seq save_callback_log_seq replay_http_simps by (intro polites log)
qed

lemma polite_worker: "polite (worker_prog L H jdet d j)"
  by (cases j; simp only: worker_prog_def replay_engine_def worker_seq task_run_def; intro polites)

lemma polite_poll: "polite (poll_prog L isMaster now cursor)"
  unfolding poll_prog_def sched_poll_seq easytask_repo_simps by (intro polites)

lemma polite_check: "polite (check_prog L isMaster pc)"
  unfolding check_prog_def check_poll_seq check_page_seq mysql_srv_repo_simps by (intro polites)

lemma polite_records: "polite (pass_prog L now srv p)" "polite (drop_prog L srv p)"
  unfolding pass_prog_def drop_prog_def record_seq mysql_srv_repo_simps by (intro polites)+

lemma polite_services [polites]:
  "polite (svc_add_task (replay_api L A) now r1)" "polite (svc_stop_task (replay_api L A) r2)"
  "polite (svc_confirm_task (replay_api L A) now nowLog r3)" "polite (svc_register (replay_api L A) r4)"
  "polite (svc_unregister (replay_api L A) r5)"
  unfolding service_defs replay_api_simps easytask_repo_simps mysql_srv_repo_simps by (intro polites)+

lemma polite_serve: "polite (serve_prog L A r)"
  by (cases r; simp only: serve_prog_def serve_seq handler_defs; intro polites)

lemma outcome_await:
  assumes "\<And>x. quiet (k x)"
  shows "outcome (seq (await c get other) k) as = (case as of [] \<Rightarrow> Inl c | a # as' \<Rightarrow> outcome (k (get a)) as')"
proof (cases as)
  case Nil
  with outcome_seq_call [of "await c get other" "[]" c k, OF _ assms] show ?thesis
    by (simp add: outcome_def await_def)
next
  case (Cons a as')
  then show ?thesis by (simp add: outcome_def seq_def await_def ready_def)
qed

lemma outcome_value [simp]: "outcome (\<lambda>s. (x, s)) as = Inr x"
  by (simp add: outcome_def)

lemma outcome_seq_value: "outcome (seq m (\<lambda>x s. (f x, s))) as = map_sum id f (outcome m as)"
  by (simp add: outcome_def seq_def split: prod.splits option.splits)

lemma quiet_value [simp]: "quiet (\<lambda>s. (x, s))"
  by (simp add: quiet_def)

text \<open>Where \<open>LockTask\<close> is after the replies it got.\<close>

lemma lock_outcome:
  "outcome (worker_prog L H jdet d (JLock t)) as =
     (case get_sched_next_at (lb_cron L) (dr_sched d) t of
        Inl e \<Rightarrow> Inr (None, [])
      | Inr schedNextAt \<Rightarrow>
          (case checkedTaskModelId (t_id t) of
             Inl e \<Rightarrow> Inr (None, [])
           | Inr w \<Rightarrow>
               (case as of
                  [] \<Rightarrow> Inl (OnTask (SUpdates (lock_query w t) (lock_sets (dr_lock d) schedNextAt)))
                | a # as' \<Rightarrow>
                    (case a of
                       RTask (ARows (Inr n)) \<Rightarrow>
                         if n = 0 then Inr (None, [])
                         else
                           (case outcome (save_task_started_log replay_store (dr_log d) \<lparr>sd_task = incr_run_times t\<rparr>) as' of
                              Inl c \<Rightarrow> Inl c
                            | Inr (Inl e) \<Rightarrow> Inr (None, [])
                            | Inr (Inr u) \<Rightarrow> Inr (Some (JRun (incr_run_times t) (dr_now d)), [t]))
                     | _ \<Rightarrow> Inr (None, [])))))"
proof (cases "get_sched_next_at (lb_cron L) (dr_sched d) t")
  case (Inl e)
  then show ?thesis
    unfolding worker_prog_def replay_engine_def worker_seq lock_prog_seq by (simp add: outcome_def seq_def)
next
  case nxt: (Inr schedNextAt)
  show ?thesis
  proof (cases "checkedTaskModelId (t_id t)")
    case (Inl e)
    with nxt show ?thesis
      unfolding worker_prog_def replay_engine_def worker_seq lock_prog_seq by (simp add: outcome_def seq_def)
  next
    case (Inr w)
    let ?log = "save_task_started_log replay_store (dr_log d) \<lparr>sd_task = incr_run_times t\<rparr>"
    let ?done = "\<lambda>y. case y of Inl e \<Rightarrow> (None, []) | Inr u \<Rightarrow> (Some (JRun (incr_run_times t) (dr_now d)), [t])"
    let ?k = "\<lambda>x. case x of Inl e \<Rightarrow> (\<lambda>s. ((None, []), s))
      | Inr n \<Rightarrow> if n = 0 then (\<lambda>s. ((None, []), s)) else seq ?log (\<lambda>y s. (?done y, s))"
    let ?c = "OnTask (SUpdates (lock_query w t) (lock_sets (dr_lock d) schedNextAt))"
    let ?get = "\<lambda>a. case (case a of RTask r \<Rightarrow> Some r | _ \<Rightarrow> None) of Some (ARows r) \<Rightarrow> r | _ \<Rightarrow> unasked"
    have prog: "worker_prog L H jdet d (JLock t) = seq (await ?c ?get unasked) ?k"
      unfolding worker_prog_def replay_engine_def worker_seq lock_prog_seq
      by (rule ext) (auto simp: nxt Inr replay_defs seq_def split: prod.splits sum.splits)
    have "quiet (?k x)" for x
      using follows_quiet [OF follows_logs(1)] by (auto split: sum.splits intro!: quiet_seq)
    from outcome_await [where k = ?k, OF this, of ?c ?get unasked as] prog
    have out: "outcome (worker_prog L H jdet d (JLock t)) as =
        (case as of [] \<Rightarrow> Inl ?c | a # as' \<Rightarrow> outcome (?k (?get a)) as')"
      by simp
    show ?thesis
    proof (cases as)
      case (Cons a as')
      with out nxt Inr show ?thesis
        by (simp add: unasked_def outcome_seq_value split: reply.splits table_reply.splits sum.splits)
    qed (use out nxt Inr in simp)
  qed
qed

section \<open>Properties\<close>

lemma follows_result:
  assumes "follows S H m f" "f s = (x, s')"
  obtains bs where "asks S H m [] s bs s'" "outcome m bs = Inr x"
proof -
  from assms obtain bs where bs: "asks S H m [] s bs s'" "\<forall>rest. m (ready (bs @ rest)) = (x, ready rest)"
    unfolding follows_def by blast
  from bs(2) [rule_format, of "[]"] have "outcome m bs = Inr x" by (simp add: outcome_def)
  with bs(1) that show thesis by blast
qed

text \<open>
  What the split into statements rests on: the recorded replies run the very definitions of the operations, so as long as
  nobody else works on the database the statements that a worker, a poll of the scheduler, a page of the health check or an API request asks for, executed one
  after the other, leave the same database and give the same result as the operation in one step.
\<close>

lemma statements_do_the_operation:
  assumes "he_logs H = mysql_log_repo S" "easytask_api L S A"
  shows "(\<forall>d j w j' w'. worker_work (easytask_engine L S H jdet) d j w = (j', w') \<longrightarrow>
      (\<exists>bs ts. asks S H (worker_prog L H jdet d j) [] (wo_db w) bs (wo_db w') \<and>
         outcome (worker_prog L H jdet d j) bs = Inr (j', ts) \<and> wo_started w' = wo_started w @ ts)) \<and>
    (\<forall>m n c s r s'. sched_poll (easytask_repo L S) m n c s = (r, s') \<longrightarrow>
      (\<exists>bs. asks S H (poll_prog L m n c) [] s bs s' \<and> outcome (poll_prog L m n c) bs = Inr r)) \<and>
    (\<forall>m pc s r s'. check_poll (mysql_srv_repo L S) m pc s = (r, s') \<longrightarrow>
      (\<exists>bs. asks S H (check_prog L m pc) [] s bs s' \<and> outcome (check_prog L m pc) bs = Inr r)) \<and>
    (\<forall>r s. \<exists>bs. asks S H (serve_prog L A r) [] s bs (serve A r s) \<and> outcome (serve_prog L A r) bs = Inr ())"
proof (intro conjI allI impI)
  fix d j w j' and w' :: "'a world"
  assume "worker_work (easytask_engine L S H jdet) d j w = (j', w')"
  then obtain ts s where ts: "on_db (worker_work (easytask_engine L S H jdet) d j) (wo_db w) = ((j', ts), s)"
    "w' = w\<lparr>wo_db := s, wo_started := wo_started w @ ts\<rparr>" by (auto simp: worker_work_on_db)
  obtain bs where "asks S H (worker_prog L H jdet d j) [] (wo_db w) bs s"
    "outcome (worker_prog L H jdet d j) bs = Inr (j', ts)"
    by (rule follows_result [OF follows_worker [OF assms(1)] ts(1)])
  with ts(2) show "\<exists>bs ts. asks S H (worker_prog L H jdet d j) [] (wo_db w) bs (wo_db w') \<and>
      outcome (worker_prog L H jdet d j) bs = Inr (j', ts) \<and> wo_started w' = wo_started w @ ts" by auto
next
  fix m n c s r s'
  assume "sched_poll (easytask_repo L S) m n c s = (r, s')"
  from follows_result [OF follows_poll this] show
    "\<exists>bs. asks S H (poll_prog L m n c) [] s bs s' \<and> outcome (poll_prog L m n c) bs = Inr r" by blast
next
  fix m pc s r s'
  assume "check_poll (mysql_srv_repo L S) m pc s = (r, s')"
  from follows_result [OF follows_check this] show
    "\<exists>bs. asks S H (check_prog L m pc) [] s bs s' \<and> outcome (check_prog L m pc) bs = Inr r" by blast
next
  fix r s
  have "only_state (serve A r) s = ((), serve A r s)" by (simp add: only_state_def)
  from follows_result [OF follows_serve [OF assms(2)] this] show
    "\<exists>bs. asks S H (serve_prog L A r) [] s bs (serve A r s) \<and> outcome (serve_prog L A r) bs = Inr ()" by blast
qed

lemma statements_do_the_operation_witness:
  "\<exists>bs. asks mem_store demo_http (worker_prog ref_libs demo_http demo_jdet demo_draws (JLock demo_task)) [] demo_mem bs
      (wo_db demo_locked) \<and>
    outcome (worker_prog ref_libs demo_http demo_jdet demo_draws (JLock demo_task)) bs =
      Inr (Some (JRun (incr_run_times demo_task) 1000), [demo_task])"
proof -
  have logs: "he_logs demo_http = mysql_log_repo mem_store" by (simp add: demo_http_def)
  have "fst (worker_work demo_engine demo_draws (JLock demo_task) (world_of demo_mem)) =
      Some (JRun (incr_run_times demo_task) 1000)" by code_simp
  then have run: "worker_work (easytask_engine ref_libs mem_store demo_http demo_jdet) demo_draws (JLock demo_task)
      (world_of demo_mem) = (Some (JRun (incr_run_times demo_task) 1000), demo_locked)"
    by (simp add: demo_locked_def prod_eq_iff demo_engine_def)
  have "wo_started demo_locked = [demo_task]" by code_simp
  with statements_do_the_operation [OF logs ref_is_easytask_api, THEN conjunct1, rule_format, OF run]
  show ?thesis by (auto simp: world_of_def)
qed

end
