(* ===== verification/Stmt_Safe.thy ===== *)
theory Stmt_Safe
  imports Stmt_Programs
begin

text \<open>
  What a harmless statement does to the database: it keeps the tables well-formed and lowers no run number, for every
  store that meets the contract.
\<close>

section \<open>Harmless statements\<close>

lemma set_runs_le:
  assumes "runs_payload as" "tm_RunTimes r0 \<le> tm_RunTimes r"
  shows "tm_RunTimes r0 \<le> tm_RunTimes (fold (\<lambda>(f, e) x. sc_set task_schema f (eval_expr task_schema r0 e) x) as r)"
  using assms
proof (induction as arbitrary: r)
  case (Cons a as)
  obtain f e where a: "a = (f, e)" by (cases a)
  have "tm_RunTimes r0 \<le> tm_RunTimes (sc_set task_schema f (eval_expr task_schema r0 e) r)"
  proof (cases "f = DbFieldRunTimes")
    case True
    with Cons.prems a show ?thesis by (cases e) auto
  next
    case False
    have "tm_RunTimes (task_set f v r) = tm_RunTimes r" for v
      using False by (cases f) (simp_all add: task_set_def base_set_def)
    with Cons.prems show ?thesis by (simp add: task_schema_def)
  qed
  with Cons a show ?case by simp
qed simp

lemma upd_row_runs: "runs_payload as \<Longrightarrow> tm_RunTimes r \<le> tm_RunTimes (upd_row task_schema now as r)"
  using set_runs_le [of as r r] by (simp add: upd_row_def apply_sets_def)

lemma apfst_eqE:
  assumes "apfst f p = (a, s)"
  obtains r where "p = (r, s)" "a = f r"
  using assms by (cases p) auto

context easytask_node
begin

lemma node_le_rows:
  assumes "inv_db s" "inv_db s'"
    and "\<And>r. r \<in> set (tb_task (view s)) \<Longrightarrow>
      \<exists>r' \<in> set (tb_task (view s')). bm_Id r' = bm_Id r \<and> tm_RunTimes r \<le> tm_RunTimes r'"
  shows "node_le s s'"
proof -
  have "\<exists>k'. run_no (view s') w = Some k' \<and> k \<le> k'" if "run_no (view s) w = Some k" for w k
    using that assms(3) run_no_iff [OF assms(1)] run_no_iff [OF assms(2)] by fastforce
  with assms(2) show ?thesis by (simp add: runner.db_le_def runs_le_def)
qed

lemma harmless_task:
  assumes "harmless (OnTask x)" "inv_db s" "exec_table (st_task S) x s = (a, s')"
  shows "node_le s s'"
proof (cases x)
  case (SFind q)
  with assms obtain r where r: "op_find (st_task S) q s = (r, s')" by (auto elim: apfst_eqE)
  then have "view s' = view s" by (cases r) (auto dest: stmt_err task_find)
  with assms(2) show ?thesis by (rule node_le_view)
next
  case (STake q)
  with assms obtain r where r: "op_take (st_task S) q s = (r, s')" by (auto elim: apfst_eqE)
  then have "view s' = view s" by (cases r) (auto dest: stmt_err task_take)
  with assms(2) show ?thesis by (rule node_le_view)
next
  case (SFirstOrCreate q y)
  with assms obtain r where r: "op_first_or_create (st_task S) q y s = (r, s')" "0 \<le> bm_DeletedAt y"
    by (auto elim: apfst_eqE)
  have inv: "inv_db s'" by (rule pres_ioD [OF pres_task_foc [OF r(2)] r(1) assms(2)])
  have "set (tb_task (view s)) \<subseteq> set (tb_task (view s'))"
    using r(1) by (cases r) (auto dest: stmt_err elim!: task_first_or_create)
  with node_le_rows [OF assms(2) inv] show ?thesis by blast
next
  case (SUpdates q as)
  with assms obtain r where r: "op_updates (st_task S) q as s = (r, s')" "payload task_schema as" "runs_payload as"
    by (auto elim: apfst_eqE)
  have inv: "inv_db s'" by (rule pres_ioD [OF pres_task_updates [OF r(2)] r(1) assms(2)])
  show ?thesis
  proof (rule node_le_rows [OF assms(2) inv])
    fix y
    assume y: "y \<in> set (tb_task (view s))"
    show "\<exists>r' \<in> set (tb_task (view s')). bm_Id r' = bm_Id y \<and> tm_RunTimes y \<le> tm_RunTimes r'"
    proof (cases r)
      case (Inl e)
      with r(1) have "view s' = view s" by (auto dest: stmt_err)
      with y show ?thesis by auto
    next
      case (Inr n)
      let ?y = "if selected co task_schema q y then upd_row task_schema (clk s) as y else y"
      have "?y \<in> set (tb_task (view s'))" using task_updates [OF r(1) [unfolded Inr]] y by (auto simp: upd_rows_def)
      moreover have "bm_Id ?y = bm_Id y \<and> tm_RunTimes y \<le> tm_RunTimes ?y"
        by (simp add: upd_row_id [OF task_schema_ok r(2)] upd_row_runs [OF r(3)])
      ultimately show ?thesis by blast
    qed
  qed
next
  case (SDelete q)
  with assms obtain r where r: "op_delete (st_task S) q s = (r, s')" "\<not> q_unscoped q"
    by (auto elim: apfst_eqE)
  have inv: "inv_db s'" by (rule pres_ioD [OF pres_deletes(1) r(1) assms(2)])
  show ?thesis
  proof (cases r)
    case (Inl e)
    with r(1) have "view s' = view s" by (auto dest: stmt_err)
    with assms(2) show ?thesis by (rule node_le_view)
  next
    case (Inr n)
    have "tb_task (view s') = del_rows co task_schema (clk s) q (tb_task (view s))"
      using task_delete [OF r(1) [unfolded Inr]] by simp
    then have rows: "(if selected co task_schema q y then y\<lparr>bm_DeletedAt := clk s\<rparr> else y) \<in> set (tb_task (view s'))"
      if "y \<in> set (tb_task (view s))" for y
      using r(2) that by (auto simp: del_rows_def)
    show ?thesis
    proof (rule node_le_rows [OF assms(2) inv])
      fix y
      assume "y \<in> set (tb_task (view s))"
      from rows [OF this] show "\<exists>r' \<in> set (tb_task (view s')). bm_Id r' = bm_Id y \<and> tm_RunTimes y \<le> tm_RunTimes r'"
        by (rule rev_bexI) simp
    qed
  qed
qed (use assms in simp_all)

lemma frame_le:
  assumes "pres_io inv_db m" "\<And>A B. pres_io (task_log_are A B) m" "inv_db s" "m s = (r, s')"
  shows "node_le s s'"
  using pres_ioD [OF pres_srv_le [OF assms(1,2), of s] assms(4)] node_le_view [OF assms(3) refl] by blast

lemma harmless_srv:
  assumes "harmless (OnSrv x)" "inv_db s" "exec_table (st_srv S) x s = (a, s')"
  shows "node_le s s'"
proof (cases x)
  case (SFind q)
  with assms(3) obtain r where "op_find (st_srv S) q s = (r, s')" by (auto elim: apfst_eqE)
  then show ?thesis by (rule frame_le [OF pres_reads(2) pres_srv_frame(8) assms(2)])
next
  case (STake q)
  with assms(3) obtain r where "op_take (st_srv S) q s = (r, s')" by (auto elim: apfst_eqE)
  then have "view s' = view s" by (cases r) (auto dest: stmt_err srv_take)
  with assms(2) show ?thesis by (rule node_le_view)
next
  case (SFirstOrCreate q y)
  with assms obtain r where "op_first_or_create (st_srv S) q y s = (r, s')" "0 \<le> bm_DeletedAt y"
    by (auto elim: apfst_eqE)
  then show ?thesis by (intro frame_le [OF pres_srv_foc pres_srv_frame(5) assms(2)])
next
  case (SUpdates q as)
  with assms obtain r where "op_updates (st_srv S) q as s = (r, s')" "payload srv_schema as" by (auto elim: apfst_eqE)
  then show ?thesis by (intro frame_le [OF pres_srv_updates pres_srv_frame(1) assms(2)])
next
  case (SDelete q)
  with assms obtain r where "op_delete (st_srv S) q s = (r, s')" by (auto elim: apfst_eqE)
  then show ?thesis by (rule frame_le [OF pres_deletes(2) pres_srv_frame(3) assms(2)])
qed (use assms in simp_all)

lemma harmless_route:
  assumes "harmless (OnRoute x)" "inv_db s" "exec_table (st_route S) x s = (a, s')"
  shows "node_le s s'"
proof (cases x)
  case (SFind q)
  with assms(3) obtain r where "op_find (st_route S) q s = (r, s')" by (auto elim: apfst_eqE)
  then show ?thesis by (rule frame_le [OF pres_reads(3) pres_srv_frame(9) assms(2)])
next
  case (SFirstOrCreate q y)
  with assms obtain r where "op_first_or_create (st_route S) q y s = (r, s')" "0 \<le> bm_DeletedAt y"
    by (auto elim: apfst_eqE)
  then show ?thesis by (intro frame_le [OF pres_route_foc pres_srv_frame(6) assms(2)])
next
  case (SUpdates q as)
  with assms obtain r where "op_updates (st_route S) q as s = (r, s')" "payload route_schema as" by (auto elim: apfst_eqE)
  then show ?thesis by (intro frame_le [OF pres_route_updates pres_srv_frame(2) assms(2)])
next
  case (SDelete q)
  with assms obtain r where "op_delete (st_route S) q s = (r, s')" by (auto elim: apfst_eqE)
  then show ?thesis by (rule frame_le [OF pres_deletes(3) pres_srv_frame(4) assms(2)])
next
  case (SCounts q as)
  with assms obtain r where "op_counts (st_route S) q as s = (r, s')" by (auto elim: apfst_eqE)
  then show ?thesis by (rule frame_le [OF pres_reads(6) pres_srv_frame(7) assms(2)])
qed (use assms in simp_all)

lemma harmless_log:
  assumes "harmless (OnLog x)" "inv_db s" "exec_table (st_log S) x s = (a, s')"
  shows "node_le s s'"
proof -
  have "inv_db s' \<and> tb_task (view s') = tb_task (view s)"
  proof (cases x)
    case (SCreate y)
    with assms obtain r where r: "op_create (st_log S) y s = (r, s')" "0 \<le> bm_DeletedAt y" by (auto elim: apfst_eqE)
    with pres_ioD [OF pres_log_create [OF r(2)] r(1) assms(2)] show ?thesis
      by (cases r) (auto dest: stmt_err elim!: log_create)
  next
    case (SUpdates q as)
    with assms obtain r where r: "op_updates (st_log S) q as s = (r, s')" "payload log_schema as" by (auto elim: apfst_eqE)
    with pres_ioD [OF pres_log_updates [OF r(2)] r(1) assms(2)] show ?thesis
      by (cases r) (auto dest: stmt_err dest!: log_updates)
  qed (use assms in simp_all)
  then show ?thesis by (intro node_le_tasks) simp_all
qed

lemma harmless_le:
  assumes "harmless c" "inv_db s" "exec_call S H c s = (a, s')"
  shows "node_le s s'"
proof (cases c)
  case (OnTask x)
  with assms(1,3) harmless_task [OF _ assms(2)] show ?thesis by (auto elim!: apfst_eqE)
next
  case (OnSrv x)
  with assms(1,3) harmless_srv [OF _ assms(2)] show ?thesis by (auto elim!: apfst_eqE)
next
  case (OnRoute x)
  with assms(1,3) harmless_route [OF _ assms(2)] show ?thesis by (auto elim!: apfst_eqE)
next
  case (OnLog x)
  with assms(1,3) harmless_log [OF _ assms(2)] show ?thesis by (auto elim!: apfst_eqE)
next
  case (OnNet url body timeout)
  with assms(3) sys_net have "view s' = view s" by (auto simp: net_law_def elim!: apfst_eqE)
  with assms(2) show ?thesis by (rule node_le_view)
qed (use assms in simp_all)

end

end
