(* ===== verification/Stmt_Cluster.thy ===== *)
theory Stmt_Cluster
  imports Stmt_Safe
begin

text \<open>
  The cluster of \<open>Cluster\<close> at the granularity of statements: the goroutines of the engines and of the registries are
  the same (\<open>pool_step\<close>), but a poll, a job or a request takes one step per call that it makes of GORM or of HTTP, and
  any number of others may work on the database in between. A health check as a whole is one step, as it makes
  requests only. The clock is read before the first call of an operation.

  \<open>wo_granted\<close> is a second ghost: the tasks whose lock was granted by the statement, as \<open>wo_started\<close> holds those whose
  worker was told so and goes on to run the task.
\<close>

section \<open>Engines\<close>

record 's gworld = "'s world" +
  wo_granted :: "task list"

text \<open>A job before its first call, or in the middle with the replies it got.\<close>

datatype stmt_job = SAt job | SIn draws job "reply list"

datatype stmt_sched = STop string | SPoll bool int string "reply list"

text \<open>The lock that a job was granted and has not told anybody of: the reply to its \<open>UPDATE\<close>.\<close>

fun held :: "job \<Rightarrow> reply list \<Rightarrow> task list" where
  "held (JLock t) (RTask (ARows (Inr n)) # as) = (if n = 0 then [] else [t])"
| "held j as = []"

record 's node_libs =
  nl_libs :: libs
  nl_store :: "'s store"
  nl_http :: "'s http_env"
  nl_jdet :: "internal_err_detail \<Rightarrow> go_err + string"

fun stmt_work :: "'s node_libs \<Rightarrow> draws \<Rightarrow> stmt_job \<Rightarrow> 's gworld \<Rightarrow> stmt_job option \<times> 's gworld" where
  "stmt_work X d (SAt j) w = (Some (SIn d j []), w)"
| "stmt_work X d (SIn d' j as) w =
     (case advance (nl_store X) (nl_http X) (worker_prog (nl_libs X) (nl_http X) (nl_jdet X) d' j) as (wo_db w) of
        (Inl bs, s) \<Rightarrow>
          (Some (SIn d' j bs),
           w\<lparr>wo_db := s, wo_granted := wo_granted w @ (if held j as = [] then held j bs else [])\<rparr>)
      | (Inr (j', ts), s) \<Rightarrow> (map_option SAt j', w\<lparr>wo_db := s, wo_started := wo_started w @ ts\<rparr>))"

fun stmt_poll :: "'s node_libs \<Rightarrow> bool \<Rightarrow> int \<Rightarrow> stmt_sched \<Rightarrow> 's gworld \<Rightarrow> (task list \<times> stmt_sched) \<times> 's gworld" where
  "stmt_poll X isMaster now (STop cursor) w = (([], SPoll isMaster now cursor []), w)"
| "stmt_poll X isMaster now (SPoll m n cursor as) w =
     (case advance (nl_store X) (nl_http X) (poll_prog (nl_libs X) m n cursor) as (wo_db w) of
        (Inl bs, s) \<Rightarrow> (([], SPoll m n cursor bs), w\<lparr>wo_db := s\<rparr>)
      | (Inr (tasks, cursor'), s) \<Rightarrow> ((tasks, STop cursor'), w\<lparr>wo_db := s\<rparr>))"

definition at_top :: "stmt_sched \<Rightarrow> bool" where
  "at_top pc = (case pc of STop cursor \<Rightarrow> True | SPoll m n cursor as \<Rightarrow> False)"

definition stmt_task_pool :: "'s node_libs \<Rightarrow> ('s gworld, stmt_sched, task, stmt_job) pool_env" where
  "stmt_task_pool X =
     \<lparr>pe_select = at_top,
      pe_poll = (\<lambda>w pc tasks pc' w'. \<exists>isMaster now. stmt_poll X isMaster now pc w = ((tasks, pc'), w')),
      pe_accept = (\<lambda>t. map_option SAt (worker_accept t)),
      pe_work = (\<lambda>w j j' w'. \<exists>d. stmt_work X d j w = (j', w')),
      pe_stop = engine_stop, pe_first = True\<rparr>"

section \<open>Registries\<close>

datatype stmt_check_pc = CAt check_pc | CIn bool check_pc "reply list"

datatype stmt_check_job =
    SBeat callback_srv
  | SPass int callback_srv heart_beat_resp "reply list"
  | SDrop callback_srv heart_beat_resp "reply list"

fun stmt_check :: "'s node_libs \<Rightarrow> bool \<Rightarrow> stmt_check_pc \<Rightarrow> 's \<Rightarrow> (callback_srv list \<times> stmt_check_pc) \<times> 's" where
  "stmt_check X isMaster (CAt pc) s = (([], CIn isMaster pc []), s)"
| "stmt_check X isMaster (CIn m pc as) s =
     (case advance (nl_store X) (nl_http X) (check_prog (nl_libs X) m pc) as s of
        (Inl bs, s') \<Rightarrow> (([], CIn m pc bs), s')
      | (Inr (srvs, pc'), s') \<Rightarrow> ((srvs, CAt pc'), s'))"

inductive stmt_check_work :: "'s node_libs \<Rightarrow> 's \<Rightarrow> stmt_check_job \<Rightarrow> stmt_check_job option \<Rightarrow> 's \<Rightarrow> bool" for X where
  beat_err: "heart_beat (nl_http X) srv s (Inl e) s' \<Longrightarrow> stmt_check_work X s (SBeat srv) None s'"
| beat: "heart_beat (nl_http X) srv s (Inr p) s' \<Longrightarrow> stmt_check_work X s (SBeat srv) (Some (SPass now srv p [])) s'"
| pass: "advance (nl_store X) (nl_http X) (pass_prog (nl_libs X) now srv p) as s = (r, s') \<Longrightarrow>
    stmt_check_work X s (SPass now srv p as)
      (Some (case r of Inl bs \<Rightarrow> SPass now srv p bs | Inr u \<Rightarrow> SDrop srv p [])) s'"
| drop: "advance (nl_store X) (nl_http X) (drop_prog (nl_libs X) srv p) as s = (r, s') \<Longrightarrow>
    stmt_check_work X s (SDrop srv p as) (case r of Inl bs \<Rightarrow> Some (SDrop srv p bs) | Inr u \<Rightarrow> None) s'"

definition stmt_registry_pool :: "'s node_libs \<Rightarrow> ('s, stmt_check_pc, callback_srv, stmt_check_job) pool_env" where
  "stmt_registry_pool X =
     \<lparr>pe_select = (\<lambda>pc. pc = CAt AtSelect),
      pe_poll = (\<lambda>s pc srvs pc' s'. \<exists>isMaster. stmt_check X isMaster pc s = ((srvs, pc'), s')),
      pe_accept = (\<lambda>srv. Some (SBeat srv)),
      pe_work = stmt_check_work X,
      pe_stop = registry_stop, pe_first = False\<rparr>"

section \<open>The cluster\<close>

text \<open>A request on its way is itself with the replies it got; an answered one is \<open>None\<close>.\<close>

record 's stmt_cluster =
  sc_engines :: "(stmt_sched, task, stmt_job) pool list"
  sc_registries :: "(stmt_check_pc, callback_srv, stmt_check_job) pool list"
  sc_requests :: "(request \<times> reply list) option list"
  sc_world :: "'s gworld"

inductive stmt_cluster_step :: "'s node_libs \<Rightarrow> 's api \<Rightarrow> 's stmt_cluster \<Rightarrow> 's stmt_cluster \<Rightarrow> bool" for X A where
  engine: "k < length (sc_engines c) \<Longrightarrow>
    pool_step (stmt_task_pool X) (sc_engines c ! k, sc_world c) (q, w') \<Longrightarrow>
    stmt_cluster_step X A c (c\<lparr>sc_engines := (sc_engines c)[k := q], sc_world := w'\<rparr>)"
| registry: "k < length (sc_registries c) \<Longrightarrow>
    pool_step (stmt_registry_pool X) (sc_registries c ! k, wo_db (sc_world c)) (q, s') \<Longrightarrow>
    stmt_cluster_step X A c
      (c\<lparr>sc_registries := (sc_registries c)[k := q], sc_world := (sc_world c)\<lparr>wo_db := s'\<rparr>\<rparr>)"
| arrive: "stmt_cluster_step X A c (c\<lparr>sc_requests := sc_requests c @ [Some (r, [])]\<rparr>)"
| request: "k < length (sc_requests c) \<Longrightarrow> sc_requests c ! k = Some (r, as) \<Longrightarrow>
    advance (nl_store X) (nl_http X) (serve_prog (nl_libs X) A r) as (wo_db (sc_world c)) = (x, s') \<Longrightarrow>
    stmt_cluster_step X A c
      (c\<lparr>sc_requests := (sc_requests c)[k := case x of Inl bs \<Rightarrow> Some (r, bs) | Inr u \<Rightarrow> None],
         sc_world := (sc_world c)\<lparr>wo_db := s'\<rparr>\<rparr>)"

definition stmt_cluster_init :: "nat \<Rightarrow> nat \<Rightarrow> nat \<Rightarrow> 's \<Rightarrow> 's stmt_cluster" where
  "stmt_cluster_init nodes workers checkers s =
     \<lparr>sc_engines = replicate nodes (pool_init (worker_pool_size workers) (STop [])),
      sc_registries = replicate nodes (pool_init (check_worker_pool_size checkers) (CAt AtSelect)),
      sc_requests = [], sc_world = \<lparr>wo_db = s, wo_started = [], wo_granted = []\<rparr>\<rparr>"

text \<open>The locks that are granted and on their way to the worker.\<close>

fun worker_held :: "stmt_job worker \<Rightarrow> task list" where
  "worker_held (Busy (SIn d j as)) = held j as"
| "worker_held x = []"

definition pool_held :: "(stmt_sched, task, stmt_job) pool \<Rightarrow> task list" where
  "pool_held p = concat (map worker_held (pl_workers p))"

definition cluster_held :: "'s stmt_cluster \<Rightarrow> task list" where
  "cluster_held c = concat (map pool_held (sc_engines c))"

definition granted_ledger :: "('s \<Rightarrow> u64 \<Rightarrow> int option) \<Rightarrow> 's gworld \<Rightarrow> ledger" where
  "granted_ledger runs w = \<lparr>lg_runs = runs (wo_db w), lg_started = map start_key (wo_granted w)\<rparr>"

section \<open>Lemmas\<close>

lemma stmt_init: "cluster_held (stmt_cluster_init nodes workers checkers s) = []"
  by (simp add: stmt_cluster_init_def cluster_held_def pool_held_def pool_init_def)

lemma stmt_task_pool_simps [simp]:
  "pe_select (stmt_task_pool X) = at_top" "pe_accept (stmt_task_pool X) t = map_option SAt (worker_accept t)"
  "pe_poll (stmt_task_pool X) w pc tasks pc' w' \<longleftrightarrow> (\<exists>isMaster now. stmt_poll X isMaster now pc w = ((tasks, pc'), w'))"
  "pe_work (stmt_task_pool X) w j j' w' \<longleftrightarrow> (\<exists>d. stmt_work X d j w = (j', w'))"
  by (simp_all add: stmt_task_pool_def)

lemma stmt_registry_pool_simps [simp]:
  "pe_poll (stmt_registry_pool X) s pc srvs pc' s' \<longleftrightarrow> (\<exists>isMaster. stmt_check X isMaster pc s = ((srvs, pc'), s'))"
  "pe_work (stmt_registry_pool X) = stmt_check_work X"
  by (simp_all add: stmt_registry_pool_def)

lemma distinct_part:
  assumes "mset xs \<subseteq># mset ys" "distinct ys"
  shows "distinct xs"
proof -
  obtain zs where "mset ys = mset (xs @ zs)"
    using assms(1) ex_mset by (metis mset_append subset_mset.le_iff_add)
  from mset_eq_imp_distinct_iff [OF this] assms(2) show ?thesis by simp
qed

text \<open>What is told to workers was granted: a step tells no more than it takes from what is held.\<close>

definition accounts :: "'s gworld \<Rightarrow> task list \<Rightarrow> 's gworld \<Rightarrow> task list \<Rightarrow> bool" where
  "accounts w hs w' hs' \<longleftrightarrow>
     (\<exists>new. wo_granted w' = wo_granted w @ new \<and>
        mset (wo_started w') + mset hs' \<subseteq># mset (wo_started w) + mset hs + mset new)"

lemma accounts_same: "wo_granted w' = wo_granted w \<Longrightarrow> wo_started w' = wo_started w \<Longrightarrow> hs' = hs \<Longrightarrow> accounts w hs w' hs'"
  by (auto simp: accounts_def)

lemma accounts_update:
  assumes "k < length xs" "accounts w (f (xs ! k)) w' (f y)"
  shows "accounts w (concat (map f xs)) w' (concat (map f (xs[k := y])))"
proof -
  let ?rest = "mset (concat (map f (take k xs))) + mset (concat (map f (drop (Suc k) xs)))"
  have "xs = take k xs @ xs ! k # drop (Suc k) xs" using assms(1) by (rule id_take_nth_drop)
  from arg_cong [OF this, of "\<lambda>l. mset (concat (map f l))"]
  have old: "mset (concat (map f xs)) = ?rest + mset (f (xs ! k))" by simp
  have new: "mset (concat (map f (xs[k := y]))) = ?rest + mset (f y)"
    using assms(1) by (simp add: upd_conv_take_nth_drop)
  from assms(2) obtain ts where ts: "wo_granted w' = wo_granted w @ ts"
    "mset (wo_started w') + mset (f y) \<subseteq># mset (wo_started w) + mset (f (xs ! k)) + mset ts"
    by (auto simp: accounts_def)
  from subset_mset.add_left_mono [OF ts(2), of ?rest] old new ts(1) show ?thesis
    by (auto simp: accounts_def ac_simps)
qed

lemma held_first: "as \<noteq> [] \<Longrightarrow> held j (as @ bs) = held j as"
  by (induction j as rule: held.induct) auto

lemma held_none [simp]: "held j [] = []"
  by simp

lemma held_grant:
  assumes "held j [a] \<noteq> []"
  obtains t n where "j = JLock t" "a = RTask (ARows (Inr n))" "n \<noteq> 0" "held j [a] = [t]"
  using assms by (induction j "[a]" rule: held.induct) (auto split: if_splits)

lemma no_start: "on_db (worker_work N d j) s = ((j', ts), s') \<Longrightarrow> \<forall>t. j \<noteq> JLock t \<Longrightarrow> ts = []"
  by (cases j) (auto simp: on_db_def world_of_def split: prod.splits sum.splits)

text \<open>A worker is told of a start only when it holds the lock.\<close>

lemma told_is_held:
  assumes "outcome (worker_prog L H jdet d j) as = Inr (j', ts)"
  shows "mset ts \<subseteq># mset (held j as)"
proof (cases "\<exists>t. j = JLock t")
  case True
  with assms show ?thesis
    by (auto simp: lock_outcome split: sum.splits list.splits reply.splits table_reply.splits if_splits)
next
  case False
  with assms show ?thesis
    by (auto simp: outcome_def worker_prog_def split: prod.splits option.splits dest: no_start)
qed

definition easytask_libs ::
    "libs \<Rightarrow> 's store \<Rightarrow> 's http_env \<Rightarrow> (internal_err_detail \<Rightarrow> go_err + string) \<Rightarrow> 's node_libs" where
  "easytask_libs L S H jdet = \<lparr>nl_libs = L, nl_store = S, nl_http = H, nl_jdet = jdet\<rparr>"

lemma easytask_libs_simps [simp]:
  "nl_libs (easytask_libs L S H jdet) = L" "nl_store (easytask_libs L S H jdet) = S"
  "nl_http (easytask_libs L S H jdet) = H" "nl_jdet (easytask_libs L S H jdet) = jdet"
  by (simp_all add: easytask_libs_def)

context easytask_node
begin

abbreviation grants :: "'a gworld \<Rightarrow> ledger" where
  "grants w \<equiv> granted_ledger (\<lambda>db. run_no (view db)) w"

definition ok_step :: "'a gworld \<Rightarrow> 'a gworld \<Rightarrow> bool" where
  "ok_step w w' \<longleftrightarrow> inv_db (wo_db w') \<and> ledger_step (grants w) (grants w')"

lemma ok_step_db:
  assumes "node_le (wo_db w) (wo_db w')" "wo_granted w' = wo_granted w"
  shows "ok_step w w'"
proof -
  have "ledger_step (grants w) ((grants w)\<lparr>lg_runs := run_no (view (wo_db w'))\<rparr>)"
    by (rule ledger_step.other) (use assms in \<open>simp add: granted_ledger_def runner.db_le_def\<close>)
  with assms show ?thesis by (simp add: ok_step_def granted_ledger_def runner.db_le_def)
qed

lemma ok_step_same: "inv_db (wo_db w) \<Longrightarrow> wo_db w' = wo_db w \<Longrightarrow> wo_granted w' = wo_granted w \<Longrightarrow> ok_step w w'"
  by (rule ok_step_db) (simp_all add: node_le_view)

text \<open>A call of a polite program is harmless.\<close>

lemma advance_le:
  assumes "polite m" "advance S H m as s = (x, s')" "inv_db s"
  shows "node_le s s'"
proof (cases "outcome m as")
  case (Inl c)
  with assms(2) obtain a where "exec_call S H c s = (a, s')" by (auto simp: advance_def split: prod.splits)
  with harmless_le [OF polite_outcome [OF assms(1) Inl] assms(3)] show ?thesis .
next
  case (Inr y)
  with assms show ?thesis by (auto simp: advance_def intro: node_le_view)
qed

lemma lock_grant:
  assumes "op_updates (st_task S) (lock_query i t) (lock_sets now nxt) s = (Inr n, s')" "n \<noteq> 0" "inv_db s"
  shows "run_no (view s) i = Some (t_runTimes t) \<and> run_no (view s') i = Some (t_runTimes t + 1)"
proof -
  have inv: "inv_db s'"
    by (rule pres_ioD [OF pres_task_updates assms(1,3)]) simp
  have "filter (selected co task_schema (lock_query i t)) (tb_task (view s)) \<noteq> []"
    using lock_update(1) [OF assms(1)] assms(2) by auto
  then obtain r where r: "r \<in> set (tb_task (view s))" "bm_DeletedAt r = 0" "bm_Id r = i"
    "tm_LastRunAt r = t_lastRunAt t" "tm_RunTimes r = t_runTimes t"
    by (auto simp: filter_empty_conv selected_lock)
  have "locked_row now nxt (clk s) r \<in> set (tb_task (view s'))"
    using lock_update(2) [OF assms(1)] r by (force simp: image_iff)
  then have "run_no (view s') i = Some (t_runTimes t + 1)"
    using run_no_iff [OF inv] r by (force simp: locked_row_def)
  with r run_no_iff [OF assms(3)] show ?thesis by auto
qed

lemma grant_step:
  assumes inv: "inv_db (wo_db w)" and out: "outcome (worker_prog L H jdet d j) [] = Inl c"
    and exec: "exec_call S H c (wo_db w) = (a, s)" and held: "held j [a] \<noteq> []"
  shows "ok_step w (w\<lparr>wo_db := s, wo_granted := wo_granted w @ held j [a]\<rparr>)"
proof -
  obtain t n where t: "j = JLock t" "a = RTask (ARows (Inr n))" "n \<noteq> 0" "held j [a] = [t]"
    by (rule held_grant [OF held])
  from out obtain nxt i where c: "checkedTaskModelId (t_id t) = Inr i"
    "c = OnTask (SUpdates (lock_query i t) (lock_sets (dr_lock d) nxt))"
    unfolding t(1) lock_outcome by (auto split: sum.splits)
  have upd: "op_updates (st_task S) (lock_query i t) (lock_sets (dr_lock d) nxt) (wo_db w) = (Inr n, s)"
    using exec unfolding c t(2) by (auto elim!: apfst_eqE)
  note runs = lock_grant [OF upd t(3) inv]
  have le: "node_le (wo_db w) s"
    by (rule harmless_le [OF polite_outcome [OF polite_worker out] inv exec])
  have "ledger_step (grants w)
      \<lparr>lg_runs = run_no (view s), lg_started = lg_started (grants w) @ [(i, t_runTimes t)]\<rparr>"
    by (rule ledger_step.start) (use runs le in \<open>simp_all add: granted_ledger_def runner.db_le_def\<close>)
  with le t(4) c(1) show ?thesis
    by (simp add: ok_step_def granted_ledger_def start_key_def runner.db_le_def)
qed

lemma work_step:
  assumes inv: "inv_db (wo_db w)" and run: "stmt_work (easytask_libs L S H jdet) d j w = (j', w')"
  shows "ok_step w w' \<and> accounts w (worker_held (Busy j)) w' (worker_held (next_worker j'))"
proof (cases j)
  case (SAt j0)
  with run inv show ?thesis by (auto simp: next_worker_def intro!: ok_step_same accounts_same)
next
  case (SIn d0 j0 as)
  let ?m = "worker_prog L H jdet d0 j0"
  show ?thesis
  proof (cases "outcome ?m as")
    case (Inr y)
    obtain j1 ts where y: "y = (j1, ts)" by (rule prod.exhaust)
    with run SIn Inr have w': "j' = map_option SAt j1" "w' = w\<lparr>wo_started := wo_started w @ ts\<rparr>"
      by (auto simp: advance_def)
    have "worker_held (next_worker j') = []" by (cases j1) (simp_all add: w'(1) next_worker_def)
    with told_is_held [OF Inr [unfolded y]] SIn w' ok_step_same [OF inv, of w'] show ?thesis
      by (simp add: accounts_def)
  next
    case (Inl c)
    obtain a s where exec: "exec_call S H c (wo_db w) = (a, s)" by (rule prod.exhaust)
    let ?new = "if held j0 as = [] then held j0 (as @ [a]) else []"
    have w': "j' = Some (SIn d0 j0 (as @ [a]))" "w' = w\<lparr>wo_db := s, wo_granted := wo_granted w @ ?new\<rparr>"
      using run SIn Inl exec by (auto simp: advance_def)
    have le: "node_le (wo_db w) s" by (rule harmless_le [OF polite_outcome [OF polite_worker Inl] inv exec])
    have "ok_step w w'"
    proof (cases "?new = []")
      case True
      with w' le show ?thesis by (intro ok_step_db) simp_all
    next
      case False
      then have "as = []" using held_first [of as j0 "[a]"] by (auto split: if_splits)
      with False grant_step [OF inv, of d0 j0 c a s] Inl exec w' show ?thesis by simp
    qed
    moreover have "accounts w (held j0 as) w' (held j0 (as @ [a]))"
      unfolding accounts_def using w'(2) held_first [of as j0 "[a]"] by (cases "as = []") auto
    ultimately show ?thesis using SIn w'(1) by (simp add: next_worker_def)
  qed
qed

lemma poll_step:
  assumes inv: "inv_db (wo_db w)" and run: "stmt_poll (easytask_libs L S H jdet) m n pc w = (r, w')"
  shows "ok_step w w' \<and> wo_granted w' = wo_granted w \<and> wo_started w' = wo_started w"
proof (cases pc)
  case (STop cursor)
  with run inv show ?thesis by (auto intro: ok_step_same)
next
  case (SPoll m' n' cursor as)
  obtain x s where adv: "advance S H (poll_prog L m' n' cursor) as (wo_db w) = (x, s)" by (rule prod.exhaust)
  with run SPoll have "w' = w\<lparr>wo_db := s\<rparr>" by (auto split: sum.splits)
  with ok_step_db [of w w'] advance_le [OF polite_poll adv inv] show ?thesis by simp
qed

lemma engine_step:
  assumes "pool_step (stmt_task_pool (easytask_libs L S H jdet)) (p, w) (q, w')" "inv_db (wo_db w)"
  shows "ok_step w w' \<and> accounts w (pool_held p) w' (pool_held q)"
proof -
  note same = ok_step_same [OF assms(2)]
  have upd: "accounts w (pool_held p) w' (concat (map worker_held ((pl_workers p)[k := y])))"
    if "k < length (pl_workers p)" "accounts w (worker_held (pl_workers p ! k)) w' (worker_held y)" for k y
    unfolding pool_held_def by (rule accounts_update [OF that])
  show ?thesis
    using assms(1)
  proof (cases rule: pool_step.cases)
    case (poll c xs c')
    with poll_step [OF assms(2)] show ?thesis by (auto simp: pool_held_def intro!: accounts_same)
  next
    case (hand x xs c k)
    have "worker_held (begin_item (stmt_task_pool (easytask_libs L S H jdet)) x) = []"
      by (auto simp: begin_item_def split: option.splits)
    with hand upd [OF hand(4)] same show ?thesis by (auto simp: pool_held_def accounts_same)
  next
    case (work k j j')
    then obtain d where "stmt_work (easytask_libs L S H jdet) d j w = (j', w')" by auto
    from work_step [OF assms(2) this] upd [of k "next_worker j'"] work show ?thesis by (simp add: pool_held_def)
  next
    case (tick k)
    with upd [OF tick(3)] same show ?thesis by (auto simp: pool_held_def accounts_same)
  qed (use same in \<open>auto simp: pool_held_def intro!: accounts_same\<close>)
qed

lemma registry_step:
  assumes "pool_step (stmt_registry_pool (easytask_libs L S H jdet)) (p, s) (q, s')" "inv_db s"
  shows "node_le s s'"
  using assms(1)
proof (cases rule: pool_step.cases)
  case (poll c xs c')
  then obtain m where "stmt_check (easytask_libs L S H jdet) m c s = ((xs, c'), s')" by auto
  moreover have "node_le s t" if "advance S H (check_prog L m' pc) as s = (x, t)" for m' pc as x t
    by (rule advance_le [OF polite_check that assms(2)])
  ultimately show ?thesis
    using node_le_view [OF assms(2) refl] by (cases c) (auto split: prod.splits sum.splits)
next
  case (work k j j')
  then have "stmt_check_work (easytask_libs L S H jdet) s j j' s'" by simp
  then show ?thesis
  proof cases
    case (pass now srv p as r)
    then show ?thesis by (auto intro: advance_le [OF polite_records(1) _ assms(2)])
  next
    case (drop srv p as r)
    then show ?thesis by (auto intro: advance_le [OF polite_records(2) _ assms(2)])
  qed (use heart_beat_view [OF sys_net] node_le_view [OF assms(2)] in auto)
qed (use node_le_view [OF assms(2) refl] in simp_all)

definition stmt_inv :: "'a stmt_cluster \<Rightarrow> bool" where
  "stmt_inv c \<longleftrightarrow> inv_db (wo_db (sc_world c)) \<and>
     mset (wo_started (sc_world c)) + mset (cluster_held c) \<subseteq># mset (wo_granted (sc_world c))"

lemma cluster_step:
  assumes step: "stmt_cluster_step (easytask_libs L S H jdet) A c c'" and inv: "inv_db (wo_db (sc_world c))"
  shows "ok_step (sc_world c) (sc_world c') \<and> accounts (sc_world c) (cluster_held c) (sc_world c') (cluster_held c')"
  using step
proof cases
  case (engine k q w')
  from engine_step [OF engine(3) inv]
  have e: "ok_step (sc_world c) w'" "accounts (sc_world c) (pool_held (sc_engines c ! k)) w' (pool_held q)" by simp_all
  from e(1) accounts_update [OF engine(2) e(2)] engine(1) show ?thesis by (simp add: cluster_held_def)
next
  case (registry k q s')
  with ok_step_db [of "sc_world c" "sc_world c'"] registry_step [OF registry(3) inv] show ?thesis
    by (simp add: cluster_held_def accounts_same)
next
  case (arrive r)
  then show ?thesis by (simp add: ok_step_same [OF inv] cluster_held_def accounts_same)
next
  case (request k r as x s')
  with ok_step_db [of "sc_world c" "sc_world c'"] advance_le [OF polite_serve request(4) [unfolded easytask_libs_simps] inv] show ?thesis
    by (simp add: cluster_held_def accounts_same)
qed

lemma stmt_inv_step:
  assumes "stmt_cluster_step (easytask_libs L S H jdet) A c c'" "stmt_inv c"
  shows "stmt_inv c'"
proof -
  from cluster_step [OF assms(1)] assms(2) have st: "ok_step (sc_world c) (sc_world c')"
    "accounts (sc_world c) (cluster_held c) (sc_world c') (cluster_held c')"
    and old: "mset (wo_started (sc_world c)) + mset (cluster_held c) \<subseteq># mset (wo_granted (sc_world c))"
    by (auto simp: stmt_inv_def)
  from st(2) obtain new where new: "wo_granted (sc_world c') = wo_granted (sc_world c) @ new"
    "mset (wo_started (sc_world c')) + mset (cluster_held c') \<subseteq>#
       mset (wo_started (sc_world c)) + mset (cluster_held c) + mset new" by (auto simp: accounts_def)
  from new(2) have "mset (wo_started (sc_world c')) + mset (cluster_held c') \<subseteq># mset (wo_granted (sc_world c'))"
    by (rule subset_mset.order_trans) (use old new(1) in simp)
  with st(1) show ?thesis by (simp add: stmt_inv_def ok_step_def)
qed

lemma stmt_run:
  assumes "(stmt_cluster_step (easytask_libs L S H jdet) A)\<^sup>*\<^sup>* c c'" "stmt_inv c"
  shows "stmt_inv c' \<and> ledger_step\<^sup>*\<^sup>* (grants (sc_world c)) (grants (sc_world c'))"
  using assms(1)
proof (induction rule: rtranclp_induct)
  case base
  with assms(2) show ?case by simp
next
  case (step d e)
  then have "inv_db (wo_db (sc_world d))" by (simp add: stmt_inv_def)
  from cluster_step [OF step.hyps(2) this] stmt_inv_step [OF step.hyps(2)] step.IH show ?case
    by (auto simp: ok_step_def intro: rtranclp.rtrancl_into_rtrancl)
qed

lemma stmt_starts_once:
  assumes run: "(stmt_cluster_step (easytask_libs L S H jdet) A)\<^sup>*\<^sup>* c0 c"
    and init: "inv_db (wo_db (sc_world c0))" "wo_started (sc_world c0) = []" "wo_granted (sc_world c0) = []"
      "cluster_held c0 = []"
  shows "distinct (map start_key (wo_started (sc_world c))) \<and>
    (\<forall>t \<in> set (wo_started (sc_world c)). \<exists>k. run_no (view (wo_db (sc_world c))) (fst (start_key t)) = Some k \<and>
       t_runTimes t < k)"
proof -
  let ?w = "sc_world c"
  have inv: "stmt_inv c" and led: "ledger_step\<^sup>*\<^sup>* (grants (sc_world c0)) (grants ?w)"
    using stmt_run [OF run] init by (auto simp: stmt_inv_def)
  have "ledger_ok (grants ?w)"
    by (rule ledger_steps_ok [OF led]) (simp add: granted_ledger_def ledger_ok_def init)
  then have ok: "distinct (map start_key (wo_granted ?w))"
    "\<forall>x \<in> set (map start_key (wo_granted ?w)). case x of (i, k) \<Rightarrow> \<exists>k'. run_no (view (wo_db ?w)) i = Some k' \<and> k < k'"
    by (auto simp: ledger_ok_def granted_ledger_def)
  have sub: "mset (wo_started ?w) \<subseteq># mset (wo_granted ?w)"
    using inv by (auto simp: stmt_inv_def intro: subset_mset.order_trans [OF mset_subset_eq_add_left])
  from image_mset_subseteq_mono [OF this, of start_key]
  have keys: "mset (map start_key (wo_started ?w)) \<subseteq># mset (map start_key (wo_granted ?w))" by simp
  have "distinct (map start_key (wo_started ?w))"
    by (rule distinct_part [OF keys ok(1)])
  moreover have "set (wo_started ?w) \<subseteq> set (wo_granted ?w)" using set_mset_mono [OF sub] by simp
  then have "\<exists>k. run_no (view (wo_db ?w)) (fst (start_key t)) = Some k \<and> t_runTimes t < k" if "t \<in> set (wo_started ?w)" for t
    using ok(2) that by (auto simp: start_key_def)
  ultimately show ?thesis by blast
qed

end

section \<open>Two workers race, statement by statement\<close>

abbreviation stmt_holder :: "stmt_job option \<Rightarrow> (stmt_sched, task, stmt_job) pool" where
  "stmt_holder j \<equiv> (pool_ready 1 (STop []))\<lparr>pl_workers := [next_worker j]\<rparr>"

definition holders :: "stmt_job option list \<Rightarrow> 's gworld \<Rightarrow> 's stmt_cluster" where
  "holders js w = \<lparr>sc_engines = map stmt_holder js, sc_registries = [], sc_requests = [], sc_world = w\<rparr>"

text \<open>A schedule: the holders in the order of their steps.\<close>

fun race :: "'s node_libs \<Rightarrow> draws \<Rightarrow> nat list \<Rightarrow> stmt_job option list \<Rightarrow> 's gworld \<Rightarrow> stmt_job option list \<times> 's gworld" where
  "race X d [] js w = (js, w)"
| "race X d (k # ks) js w =
     (case js ! k of
        None \<Rightarrow> race X d ks js w
      | Some j \<Rightarrow> (case stmt_work X d j w of (j', w') \<Rightarrow> race X d ks (js[k := j']) w'))"

lemma race_run:
  assumes "race X d ks js w = (js', w')" "list_all (\<lambda>k. k < length js) ks"
  shows "(stmt_cluster_step X A)\<^sup>*\<^sup>* (holders js w) (holders js' w')"
  using assms
proof (induction ks arbitrary: js w)
  case (Cons k ks)
  show ?case
  proof (cases "js ! k")
    case None
    with Cons show ?thesis by simp
  next
    case (Some j)
    obtain j1 w1 where work: "stmt_work X d j w = (j1, w1)" by (rule prod.exhaust)
    have k: "k < length js" using Cons.prems by simp
    have "pe_work (stmt_task_pool X) w j j1 w1" using work by auto
    then have "pool_step (stmt_task_pool X) (stmt_holder (js ! k), w) (stmt_holder j1, w1)"
      using pool_step.work [of 0 "stmt_holder (Some j)" j "stmt_task_pool X" w j1 w1]
      by (simp add: Some next_worker_def)
    from stmt_cluster_step.engine [of k "holders js w" X _ w1 A] this k
    have "stmt_cluster_step X A (holders js w) (holders (js[k := j1]) w1)"
      by (simp add: holders_def map_update)
    moreover have "(stmt_cluster_step X A)\<^sup>*\<^sup>* (holders (js[k := j1]) w1) (holders js' w')"
      using Cons.prems work Some by (intro Cons.IH) simp_all
    ultimately show ?thesis by (rule converse_rtranclp_into_rtranclp)
  qed
qed simp

definition demo_gworld :: "mem gworld" where
  "demo_gworld = \<lparr>wo_db = demo_mem, wo_started = [], wo_granted = []\<rparr>"

abbreviation demo_libs :: "mem node_libs" where
  "demo_libs \<equiv> easytask_libs ref_libs mem_store demo_http demo_jdet"

text \<open>Node 1 is refused between the \<open>UPDATE\<close> and the \<open>INSERT\<close> of node 0.\<close>

abbreviation demo_stmt_race :: "stmt_job option list \<times> mem gworld" where
  "demo_stmt_race \<equiv>
     race demo_libs demo_draws [0, 1, 0, 1, 1, 0, 0] [Some (SAt (JLock demo_task)), Some (SAt (JLock demo_task))] demo_gworld"

section \<open>Properties\<close>

text \<open>
  C2. Statement by statement the program refines the ledger: every call of GORM or of HTTP that a goroutine of any node
  or an API request makes, with any others between it and the next, is a step of the abstract specification
  in which a run starts when the \<open>UPDATE\<close> of its lock reports a changed row.
\<close>

lemma statements_refine_ledger:
  assumes "easytask_node S co clk view L H" "store_inv co (view (wo_db (sc_world c)))"
    and "stmt_cluster_step (easytask_libs L S H jdet) A c c'"
  shows "store_inv co (view (wo_db (sc_world c'))) \<and>
    ledger_step (granted_ledger (\<lambda>db. run_no (view db)) (sc_world c)) (granted_ledger (\<lambda>db. run_no (view db)) (sc_world c'))"
proof -
  note ok = easytask_node.cluster_step [OF assms(1,3,2), THEN conjunct1]
  then show ?thesis by (simp only: easytask_node.ok_step_def [OF assms(1)])
qed

lemma statements_refine_ledger_witness:
  "let w = snd (stmt_work demo_libs demo_draws (SIn demo_draws (JLock demo_task) []) demo_gworld)
   in ledger_step (granted_ledger (\<lambda>db. run_no (mm_tabs db)) demo_gworld) (granted_ledger (\<lambda>db. run_no (mm_tabs db)) w) \<and>
     wo_granted w = [demo_task]"
proof -
  let ?j = "SIn demo_draws (JLock demo_task) []"
  let ?p = "stmt_work demo_libs demo_draws ?j demo_gworld"
  let ?c = "holders [Some ?j] demo_gworld"
  have "pe_work (stmt_task_pool demo_libs) demo_gworld ?j (fst ?p) (snd ?p)"
    unfolding stmt_task_pool_simps by (rule exI [of _ demo_draws]) simp
  then have "pool_step (stmt_task_pool demo_libs) (stmt_holder (Some ?j), demo_gworld) (stmt_holder (fst ?p), snd ?p)"
    using pool_step.work [of 0 "stmt_holder (Some ?j)" ?j "stmt_task_pool demo_libs" demo_gworld "fst ?p" "snd ?p"]
    by (simp add: next_worker_def)
  from stmt_cluster_step.engine [of 0 ?c demo_libs _ "snd ?p" "ref_api undefined undefined"] this
  have step: "stmt_cluster_step demo_libs (ref_api undefined undefined) ?c (holders [fst ?p] (snd ?p))"
    by (simp add: holders_def)
  have inv: "store_inv mem_co (mm_tabs (wo_db (sc_world ?c)))" by (simp add: holders_def demo_gworld_def demo_inv)
  have "wo_granted (snd ?p) = [demo_task]" by code_simp
  with statements_refine_ledger [OF mem_is_node inv step] show ?thesis by (simp add: holders_def Let_def)
qed

text \<open>
  C1. No run is started twice, statement by statement: on any number of nodes, whoever is master, and with the
  statements of all their goroutines and of all API requests interleaved in any way, at most one worker is ever told
  that its lock on a run number of a task was granted, and every such run has been consumed in the database.
\<close>

lemma statements_start_runs_once:
  assumes "easytask_node S co clk view L H" "store_inv co (view (wo_db (sc_world c0)))"
    and "wo_started (sc_world c0) = []" "wo_granted (sc_world c0) = []" "cluster_held c0 = []"
    and "(stmt_cluster_step (easytask_libs L S H jdet) A)\<^sup>*\<^sup>* c0 c"
  shows "distinct (map start_key (wo_started (sc_world c))) \<and>
    (\<forall>t \<in> set (wo_started (sc_world c)). \<exists>k. run_no (view (wo_db (sc_world c))) (fst (start_key t)) = Some k \<and>
       t_runTimes t < k)"
  by (rule easytask_node.stmt_starts_once [OF assms(1,6,2,3,4,5)])

lemma statements_start_runs_once_witness:
  "wo_started (snd demo_stmt_race) = [demo_task] \<and> distinct (map start_key (wo_started (snd demo_stmt_race))) \<and>
   (\<exists>k. run_no (mm_tabs (wo_db (snd demo_stmt_race))) (fst (start_key demo_task)) = Some k \<and> t_runTimes demo_task < k)"
proof -
  let ?c0 = "holders [Some (SAt (JLock demo_task)), Some (SAt (JLock demo_task))] demo_gworld"
  have run: "(stmt_cluster_step demo_libs (ref_api undefined undefined))\<^sup>*\<^sup>* ?c0
      (holders (fst demo_stmt_race) (snd demo_stmt_race))"
    by (rule race_run [OF surjective_pairing]) simp
  have inv: "store_inv mem_co (mm_tabs (wo_db (sc_world ?c0)))" by (simp add: holders_def demo_gworld_def demo_inv)
  have init: "wo_started (sc_world ?c0) = []" "wo_granted (sc_world ?c0) = []" "cluster_held ?c0 = []"
    by (simp_all add: holders_def demo_gworld_def cluster_held_def pool_held_def next_worker_def)
  have started: "wo_started (snd demo_stmt_race) = [demo_task]" by code_simp
  with statements_start_runs_once [OF mem_is_node inv init run] show ?thesis by (simp add: holders_def)
qed

end
