(* ===== verification/Spec2Isabelle.thy ===== *)
theory Spec2Isabelle
  imports Boot Trace Snapshots Stream_Query Stmt_Cluster
begin

text \<open>
  easytask, a distributed task scheduler in Go: clients register callback services and tasks over an
  HTTP API, the nodes of a cluster share one MySQL database, page through the tasks that are due,
  lock each run in the database, call the task's service over HTTP and record the outcome; a registry
  checks the health of the services and removes routes that do not answer.

  \<^bold>\<open>Layers and theories\<close> (paths under \<open>src/\<close>)

  \<^item> Ground: \<open>Prelude\<close> (machine integers, errors, computations with errors, shared lemmas),
    \<open>Strconv\<close> (decimal text of identifiers), \<open>Go_Slice\<close> (a slice shared by goroutines, \<open>append\<close> access by access),
    \<open>Biz_Errs\<close> (\<open>pkg/errs\<close>, \<open>internal/util/errs\<close>).
  \<^item> Data: \<open>Entities\<close> (\<open>internal/task/task.go\<close>, \<open>callback.go\<close>), \<open>Data_Model\<close> (rows and conversions,
    \<open>impl/repo/mysql/data_model.go\<close>, \<open>db_field.go\<close>), \<open>Data_Props\<close>, \<open>Snapshots\<close> (the JSON columns).
  \<^item> Database: \<open>Sql_Store\<close> (statements as data, their execution a parameter), \<open>Sql_Contract\<close> (their
    meaning and the contract of the database), \<open>Store_Inv\<close> (well-formed tables), \<open>Mem_Store\<close> (a
    database that meets the contract), \<open>Repo_Conn\<close> (opening a connection, \<open>repo_conn.go\<close>), \<open>Stream_Query\<close>
    (\<open>stream_query.go\<close>).
  \<^item> Repositories: \<open>Repo_Interfaces\<close> (\<open>internal/task/repo.go\<close>), \<open>Task_Log_Repo\<close>, \<open>Task_Srv_Repo\<close>,
    \<open>Task_Repo\<close> (\<open>impl/repo/mysql/*_repo.go\<close>), \<open>Repo_Props\<close>.
  \<^item> Callbacks: \<open>Callback_Http\<close> (\<open>impl/callback/http.go\<close>, \<open>TaskLogger\<close> of \<open>task.go\<close>,
    \<open>httpproto/callback.go\<close>).
  \<^item> Process: \<open>Callers\<close> (callers of a function that works on shared variables, and what a mutex gives them),
    \<open>Logging\<close> (\<open>internal/util/logger\<close>, \<open>internal/util/runtime\<close>, \<open>impl/repo/mysql/logger.go\<close>), \<open>Trace\<close>
    (\<open>pkg/contxt\<close>, \<open>httpproto/header.go\<close> and the code at both ends of a request that uses them).
  \<^item> Goroutines: \<open>Worker_Pool\<close> (what the pools of \<open>internal/task/worker.go\<close>, \<open>sched.go\<close> and
    \<open>internal/registry/registry.go\<close> share), \<open>Task_Engine\<close> (worker engine and scheduler), \<open>Sched_Scan\<close>
    (the scheduler over many rounds, with a clock and a database of its own in each), \<open>Registry\<close>.
  \<^item> API: \<open>Task_Api\<close> (\<open>internal/apihandler\<close> with its services, \<open>pkg/rpc/proto\<close>), \<open>Api_Props\<close>,
    \<open>Http_Router\<close> and \<open>Router_Props\<close> (\<open>internal/apiserver/http_router.go\<close>), \<open>Api_Server\<close>
    (\<open>api_route.go\<close>), \<open>Rpc_Client\<close> (\<open>pkg/rpc/http_cli.go\<close>), \<open>Rpc_Reference\<close> (codecs that meet the laws of
    the conversation), \<open>Server_Props\<close>.
  \<^item> Whole: \<open>Ledger\<close> (the abstract specification: a ledger of runs), \<open>Cluster\<close> (\<open>main.go\<close>: any number
    of nodes and clients on one database), \<open>Stmt_Steps\<close>, \<open>Stmt_Programs\<close>, \<open>Stmt_Safe\<close> and \<open>Stmt_Cluster\<close> (the
    same with the operations taken apart into their statements), \<open>Node\<close> (\<open>main.go\<close>: one process up to its exit after a signal) and
    \<open>Boot\<close> (\<open>main.go\<close>, \<open>internal/util/conf\<close>, the constructors of the repositories, \<open>tool/main.go\<close>).

  \<^bold>\<open>How code becomes definitions.\<close> A struct is a record whose fields carry a prefix and the source's name;
  a method is a definition with the source's name, written with underscores where it would clash. A method that touches
  the database is a computation \<open>('s, 'a) io\<close>: a state to an error or a value, and the new state;
  every early return of the source is a branch. A clock or random value that the code reads is an
  argument. What is not in this repository is a parameter with named laws: MySQL through GORM
  (\<open>store\<close>, law \<open>sql_store\<close>), collations, the validator (\<open>validator_law\<close>), cron expressions, the
  HTTP exchange and the JSON codecs (\<open>net_law\<close>, \<open>http_codec\<close>, \<open>api_link\<close>, \<open>snapshot_law\<close>), trace contexts
  (\<open>trace_law\<close>), GORM handles (\<open>session_law\<close>), opening a connection and migrating (\<open>boot_lib\<close>,
  \<open>migrate_law\<close>), the election (who is master is arbitrary at each step). Every law has an instance in the development, on which each witness runs.

  \<^bold>\<open>Concurrency.\<close> Goroutines are step relations: \<open>pool_step\<close> (the goroutine that
  creates the workers, scheduler, workers, caller of \<open>Stop\<close>),
  \<open>beat_step\<close> (the goroutines of a health check, at the granularity of their accesses to shared variables: reading the
  header of a result slice, writing the element and storing the header are three steps),
  \<open>router_step\<close> (callers of \<open>Register\<close> and \<open>Boot\<close> around the mutex), \<open>gate_step\<close> (requests in flight
  and \<open>Stop\<close> of the router), \<open>callers_step\<close> (callers of \<open>Init\<close> and of \<open>getConn\<close>), \<open>own_step\<close> (all the parts of a
  node with the goroutines of its shutdown), \<open>cluster_step\<close> (all nodes and all requests). There a call of a repository
  or of the executor is one step. \<open>stmt_cluster_step\<close> is the cluster with a step for every call of GORM and every
  HTTP request, so that the statements of all operations interleave: the definitions of the repositories, which
  are polymorphic in the state of the store, are run on recorded replies (\<open>replay\<close>) up to their next call.
  Undisturbed it does what the operations do in one step (\<open>statements_do_the_operation\<close>), and no run is started
  twice there either. GORM's \<open>FirstOrCreate\<close> is one step although it may send two statements: its insert is
  refused when another one came first, so it acts at its last statement.

  \<^bold>\<open>Interfaces.\<close> \<open>sql_table\<close>, \<open>sql_store\<close>, \<open>migrated_store\<close> (what the repositories assume of the
  database), \<open>task_log_repo\<close>, \<open>callback_srv_repo\<close>, \<open>task_repo_contract\<close> (what the engine assumes of
  the repositories; the MySQL repositories are shown to be models by \<open>sublocale\<close>), \<open>http_exec\<close>,
  \<open>task_runner\<close> (engine over any repository), \<open>http_codec\<close> (the two ends of the API), \<open>mutex_callers\<close> (critical
  sections), composed in
  \<open>easytask_store\<close>, \<open>easytask_system\<close> and \<open>easytask_node\<close>.

  \<^bold>\<open>What is shown.\<close>

  \<^item> The program refines the ledger, and so no run of a task is started twice, on any number of nodes and in
    every interleaving (\<open>Cluster\<close>), also of the single statements (\<open>Stmt_Cluster\<close>).
  \<^item> Locking, adding, paging, confirming and deleting tasks do what they promise to the rows, and
    every repository operation keeps the tables well-formed, on error paths too (\<open>Repo_Props\<close>).
  \<^item> A scan finds every task that stays due and served, unless a page's worth of tasks of unregistered services hides
    it, sends none twice, and has as many full rounds as there are due tasks at most, whatever happens between its
    rounds (\<open>Sched_Scan\<close>); a worker runs what it locked and confirms that run, without its number when the
    executor failed (\<open>Task_Engine\<close>); a callback logs its own run, a health check reports a route at most once
    (\<open>Callback_Http\<close>) and the registry stamps and removes what it found (\<open>Registry\<close>).
  \<^item> \<open>Stop\<close> of the engine and of the router leave nothing running; the engine's can always complete unless a worker
    was lost. A process whose registry had created its workers before the shutdown reached it has stopped everything when
    it exits, and refuses no request before its work is drained; \<open>registry_stop_can_return_early\<close> shows why the
    condition is needed. From wherever the shutdown is once the registry has stopped it can complete, unless a worker was
    or will be lost over a task without routes or a handler panics (\<open>Node\<close>).
  \<^item> A serving process opened the configured data source for each repository, migrated over those connections and
    has the configured pools and routes (\<open>Boot\<close>); loggers are made once (\<open>Logging\<close>); a trace
    identifier travels with a request (\<open>Trace\<close>).
  \<^item> An API request does to the database what it says (\<open>Api_Props\<close>); the routes are served and stay fixed
    while the server runs, and a client is told what the handler answered (\<open>Server_Props\<close>).
  \<^item> Where the code does something else than it means to, the theorem states what it does: a health check
    whose goroutines share their error and can lose a route, \<open>Registry.Stop\<close> and \<open>Boot\<close> that can block for ever and a shutdown
    that hangs with them, confirmations that fail on the program's own tables, a clean-up of logs that deletes
    tasks, a connection that failed to open and is used, and others.

  \<^bold>\<open>Bounds and fuel.\<close> Identifiers compare with text columns as MySQL does, through a double, so the
  log lemmas take identifiers below \<open>2 ^ 53\<close>. White space in paths is ASCII, and the laws of the JSON codecs are
  for ASCII texts. \<open>sched_rounds\<close> is about every list of rounds and needs no fuel. \<open>write_loop\<close> takes a number of rounds: one is enough over a writer that keeps the
  contract of \<open>io.Writer\<close>. A Go \<open>int\<close> is an \<open>int\<close> with \<open>wrap64\<close> where the code adds.

  \<^bold>\<open>Not modelled.\<close> Timers and pauses: a step that waits for one may happen at any time. The inside of the
  election, of the configuration loader, of \<open>log-go\<close> and of GORM, which are third-party; the goroutine of \<open>main\<close>
  that panics when the election reports an error. The listeners of the API and of pprof. \<open>Sched.nextTask\<close> and
  \<open>taskRespCh\<close>, which nothing uses. The generated names of \<open>stru_field.go\<close>, the console of \<open>tool/main.go\<close>, the
  tests.
\<close>

end
